(* ===== verification/Prelude.thy ===== *)
theory Prelude
  imports Main "HOL-Library.Word"
begin

unbundle bit_operations_syntax

text \<open>
  Shared vocabulary of the development: Go strings and byte slices, the functions of the
  standard packages \<^verbatim>\<open>strings\<close>, \<^verbatim>\<open>strconv\<close> and \<^verbatim>\<open>encoding/hex\<close> that the sources
  call, Go errors, panics, and buffered channels.

  \<^item> A Go \<^verbatim>\<open>string\<close> and a \<^verbatim>\<open>[]byte\<close> are byte sequences. Strings are HOL's \<open>string\<close>
    (a list of 8-bit characters), byte slices are lists of \<open>8 word\<close>.
  \<^item> A Go \<^verbatim>\<open>error\<close> is \<open>None\<close> (nil) or \<open>Some\<close> of its message: the sources compare
    errors by their message only.
  \<^item> A call that may panic returns an \<open>outcome\<close>.
  \<^item> A buffered channel is a \<open>gochan\<close>: its buffer, its capacity and whether it is closed.
\<close>

named_theorems go_str \<open>laws of the string functions\<close>
named_theorems go_chan_simps \<open>equations of the channel operations\<close>


section \<open>Types\<close>

type_synonym byte = "8 word"
type_synonym bytes = "byte list"
type_synonym u32 = "32 word"
type_synonym i64 = "64 word"

text \<open>A Go error: nil, or an error with a message.\<close>
type_synonym go_error = "string option"

abbreviation nil :: go_error where "nil \<equiv> None"
abbreviation errors_New :: "string \<Rightarrow> go_error" where "errors_New m \<equiv> Some m"

text \<open>The result of a call that may panic; the panic value is kept as its message.\<close>
datatype 'a outcome = Ret 'a | Panic string

definition nil_dereference :: "'a outcome" where
  "nil_dereference = Panic ''nil pointer dereference''"

fun bind_outcome :: "'a outcome \<Rightarrow> ('a \<Rightarrow> 'b outcome) \<Rightarrow> 'b outcome" where
  "bind_outcome (Ret a) f = f a"
| "bind_outcome (Panic m) f = Panic m"

lemma bind_outcome_Ret [simp]: "bind_outcome x Ret = x"
  by (cases x) simp_all

lemma bind_outcome_assoc:
  "bind_outcome (bind_outcome x f) g = bind_outcome x (\<lambda>a. bind_outcome (f a) g)"
  by (cases x) simp_all

lemma bind_outcome_eq_Ret:
  "bind_outcome x f = Ret b \<longleftrightarrow> (\<exists>a. x = Ret a \<and> f a = Ret b)"
  by (cases x) simp_all


section \<open>Strings\<close>

text \<open>\<^verbatim>\<open>strings.Split(s, sep)\<close> for a separator of one character.\<close>
fun split_on :: "char \<Rightarrow> string \<Rightarrow> string list" where
  "split_on c [] = [[]]"
| "split_on c (x # xs) =
     (if x = c then [] # split_on c xs
      else (case split_on c xs of [] \<Rightarrow> [[x]] | y # ys \<Rightarrow> (x # y) # ys))"

text \<open>\<^verbatim>\<open>strings.Join(parts, sep)\<close> for a separator of one character.\<close>
fun join_with :: "char \<Rightarrow> string list \<Rightarrow> string" where
  "join_with c [] = []"
| "join_with c [p] = p"
| "join_with c (p # q # ps) = p @ c # join_with c (q # ps)"

text \<open>\<^verbatim>\<open>strings.HasPrefix\<close> and \<^verbatim>\<open>strings.HasSuffix\<close>.\<close>
definition has_prefix :: "string \<Rightarrow> string \<Rightarrow> bool" where
  "has_prefix s p = (take (length p) s = p)"

definition has_suffix :: "string \<Rightarrow> string \<Rightarrow> bool" where
  "has_suffix s p = (length p \<le> length s \<and> drop (length s - length p) s = p)"

text \<open>\<^verbatim>\<open>strings.ToUpper\<close> on ASCII text.\<close>
definition upper_char :: "char \<Rightarrow> char" where
  "upper_char c = (if 97 \<le> (of_char c :: nat) \<and> (of_char c :: nat) \<le> 122
                   then char_of ((of_char c :: nat) - 32) else c)"

definition to_upper :: "string \<Rightarrow> string" where
  "to_upper s = map upper_char s"

text \<open>The bytes of a string, \<^verbatim>\<open>[]byte(s)\<close>, and back, \<^verbatim>\<open>string(b)\<close>.\<close>
definition bytes_of_string :: "string \<Rightarrow> bytes" where
  "bytes_of_string s = map (\<lambda>c. of_nat (of_char c)) s"

definition string_of_bytes :: "bytes \<Rightarrow> string" where
  "string_of_bytes b = map (\<lambda>w. char_of (unat w)) b"

text \<open>Decimal printing, \<^verbatim>\<open>%d\<close>.\<close>
definition digit_char :: "nat \<Rightarrow> char" where
  "digit_char d = ''0123456789'' ! d"

fun show_nat :: "nat \<Rightarrow> string" where
  "show_nat n = (if n < 10 then [digit_char n] else show_nat (n div 10) @ [digit_char (n mod 10)])"

declare show_nat.simps [simp del]

definition show_int :: "int \<Rightarrow> string" where
  "show_int i = (if i < 0 then CHR ''-'' # show_nat (nat (- i)) else show_nat (nat i))"

text \<open>\<^verbatim>\<open>hex.EncodeToString\<close> (lower-case digits, high nibble first).\<close>
definition hex_digit :: "nat \<Rightarrow> char" where
  "hex_digit d = ''0123456789abcdef'' ! d"

definition hex_byte :: "byte \<Rightarrow> string" where
  "hex_byte b = [hex_digit (unat b div 16), hex_digit (unat b mod 16)]"

definition hex_encode :: "bytes \<Rightarrow> string" where
  "hex_encode bs = concat (map hex_byte bs)"


subsection \<open>Laws\<close>

lemma split_on_not_Nil [simp]: "split_on c s \<noteq> []"
  by (cases s) (auto split: list.split)

lemma split_on_no_sep: "c \<notin> set s \<Longrightarrow> split_on c s = [s]"
  by (induction s) auto

lemma split_on_append_sep:
  "c \<notin> set p \<Longrightarrow> split_on c (p @ c # s) = p # split_on c s"
  by (induction p) auto

lemma split_on_parts_no_sep: "p \<in> set (split_on c s) \<Longrightarrow> c \<notin> set p"
proof (induction s arbitrary: p)
  case Nil
  then show ?case by simp
next
  case (Cons x xs)
  obtain y ys where xs: "split_on c xs = y # ys"
    by (cases "split_on c xs") auto
  with Cons show ?case by (auto split: if_splits)
qed

lemma split_on_join_with [go_str]:
  "ps \<noteq> [] \<Longrightarrow> \<forall>p \<in> set ps. c \<notin> set p \<Longrightarrow> split_on c (join_with c ps) = ps"
  by (induction c ps rule: join_with.induct)
     (auto simp: split_on_no_sep split_on_append_sep)

lemma join_with_Cons: "ps \<noteq> [] \<Longrightarrow> join_with c (p # ps) = p @ c # join_with c ps"
  by (cases ps) auto

lemma join_with_split_on [go_str]: "join_with c (split_on c s) = s"
proof (induction s)
  case Nil
  then show ?case by simp
next
  case (Cons x xs)
  obtain y ys where xs: "split_on c xs = y # ys"
    by (cases "split_on c xs") auto
  with Cons show ?case
    by (cases ys) (auto simp: join_with_Cons)
qed

lemma has_prefix_Nil [simp]: "has_prefix s []"
  by (simp add: has_prefix_def)

lemma has_prefix_append [simp]: "has_prefix (p @ s) p"
  by (simp add: has_prefix_def)

lemma has_prefix_iff: "has_prefix s p \<longleftrightarrow> (\<exists>t. s = p @ t)"
  by (metis append_take_drop_id has_prefix_append has_prefix_def)

lemma has_suffix_append [simp]: "has_suffix (s @ p) p"
  by (simp add: has_suffix_def)

lemma length_to_upper [simp]: "length (to_upper s) = length s"
  by (simp add: to_upper_def)

lemma length_hex_encode [simp]: "length (hex_encode bs) = 2 * length bs"
  by (induction bs) (simp_all add: hex_encode_def hex_byte_def)

lemma length_bytes_of_string [simp]: "length (bytes_of_string s) = length s"
  by (simp add: bytes_of_string_def)

lemma of_char_lt_256 [simp]: "(of_char c :: nat) < 256"
  by (simp add: of_char_def)

lemma unat_of_char [simp]: "unat (of_nat (of_char c) :: 8 word) = of_char c"
  by (simp add: unat_of_nat)

lemma string_of_bytes_of_string [simp]: "string_of_bytes (bytes_of_string s) = s"
  by (induction s) (simp_all add: string_of_bytes_def bytes_of_string_def)

lemma hex_digit_in:
  assumes "d < 16" shows "hex_digit d \<in> set ''0123456789abcdef''"
  unfolding hex_digit_def by (rule nth_mem) (use assms in simp)

lemma hex_encode_chars: "c \<in> set (hex_encode bs) \<Longrightarrow> c \<in> set ''0123456789abcdef''"
proof (induction bs)
  case Nil
  then show ?case by (simp add: hex_encode_def)
next
  case (Cons b bs)
  have b: "unat b div 16 < 16" "unat b mod 16 < 16"
    using unsigned_less [of b, where ?'a = nat] by auto
  have "c = hex_digit (unat b div 16) \<or> c = hex_digit (unat b mod 16) \<or> c \<in> set (hex_encode bs)"
    using Cons.prems by (auto simp: hex_encode_def hex_byte_def)
  then show ?case
    using Cons.IH hex_digit_in [OF b(1)] hex_digit_in [OF b(2)] by (elim disjE) simp_all
qed

lemma show_nat_not_Nil [simp]: "show_nat n \<noteq> []"
  by (subst show_nat.simps) simp


section \<open>Lists\<close>

lemma foldl_append_singletons [simp]: "foldl (\<lambda>xs y. xs @ [y]) xs ys = xs @ ys"
  by (induction ys arbitrary: xs) simp_all


section \<open>Buffered channels\<close>

record 'a gochan =
  buf :: "'a list"
  cap :: nat
  closed :: bool

text \<open>\<^verbatim>\<open>make(chan T, n)\<close>.\<close>
definition make_chan :: "nat \<Rightarrow> 'a gochan" where
  "make_chan n = \<lparr>buf = [], cap = n, closed = False\<rparr>"

text \<open>
  A send in a \<^verbatim>\<open>select\<close> with a \<^verbatim>\<open>default\<close> branch: \<open>Ret (Some ch')\<close> when the value went into
  the buffer, \<open>Ret None\<close> when the default branch is taken, a panic on a closed channel.
\<close>
definition try_send :: "'a gochan \<Rightarrow> 'a \<Rightarrow> 'a gochan option outcome" where
  "try_send ch x =
     (if closed ch then Panic ''send on closed channel''
      else if length (buf ch) < cap ch then Ret (Some (ch\<lparr>buf := buf ch @ [x]\<rparr>))
      else Ret None)"

text \<open>
  A receive: \<open>Received x ch'\<close> from a non-empty buffer (a closed channel is drained first),
  \<open>Drained\<close> (the zero value, \<^verbatim>\<open>ok = false\<close>) from a closed empty one, \<open>Blocked\<close> otherwise.
\<close>
datatype 'a received = Received 'a "'a gochan" | Drained | Blocked

definition try_recv :: "'a gochan \<Rightarrow> 'a received" where
  "try_recv ch =
     (case buf ch of
        x # xs \<Rightarrow> Received x (ch\<lparr>buf := xs\<rparr>)
      | [] \<Rightarrow> (if closed ch then Drained else Blocked))"

definition close_chan :: "'a gochan \<Rightarrow> 'a gochan outcome" where
  "close_chan ch =
     (if closed ch then Panic ''close of closed channel'' else Ret (ch\<lparr>closed := True\<rparr>))"

definition chan_wf :: "'a gochan \<Rightarrow> bool" where
  "chan_wf ch = (length (buf ch) \<le> cap ch)"

lemma chan_wf_make [simp]: "chan_wf (make_chan n)"
  by (simp add: chan_wf_def make_chan_def)

lemma chan_wf_try_send: "chan_wf ch \<Longrightarrow> try_send ch x = Ret (Some ch') \<Longrightarrow> chan_wf ch'"
  by (auto simp: chan_wf_def try_send_def split: if_splits)

lemma chan_wf_try_recv: "chan_wf ch \<Longrightarrow> try_recv ch = Received x ch' \<Longrightarrow> chan_wf ch'"
  by (auto simp: chan_wf_def try_recv_def split: list.splits if_splits)

lemma try_send_fifo [go_chan_simps]:
  "try_send ch x = Ret (Some ch') \<longleftrightarrow>
     \<not> closed ch \<and> length (buf ch) < cap ch \<and> ch' = ch\<lparr>buf := buf ch @ [x]\<rparr>"
  by (auto simp: try_send_def)

lemma try_send_full [go_chan_simps]:
  "try_send ch x = Ret None \<longleftrightarrow> \<not> closed ch \<and> cap ch \<le> length (buf ch)"
  by (auto simp: try_send_def)

lemma try_send_panic [go_chan_simps]:
  "try_send ch x = Panic m \<longleftrightarrow> closed ch \<and> m = ''send on closed channel''"
  by (auto simp: try_send_def)

lemma try_recv_Received [go_chan_simps]:
  "try_recv ch = Received x ch' \<longleftrightarrow> (\<exists>xs. buf ch = x # xs \<and> ch' = ch\<lparr>buf := xs\<rparr>)"
  by (auto simp: try_recv_def split: list.split)

end
