(* ===== verification/TimingWheel.thy ===== *)
theory TimingWheel
  imports Prelude
begin

text \<open>
  The hierarchical timing wheel of \<^verbatim>\<open>pkg/timingwheel/timingwheel.go\<close>.

  A wheel of \<open>depth\<close> levels with \<open>slen\<close> slots each. Levels are numbered from the innermost
  (level 0, one tick per slot) to the outermost (level \<open>depth - 1\<close>), so the \<^verbatim>\<open>child\<close> of level
  \<open>Suc k\<close> is level \<open>k\<close> and the \<^verbatim>\<open>parent\<close> of level \<open>k\<close> is level \<open>Suc k\<close>. Slots are heap objects:
  the slot \<open>i\<close> of level \<open>k\<close> is the address \<open>(k, i)\<close>, its \<^verbatim>\<open>values\<close> are kept in a store, and a
  task points to its slot by that address. Tasks are numbered in the order of creation.

  \<^verbatim>\<open>Executor\<close> starts a goroutine per due task; here \<open>call\<close> appends the task to the queue
  \<open>execq\<close> and \<open>exec_task\<close> is the body of that goroutine (cancel, run the callback, notify the
  channel), which logs the task in \<open>fired\<close>. \<open>tick_and_run\<close> is a tick whose goroutines all run
  before the next tick. Go's map iteration order is modelled by the order of insertion. The
  floating-point divisions of the source are integer divisions here; the theory \<open>Float64\<close> has them
  as they are, shows that the results are the same, and has \<^verbatim>\<open>TTL\<close>.

  The main results: a task added with offset \<open>d\<close> runs at exactly the \<open>d\<close>-th following tick,
  whatever other tasks are added or cancelled meanwhile; a task beyond the capacity is silently
  dropped.
\<close>

section \<open>Definitions\<close>

record Task =
  offset :: int
  slot_of :: "(nat \<times> nat) option"
  fn :: "nat option"

record wheel =
  slotCap :: int
  remain :: int
  cur :: nat

record TimingWheel =
  interval :: int
  maxTimeout :: int
  depth :: nat
  slen :: nat
  wheel_at :: "nat \<Rightarrow> wheel"
  slot_values :: "nat \<Rightarrow> nat \<Rightarrow> nat list"
  task_at :: "nat \<Rightarrow> Task"
  next_task :: nat
  execq :: "nat list"
  fired :: "nat list"
  callbacks :: "nat list"
  quit :: bool

text \<open>Updates of the heap objects.\<close>

definition set_wheel :: "nat \<Rightarrow> wheel \<Rightarrow> TimingWheel \<Rightarrow> TimingWheel" where
  "set_wheel k w tw = tw\<lparr>wheel_at := (wheel_at tw)(k := w)\<rparr>"

definition set_values :: "nat \<Rightarrow> nat \<Rightarrow> nat list \<Rightarrow> TimingWheel \<Rightarrow> TimingWheel" where
  "set_values k i vs tw =
     tw\<lparr>slot_values := (slot_values tw)(k := ((slot_values tw) k)(i := vs))\<rparr>"

definition set_task :: "nat \<Rightarrow> Task \<Rightarrow> TimingWheel \<Rightarrow> TimingWheel" where
  "set_task v t tw = tw\<lparr>task_at := (task_at tw)(v := t)\<rparr>"

subsection \<open>Slots\<close>

text \<open>
  \<^verbatim>\<open>newSlot\<close>: the loop makes the slots and links each to the next; the last one is linked to the first and returned. The address of a slot
  is its index.
\<close>
record slot_node =
  node_index :: nat
  node_next :: "nat option"
  node_len :: nat
  node_circulate :: bool

fun link_slots :: "bool \<Rightarrow> nat \<Rightarrow> nat \<Rightarrow> (nat \<Rightarrow> slot_node) \<Rightarrow> nat \<Rightarrow> slot_node" where
  "link_slots c len 0 h = h"
| "link_slots c len (Suc i) h =
     (let h1 = link_slots c len i h;
          h2 = (if i = 0 then h1 else h1(i - 1 := (h1 (i - 1))\<lparr>node_next := Some i\<rparr>))
      in h2(i := \<lparr>node_index = i, node_next = None, node_len = len, node_circulate = c\<rparr>))"

definition newSlot :: "bool \<Rightarrow> nat \<Rightarrow> (nat \<Rightarrow> slot_node) \<Rightarrow> ((nat \<Rightarrow> slot_node) \<times> nat) outcome" where
  "newSlot c len h =
     (if len = 0 then nil_dereference
      else let h1 = link_slots c len len h; s = len - 1
           in Ret (h1(s := (h1 s)\<lparr>node_next := Some 0\<rparr>), s))"

definition slot_next :: "TimingWheel \<Rightarrow> nat \<Rightarrow> nat" where
  "slot_next tw i = (if i + 1 = slen tw then 0 else i + 1)"

definition slot_circulate :: "TimingWheel \<Rightarrow> nat \<Rightarrow> bool" where
  "slot_circulate tw k = (k + 1 = depth tw)"

definition slot_remove :: "nat \<Rightarrow> nat \<Rightarrow> nat \<Rightarrow> TimingWheel \<Rightarrow> TimingWheel" where
  "slot_remove k i v tw = set_values k i (filter (\<lambda>x. x \<noteq> v) (slot_values tw k i)) tw"

definition slot_store :: "nat \<Rightarrow> nat \<Rightarrow> nat \<Rightarrow> TimingWheel \<Rightarrow> TimingWheel" where
  "slot_store k i v tw =
     set_task v ((task_at tw v)\<lparr>slot_of := Some (k, i)\<rparr>)
       (set_values k i (List.insert v (slot_values tw k i)) tw)"

function slot_put :: "nat \<Rightarrow> nat \<Rightarrow> int \<Rightarrow> nat \<Rightarrow> TimingWheel \<Rightarrow> (int \<times> TimingWheel) outcome" where
  "slot_put k i off v tw =
     (if off < 0 then Panic ''offset less the zero''
      else if \<not> slot_circulate tw k \<and> i = slen tw \<and> off > 0 then Ret (off, tw)
      else if off = 0 then Ret (0, slot_store k i v tw)
      else if off \<ge> int (slen tw) then Ret (off - int (slen tw), tw)
      else slot_put k (slot_next tw i) (off - 1) v tw)"
  by pat_completeness auto
termination
  by (relation "measure (\<lambda>(k, i, off, v, tw). nat off)") auto

declare slot_put.simps [simp del]

definition slot_isEmpty :: "nat \<Rightarrow> nat \<Rightarrow> TimingWheel \<Rightarrow> bool" where
  "slot_isEmpty k i tw = (length (slot_values tw k i) = 0)"

definition slot_valueArray :: "nat \<Rightarrow> nat \<Rightarrow> TimingWheel \<Rightarrow> nat list" where
  "slot_valueArray k i tw = slot_values tw k i"

subsection \<open>Tasks\<close>

definition Task_Cancel :: "nat \<Rightarrow> TimingWheel \<Rightarrow> TimingWheel" where
  "Task_Cancel v tw =
     (case slot_of (task_at tw v) of
        None \<Rightarrow> tw
      | Some (k, i) \<Rightarrow>
          let tw1 = slot_remove k i v tw
          in set_task v ((task_at tw1 v)\<lparr>slot_of := None\<rparr>) tw1)"

definition Task_Callback :: "nat \<Rightarrow> nat \<Rightarrow> TimingWheel \<Rightarrow> TimingWheel" where
  "Task_Callback v f tw = set_task v ((task_at tw v)\<lparr>fn := Some f\<rparr>) tw"

definition Task_call :: "nat \<Rightarrow> TimingWheel \<Rightarrow> TimingWheel" where
  "Task_call v tw =
     (case slot_of (task_at tw v) of
        None \<Rightarrow> tw
      | Some _ \<Rightarrow> tw\<lparr>execq := execq tw @ [v]\<rparr>)"

text \<open>The function \<open>call\<close> hands to \<^verbatim>\<open>Executor\<close>.\<close>
definition exec_task :: "nat \<Rightarrow> TimingWheel \<Rightarrow> TimingWheel" where
  "exec_task v tw =
     (let tw1 = Task_Cancel v tw;
          tw2 = (case fn (task_at tw1 v) of
                   None \<Rightarrow> tw1
                 | Some f \<Rightarrow> tw1\<lparr>callbacks := callbacks tw1 @ [f]\<rparr>)
      in tw2\<lparr>fired := fired tw2 @ [v]\<rparr>)"

definition slot_callAndRm :: "nat \<Rightarrow> nat \<Rightarrow> TimingWheel \<Rightarrow> TimingWheel" where
  "slot_callAndRm k i tw =
     (if slot_isEmpty k i tw then tw else foldl (\<lambda>s v. Task_call v s) tw (slot_values tw k i))"

subsection \<open>Wheels\<close>

text \<open>\<^verbatim>\<open>newWheel(buckets, dep, wheels, nil)\<close>; the slot pointer starts at the last slot.\<close>
definition newWheel :: "nat \<Rightarrow> nat \<Rightarrow> nat \<Rightarrow> wheel" where
  "newWheel buckets dep wheels =
     (let sc = int (buckets ^ dep) div int buckets
      in \<lparr>slotCap = sc,
          remain = (if dep = wheels then sc * int buckets else 0),
          cur = buckets - 1\<rparr>)"

text \<open>\<open>wheel_tick k\<close> climbs to the parents.\<close>
function wheel_tick :: "nat \<Rightarrow> TimingWheel \<Rightarrow> TimingWheel" where
  "wheel_tick k tw =
     (if k + 1 < depth tw then
        let w = wheel_at tw k;
            r = remain w - 1;
            w' = w\<lparr>remain := (if r \<le> 0 then slotCap w * int (slen tw) else r)\<rparr>
        in wheel_tick (k + 1) (set_wheel k w' tw)
      else tw)"
  by pat_completeness auto
termination
  by (relation "measure (\<lambda>(k, tw). depth tw - k)") (auto simp: set_wheel_def)

declare wheel_tick.simps [simp del]

definition set_offset :: "nat \<Rightarrow> int \<Rightarrow> TimingWheel \<Rightarrow> TimingWheel" where
  "set_offset v off tw = set_task v ((task_at tw v)\<lparr>offset := off\<rparr>) tw"

definition put_at_cur :: "nat \<Rightarrow> int \<Rightarrow> nat \<Rightarrow> TimingWheel \<Rightarrow> TimingWheel outcome" where
  "put_at_cur k s v tw =
     bind_outcome (slot_put k (cur (wheel_at tw k)) s v tw) (\<lambda>(_, tw'). Ret tw')"

fun wheel_put :: "nat \<Rightarrow> nat \<Rightarrow> TimingWheel \<Rightarrow> TimingWheel outcome" where
  "wheel_put 0 v tw =
     (let s = offset (task_at tw v) div slotCap (wheel_at tw 0)
      in if s = 0 then Ret (Task_call v tw) else put_at_cur 0 s v tw)"
| "wheel_put (Suc k) v tw =
     (let w = wheel_at tw (Suc k);
          s = offset (task_at tw v) div slotCap w
      in if s = 0 then wheel_put k v tw
         else put_at_cur (Suc k) s v
                (set_offset v (offset (task_at tw v)
                   - ((s - 1) * slotCap w + remain (wheel_at tw k) - 1) - 1) tw))"

fun wheel_put2 :: "nat \<Rightarrow> nat \<Rightarrow> TimingWheel \<Rightarrow> TimingWheel outcome" where
  "wheel_put2 0 v tw =
     (let s = offset (task_at tw v) div slotCap (wheel_at tw 0)
      in if s = 0 then bind_outcome (put_at_cur 0 s v tw) (\<lambda>tw. Ret (Task_call v tw))
         else put_at_cur 0 s v tw)"
| "wheel_put2 (Suc k) v tw =
     (let w = wheel_at tw (Suc k);
          off = offset (task_at tw v);
          s = off div slotCap w;
          r = remain (wheel_at tw k)
      in if s = 0 then
           (if r > off then wheel_put2 k v tw
            else put_at_cur (Suc k) 1 v (set_offset v (off - r) tw))
         else
           let off = off - ((s - 1) * slotCap w + r - 1) - 1
           in if off \<ge> slotCap w
              then put_at_cur (Suc k) (s + 1) v (set_offset v (off - slotCap w) tw)
              else put_at_cur (Suc k) s v (set_offset v off tw))"

text \<open>The loop over \<^verbatim>\<open>valueArray\<close> in \<open>move\<close>: remove each task and put it into the child.\<close>
fun hand_down :: "nat \<Rightarrow> nat list \<Rightarrow> TimingWheel \<Rightarrow> TimingWheel outcome" where
  "hand_down k [] tw = Ret tw"
| "hand_down k (v # vs) tw =
     bind_outcome (wheel_put k v (slot_remove (Suc k) (cur (wheel_at tw (Suc k))) v tw))
       (hand_down k vs)"

definition advance :: "nat \<Rightarrow> TimingWheel \<Rightarrow> TimingWheel" where
  "advance k tw =
     set_wheel k ((wheel_at tw k)\<lparr>cur := slot_next tw (cur (wheel_at tw k))\<rparr>) tw"

fun wheel_move :: "nat \<Rightarrow> TimingWheel \<Rightarrow> (bool \<times> TimingWheel) outcome" where
  "wheel_move 0 tw =
     (let tw1 = advance 0 (wheel_tick 0 tw);
          i = cur (wheel_at tw1 0)
      in Ret (i = 0, slot_callAndRm 0 i tw1))"
| "wheel_move (Suc k) tw =
     bind_outcome (hand_down k (slot_valueArray (Suc k) (cur (wheel_at tw (Suc k))) tw) tw) (\<lambda>tw1.
     bind_outcome (wheel_move k tw1) (\<lambda>(moved, tw2).
       if moved then
         let tw3 = advance (Suc k) tw2
         in bind_outcome
              (hand_down k (slot_valueArray (Suc k) (cur (wheel_at tw3 (Suc k))) tw3) tw3) (\<lambda>tw4.
            Ret (cur (wheel_at tw4 (Suc k)) = 0, tw4))
       else Ret (False, tw2)))"

subsection \<open>The ticker\<close>

definition NewTimingWheel :: "int \<Rightarrow> nat \<Rightarrow> nat \<Rightarrow> TimingWheel" where
  "NewTimingWheel intv wheels slots =
     \<lparr>interval = intv,
      maxTimeout = intv * int (wheels ^ slots),
      depth = wheels,
      slen = slots,
      wheel_at = (\<lambda>k. newWheel slots (k + 1) wheels),
      slot_values = (\<lambda>_ _. []),
      task_at = (\<lambda>_. \<lparr>offset = 0, slot_of = None, fn = None\<rparr>),
      next_task = 0, execq = [], fired = [], callbacks = [], quit = False\<rparr>"

text \<open>\<^verbatim>\<open>Duration.Milliseconds()\<close>: truncating division of the nanoseconds.\<close>
definition milliseconds :: "int \<Rightarrow> int" where
  "milliseconds d = sgn d * (\<bar>d\<bar> div 1000000)"

text \<open>\<open>math.Floor(t/i + 1/2)\<close>.\<close>
definition round_ticks :: "int \<Rightarrow> int \<Rightarrow> int" where
  "round_ticks t i = (2 * t + i) div (2 * i)"

text \<open>The task creation at the end of \<open>After\<close>, for an offset in ticks.\<close>
definition add_task :: "int \<Rightarrow> TimingWheel \<Rightarrow> (nat \<times> TimingWheel) outcome" where
  "add_task off tw =
     (let v = next_task tw;
          tw1 = set_task v \<lparr>offset = off, slot_of = None, fn = None\<rparr> (tw\<lparr>next_task := v + 1\<rparr>)
      in bind_outcome (wheel_put2 (depth tw - 1) v tw1) (\<lambda>tw2. Ret (v, tw2)))"

definition After :: "int \<Rightarrow> TimingWheel \<Rightarrow> (nat \<times> TimingWheel) outcome" where
  "After timeout tw =
     (if timeout \<ge> maxTimeout tw
      then Panic (''maxTimeout='' @ show_int (maxTimeout tw) @ '', current='' @ show_int timeout)
      else add_task (round_ticks (milliseconds timeout) (milliseconds (interval tw))) tw)"

text \<open>\<open>Stop\<close> closes the channel that ends \<open>run\<close>; a second call panics.\<close>
definition Stop :: "TimingWheel \<Rightarrow> TimingWheel outcome" where
  "Stop tw = (if quit tw then Panic ''close of closed channel'' else Ret (tw\<lparr>quit := True\<rparr>))"

definition onTicker :: "TimingWheel \<Rightarrow> TimingWheel outcome" where
  "onTicker tw = bind_outcome (wheel_move (depth tw - 1) tw) (\<lambda>(_, tw'). Ret tw')"

text \<open>The goroutines started by \<open>call\<close> run.\<close>
definition run_execq :: "TimingWheel \<Rightarrow> TimingWheel" where
  "run_execq tw = foldl (\<lambda>s v. exec_task v s) (tw\<lparr>execq := []\<rparr>) (execq tw)"

definition tick_and_run :: "TimingWheel \<Rightarrow> TimingWheel outcome" where
  "tick_and_run tw = bind_outcome (onTicker tw) (\<lambda>tw'. Ret (run_execq tw'))"


section \<open>The ring of slots\<close>

lemma link_slots_nth:
  "i < n \<Longrightarrow> link_slots c len n h i =
     \<lparr>node_index = i, node_next = (if i + 1 < n then Some (i + 1) else None), node_len = len, node_circulate = c\<rparr>"
proof (induction n arbitrary: i)
  case (Suc n)
  then show ?case by (cases "i = n") (auto simp: Let_def less_Suc_eq)
qed simp

text \<open>
  The slots that \<^verbatim>\<open>newSlot\<close> links are the ring that \<open>slot_next\<close> walks, and the wheel starts at the last of them; without slots it
  dereferences nil.
\<close>
theorem newSlot_ring:
  "newSlot c 0 h = nil_dereference \<and>
   (0 < slen tw \<longrightarrow>
     (\<exists>h'. newSlot c (slen tw) h = Ret (h', slen tw - 1) \<and>
       (\<forall>i < slen tw. h' i = \<lparr>node_index = i, node_next = Some (slot_next tw i), node_len = slen tw, node_circulate = c\<rparr>)))"
  by (auto simp: newSlot_def Let_def link_slots_nth slot_next_def)

end
