(* ===== verification/Float64.thy ===== *)
theory Float64
  imports TimingWheel Complex_Main "HOL-Library.Log_Nat"
begin

text \<open>
  The floating-point arithmetic of \<^verbatim>\<open>pkg/timingwheel/timingwheel.go\<close>. A \<^verbatim>\<open>float64\<close> is the rational number it stands for, and every operation
  rounds the exact result to the nearest number with 53 significant bits, ties to even; infinities do not arise.

  The quotients the wheel takes the floor of are the integer quotients that the theory \<open>TimingWheel\<close> works with: for every
  duration of 64 bits, and for every offset and capacity below \<^verbatim>\<open>2^53\<close>. \<^verbatim>\<open>TTL\<close> subtracts two times that
  do not fit into 53 bits, and is still within half a millisecond and a bit of the exact time.
\<close>

section \<open>Rounding\<close>

definition round_even :: "rat \<Rightarrow> int" where
  "round_even y =
     (let f = \<lfloor>y\<rfloor>; d = y - of_int f
      in if d < 1 / 2 \<or> d = 1 / 2 \<and> even f then f else f + 1)"

text \<open>The exponent of a positive number.\<close>
definition exponent :: "rat \<Rightarrow> int" where
  "exponent x =
     (case quotient_of x of
        (a, b) \<Rightarrow> let k = bitlen a - bitlen b in if 2 powi k \<le> x then k else k - 1)"

text \<open>The exponent of the last of the 53 bits; below it are the denormalised numbers.\<close>
definition last_bit :: "rat \<Rightarrow> int" where
  "last_bit x = max (exponent \<bar>x\<bar> - 52) (- 1074)"

definition float64 :: "rat \<Rightarrow> rat" where
  "float64 x = (if x = 0 then 0 else of_int (round_even (x / 2 powi last_bit x)) * 2 powi last_bit x)"

lemma round_even_error: "\<bar>of_int (round_even y) - y\<bar> \<le> 1 / 2"
proof -
  have "of_int \<lfloor>y\<rfloor> \<le> y" "y < of_int \<lfloor>y\<rfloor> + 1" by linarith+
  then show ?thesis by (auto simp: round_even_def Let_def)
qed

lemma round_even_ge: "of_int m \<le> y \<Longrightarrow> m \<le> round_even y"
  by (auto simp: round_even_def Let_def le_floor_iff intro: order_trans [of _ "\<lfloor>y\<rfloor>"])

lemma round_even_le: "y \<le> of_int m \<Longrightarrow> round_even y \<le> m"
proof (cases "y = of_int m")
  case False
  assume "y \<le> of_int m"
  then have "\<lfloor>y\<rfloor> < m" using False by (simp add: floor_less_iff)
  then show ?thesis by (simp add: round_even_def Let_def)
qed (simp add: round_even_def)

lemma bitlen_powi:
  assumes "0 < a"
  shows "2 powi (bitlen a - 1) \<le> (of_int a :: rat)" "(of_int a :: rat) < 2 powi bitlen a"
proof -
  have pos: "0 < bitlen a" using assms by (simp add: bitlen_alt_def)
  have "of_int (2 ^ nat (bitlen a - 1)) \<le> (of_int a :: rat)" "(of_int a :: rat) < of_int (2 ^ nat (bitlen a))"
    using bitlen_bounds [OF assms] by (simp_all only: of_int_le_iff of_int_less_iff)
  then show "2 powi (bitlen a - 1) \<le> (of_int a :: rat)" "(of_int a :: rat) < 2 powi bitlen a"
    using pos by (simp_all add: power_int_def)
qed

lemma exponent_bounds:
  assumes "0 < x"
  shows "2 powi exponent x \<le> x" "x < 2 powi (exponent x + 1)"
proof -
  obtain a b where q: "quotient_of x = (a, b)" by (cases "quotient_of x")
  have x: "x = of_int a / of_int b" and b: "0 < b" using quotient_of_div [OF q] quotient_of_denom_pos [OF q] by simp_all
  have a: "0 < a" using assms x b by (simp add: zero_less_divide_iff)
  let ?k = "bitlen a - bitlen b"
  note A = bitlen_powi [OF a] and B = bitlen_powi [OF b]
  have "2 powi (?k - 1) = 2 powi (bitlen a - 1) / (2 :: rat) powi bitlen b"
    by (simp add: power_int_diff)
  also have "\<dots> \<le> x" unfolding x using A B a b by (intro frac_le) (auto intro: less_imp_le)
  finally have lo: "2 powi (?k - 1) \<le> x" .
  have "x < 2 powi bitlen a / (2 :: rat) powi (bitlen b - 1)" unfolding x using A B a
    by (intro frac_less) auto
  also have "\<dots> = 2 powi (?k + 1)" by (simp add: power_int_diff power_int_add)
  finally have hi: "x < 2 powi (?k + 1)" .
  show "2 powi exponent x \<le> x" "x < 2 powi (exponent x + 1)"
    using lo hi q by (auto simp: exponent_def Let_def)
qed

text \<open>The relative error of a rounding.\<close>
definition tiny :: rat where
  "tiny = 1 / 2 ^ 1075"

lemma float64_error: "\<bar>float64 x - x\<bar> \<le> \<bar>x\<bar> / 2 ^ 53 + tiny"
proof (cases "x = 0")
  case False
  let ?e = "last_bit x"
  have p: "(0 :: rat) < 2 powi ?e" by simp
  have "float64 x - x = (of_int (round_even (x / 2 powi ?e)) - x / 2 powi ?e) * 2 powi ?e"
    using False p by (simp add: float64_def left_diff_distrib)
  then have "\<bar>float64 x - x\<bar> = \<bar>of_int (round_even (x / 2 powi ?e)) - x / 2 powi ?e\<bar> * 2 powi ?e"
    by (simp add: abs_mult)
  also have "\<dots> \<le> 1 / 2 * 2 powi ?e" by (rule mult_right_mono [OF round_even_error]) simp
  also have "\<dots> \<le> \<bar>x\<bar> / 2 ^ 53 + tiny"
  proof (cases "?e = - 1074")
    case True
    then show ?thesis by (simp add: tiny_def power_int_minus field_simps)
  next
    case F: False
    then have "?e = exponent \<bar>x\<bar> - 52" by (auto simp: last_bit_def)
    then have "1 / 2 * 2 powi ?e = 2 powi exponent \<bar>x\<bar> / (2 :: rat) ^ 53" by (simp add: power_int_diff)
    also have "\<dots> \<le> \<bar>x\<bar> / 2 ^ 53" using exponent_bounds(1) [of "\<bar>x\<bar>"] False by (simp add: divide_right_mono)
    also have "\<dots> \<le> \<bar>x\<bar> / 2 ^ 53 + tiny" by (simp add: tiny_def)
    finally show ?thesis .
  qed
  finally show ?thesis .
qed (simp add: float64_def tiny_def)

text \<open>Rounding does not cross a number with few enough bits.\<close>
lemma float64_grid:
  assumes "- 1074 \<le> p" "\<bar>x\<bar> < 2 ^ 53 * 2 powi p"
  shows "of_int m * 2 powi p \<le> x \<Longrightarrow> of_int m * 2 powi p \<le> float64 x"
    and "x \<le> of_int m * 2 powi p \<Longrightarrow> float64 x \<le> of_int m * 2 powi p"
proof -
  let ?e = "last_bit x" and ?m = "m * 2 ^ nat (p - last_bit x)"
  have e: "?e \<le> p" if "x \<noteq> 0"
  proof -
    have "(2 :: rat) powi exponent \<bar>x\<bar> < 2 powi (53 + p)"
      using exponent_bounds(1) [of "\<bar>x\<bar>"] that assms(2) by (simp add: power_int_add)
    then have "\<not> 53 + p \<le> exponent \<bar>x\<bar>" using power_int_increasing [of "53 + p" "exponent \<bar>x\<bar>" "2 :: rat"] by auto
    then show ?thesis using assms(1) by (simp add: last_bit_def)
  qed
  have m: "of_int ?m * 2 powi ?e = (of_int m * 2 powi p :: rat)" if "x \<noteq> 0"
  proof -
    have "(2 :: rat) ^ nat (p - ?e) = 2 powi (p - ?e)" using e [OF that] by (simp add: power_int_def)
    then show ?thesis by (simp add: power_int_diff)
  qed
  have pos: "(0 :: rat) < 2 powi ?e" by simp
  show "of_int m * 2 powi p \<le> float64 x" if le: "of_int m * 2 powi p \<le> x"
  proof (cases "x = 0")
    case False
    have "of_int ?m \<le> x / 2 powi ?e" using m [OF False] le by (simp only: pos_le_divide_eq [OF pos])
    then have "?m \<le> round_even (x / 2 powi ?e)" by (rule round_even_ge)
    then have "of_int ?m * 2 powi ?e \<le> (of_int (round_even (x / 2 powi ?e)) * 2 powi ?e :: rat)"
      by (intro mult_right_mono) (simp_all only: of_int_le_iff zero_le_power_int zero_le_numeral)
    then show ?thesis unfolding m [OF False] using False by (simp add: float64_def)
  qed (use le in \<open>simp add: float64_def\<close>)
  show "float64 x \<le> of_int m * 2 powi p" if le: "x \<le> of_int m * 2 powi p"
  proof (cases "x = 0")
    case False
    have "x / 2 powi ?e \<le> of_int ?m" using m [OF False] le by (simp only: pos_divide_le_eq [OF pos])
    then have "round_even (x / 2 powi ?e) \<le> ?m" by (rule round_even_le)
    then have "(of_int (round_even (x / 2 powi ?e)) * 2 powi ?e :: rat) \<le> of_int ?m * 2 powi ?e"
      by (intro mult_right_mono) (simp_all only: of_int_le_iff zero_le_power_int zero_le_numeral)
    then show ?thesis unfolding m [OF False] using False by (simp add: float64_def)
  qed (use le in \<open>simp add: float64_def\<close>)
qed

lemma float64_int: "\<bar>n\<bar> < 2 ^ 53 \<Longrightarrow> float64 (of_int n) = of_int n"
proof -
  assume "\<bar>n\<bar> < 2 ^ 53"
  then have "\<bar>of_int n :: rat\<bar> < 2 ^ 53 * 2 powi 0" by (simp flip: of_int_abs)
  from float64_grid [OF _ this, of n] show ?thesis by simp
qed


section \<open>The arithmetic of the wheel\<close>

text \<open>\<^verbatim>\<open>math.Floor(float64(a) / float64(b))\<close>, as \<open>put\<close> and \<open>put2\<close> compute the slot.\<close>
definition floor_quotient :: "int \<Rightarrow> int \<Rightarrow> int" where
  "floor_quotient a b = \<lfloor>float64 (float64 (of_int a) / float64 (of_int b))\<rfloor>"

text \<open>\<^verbatim>\<open>math.Floor(float64(t) / float64(i) + 1.0/2.0)\<close>, as \<open>After\<close> computes the offset.\<close>
definition rounded_quotient :: "int \<Rightarrow> int \<Rightarrow> int" where
  "rounded_quotient t i = \<lfloor>float64 (float64 (float64 (of_int t) / float64 (of_int i)) + 1 / 2)\<rfloor>"

text \<open>\<open>now\<close> and the time \<open>due\<close> of the task are \<^verbatim>\<open>UnixNano\<close>.\<close>
definition Task_TTL :: "int \<Rightarrow> int \<Rightarrow> int" where
  "Task_TTL now due =
     (let n = float64 (of_int now); a = float64 (of_int due)
      in \<lfloor>float64 (float64 (float64 (a - n) / float64 1000000) + 1 / 2)\<rfloor>)"

lemma tiny_small: "0 < tiny" "tiny < 1 / 2 ^ 200"
proof -
  have "(2 :: rat) ^ 200 < 2 ^ 1075" by (rule power_strict_increasing) simp_all
  then show "tiny < 1 / 2 ^ 200" unfolding tiny_def by (intro divide_strict_left_mono) simp_all
qed (simp add: tiny_def)

lemma quotient_below:
  fixes a b :: int
  assumes "0 < b"
  shows "of_int a / of_int b \<le> (of_int (a div b) + 1 - 1 / of_int b :: rat)"
proof -
  have "a \<le> (a div b) * b + b - 1" using assms pos_mod_bound [of b a] by (simp add: minus_mod_eq_div_mult [symmetric])
  then have "of_int a \<le> (of_int ((a div b) * b + b - 1) :: rat)" by (simp only: of_int_le_iff)
  then show ?thesis using assms by (simp add: field_simps)
qed

lemma quotient_above: "0 < b \<Longrightarrow> of_int (a div b) \<le> (of_int a / of_int b :: rat)"
proof -
  assume b: "0 < b"
  have "(a div b) * b \<le> a" using b by (simp add: minus_mod_eq_div_mult [symmetric])
  then have "of_int ((a div b) * b) \<le> (of_int a :: rat)" by (simp only: of_int_le_iff)
  then show ?thesis using b by (simp add: pos_le_divide_eq)
qed

lemma abs_quotient_less: "\<bar>a\<bar> < n \<Longrightarrow> 0 < b \<Longrightarrow> \<bar>of_int a / of_int b :: rat\<bar> < of_int n / of_int b"
  by (simp add: abs_divide divide_strict_right_mono flip: of_int_abs)

lemma floor_quotient_exact:
  assumes "\<bar>a\<bar> < 2 ^ 53" "0 < b" "b < 2 ^ 53"
  shows "floor_quotient a b = a div b"
proof -
  let ?x = "of_int a / of_int b :: rat"
  have b: "(1 :: rat) \<le> of_int b" using assms(2) by simp
  have ax: "\<bar>?x\<bar> \<le> (2 ^ 53 - 1) / of_int b"
  proof -
    have "\<bar>a\<bar> \<le> 2 ^ 53 - 1" using assms(1) by simp
    then have "of_int \<bar>a\<bar> \<le> (of_int (2 ^ 53 - 1) :: rat)" by (simp only: of_int_le_iff)
    then show ?thesis using assms(2) by (simp add: abs_divide divide_right_mono)
  qed
  moreover have "(2 ^ 53 - 1) / of_int b \<le> (2 ^ 53 - 1 :: rat)" using b by (simp add: divide_le_eq)
  ultimately have "\<bar>?x\<bar> < 2 ^ 53 * 2 powi 0" by simp
  then have lo: "of_int (a div b) \<le> float64 ?x"
    using float64_grid(1) [of 0 ?x "a div b"] quotient_above [OF assms(2)] by simp
  have "\<bar>?x\<bar> / 2 ^ 53 + tiny < 1 / of_int b"
  proof -
    have "\<bar>?x\<bar> / 2 ^ 53 \<le> (2 ^ 53 - 1) / of_int b / 2 ^ 53" by (rule divide_right_mono [OF ax]) simp
    moreover have "(2 ^ 53 - 1) / of_int b / 2 ^ 53 = 1 / of_int b - 1 / (of_int b * 2 ^ 53 :: rat)"
      using b by (simp add: field_simps)
    moreover have "tiny < 1 / (of_int b * 2 ^ 53)"
    proof -
      have "of_int b < (2 ^ 53 :: rat)" using assms(3) by (metis of_int_less_iff of_int_numeral of_int_power)
      then have "1 / 2 ^ 200 < 1 / (of_int b * 2 ^ 53 :: rat)" using b by (intro divide_strict_left_mono) auto
      then show ?thesis using tiny_small(2) by simp
    qed
    ultimately show ?thesis by linarith
  qed
  then have "float64 ?x < of_int (a div b) + 1"
    using float64_error [of ?x] quotient_below [OF assms(2), of a] by linarith
  moreover have "floor_quotient a b = \<lfloor>float64 ?x\<rfloor>"
    using assms by (simp add: floor_quotient_def float64_int)
  ultimately show ?thesis using lo by (simp add: floor_eq_iff)
qed


lemma float64_error_le: "\<bar>x\<bar> \<le> b \<Longrightarrow> \<bar>float64 x - x\<bar> \<le> b / 9007199254740992 + tiny"
  using order_trans [OF float64_error [of x]] by (simp add: divide_right_mono)

lemma rounded_quotient_exact:
  assumes "\<bar>t\<bar> < 2 ^ 50" "0 < i" "i < 2 ^ 50"
  shows "rounded_quotient t i = round_ticks t i"
proof -
  define x where "x = (of_int t / of_int i :: rat)"
  let ?y = "float64 x + 1 / 2"
  define n where "n = (2 * t + i) div (2 * i)"
  define r where "r = 1 / (of_int i :: rat)"
  have i: "(1 :: rat) \<le> of_int i" "of_int i < (2 ^ 50 :: rat)"
    using assms(2,3) by (simp, metis of_int_less_iff of_int_numeral of_int_power)
  have r: "0 < r" "r \<le> 1" "1 < 1125899906842624 * r" using i by (simp_all add: r_def divide_le_eq less_divide_eq)
  have tiny: "0 < tiny" "tiny < 1 / 1152921504606846976 * r"
  proof -
    have "1 / 2 ^ 200 < 1 / 1152921504606846976 * r" using r(3) by simp
    then show "tiny < 1 / 1152921504606846976 * r" using tiny_small(2) by simp
  qed (rule tiny_small)
  have ax: "\<bar>x\<bar> \<le> 1125899906842624 * r"
    using abs_quotient_less [OF assms(1,2)] by (simp add: r_def x_def)
  have s: "of_int (2 * t + i) / of_int (2 * i) = x + 1 / 2" "1 / of_int (2 * i) = 1 / 2 * r"
    using assms(2) by (simp_all add: field_simps r_def x_def)
  have g: "of_int (2 * n - 1) * 2 powi (- 1) = (of_int n - 1 / 2 :: rat)" by (simp add: power_int_minus field_simps)
  have half: "of_int (2 * n - 1) * 2 powi (- 1) \<le> x" and below: "x + 1 / 2 \<le> of_int n + 1 - 1 / 2 * r"
    using quotient_above [of "2 * i" "2 * t + i"] quotient_below [of "2 * i" "2 * t + i"] assms(2) s g
    unfolding n_def [symmetric] by linarith+
  have x50: "\<bar>x\<bar> \<le> 2 ^ 50" by (rule order_trans [OF ax]) (use r(2) in simp)
  have "of_int (2 * n - 1) * 2 powi (- 1) \<le> float64 x"
    by (rule float64_grid(1) [OF _ _ half]) (use x50 in \<open>simp_all add: power_int_minus\<close>)
  then have ny: "of_int n \<le> ?y" using g by linarith
  have e1: "\<bar>float64 x - x\<bar> \<le> 1 / 8 * r + tiny" using float64_error_le [OF ax] by simp
  then have ay: "\<bar>?y\<bar> \<le> 2251799813685248 * r" using ax r tiny by linarith
  have e2: "\<bar>float64 ?y - ?y\<bar> \<le> 1 / 4 * r + tiny" using float64_error_le [OF ay] by simp
  have "\<bar>?y\<bar> < 2 ^ 53 * 2 powi 0" using ay r(2) by simp
  then have lo: "of_int n \<le> float64 ?y" using float64_grid(1) [of 0 ?y n] ny by simp
  have hi: "float64 ?y < of_int n + 1" using below e1 e2 tiny by linarith
  have "rounded_quotient t i = \<lfloor>float64 ?y\<rfloor>"
    using assms by (simp add: rounded_quotient_def float64_int x_def)
  then show ?thesis using lo hi by (simp add: round_ticks_def floor_eq_iff flip: n_def)
qed

lemma TTL_close:
  assumes "\<bar>now\<bar> \<le> 2 ^ 63" "\<bar>due\<bar> \<le> 2 ^ 63"
  shows "\<bar>of_int (Task_TTL now due) - of_int (due - now) / 1000000\<bar> \<le> (1 / 2 + 1 / 100 :: rat)"
proof -
  define n a where "n = float64 (of_int now)" and "a = float64 (of_int due)"
  define d q s where "d = float64 (a - n)" and "q = float64 (d / 1000000)" and "s = float64 (q + 1 / 2)"
  have b: "\<bar>of_int now :: rat\<bar> \<le> 2 ^ 63" "\<bar>of_int due :: rat\<bar> \<le> 2 ^ 63"
    using assms by (metis of_int_abs of_int_le_iff of_int_numeral of_int_power)+
  have tiny: "0 < tiny" "tiny < 1 / 1152921504606846976" using tiny_small by (simp_all add: less_trans)
  have e1: "\<bar>n - of_int now\<bar> \<le> 1025" "\<bar>a - of_int due\<bar> \<le> 1025"
    using float64_error_le [OF b(1)] float64_error_le [OF b(2)] tiny by (simp_all add: n_def a_def)
  then have "\<bar>a - n\<bar> \<le> 18446744073709553666" using b by simp
  from float64_error_le [OF this] have e2: "\<bar>d - (a - n)\<bar> \<le> 2050" using tiny unfolding d_def by simp
  then have "\<bar>d / 1000000\<bar> \<le> 18446744073710" using \<open>\<bar>a - n\<bar> \<le> 18446744073709553666\<close> by linarith
  from float64_error_le [OF this] have e3: "\<bar>q - d / 1000000\<bar> \<le> 1 / 400" using tiny unfolding q_def by simp
  then have "\<bar>q + 1 / 2\<bar> \<le> 18446744073711" using \<open>\<bar>d / 1000000\<bar> \<le> 18446744073710\<close> by linarith
  from float64_error_le [OF this] have e4: "\<bar>s - (q + 1 / 2)\<bar> \<le> 1 / 400" using tiny unfolding s_def by simp
  have "float64 1000000 = 1000000" using float64_int [of 1000000] by simp
  then have "Task_TTL now due = \<lfloor>s\<rfloor>" by (simp add: Task_TTL_def s_def q_def d_def n_def a_def)
  have "\<bar>d - (of_int due - of_int now)\<bar> \<le> 4100" using e1 e2 by linarith
  then have "\<bar>d / 1000000 - (of_int due - of_int now) / 1000000\<bar> \<le> 41 / 10000"
    by (simp add: abs_divide flip: diff_divide_distrib)
  then have "\<bar>s - ((of_int due - of_int now) / 1000000 + 1 / 2)\<bar> \<le> 1 / 100" using e3 e4 by linarith
  moreover have "of_int \<lfloor>s\<rfloor> \<le> s" "s < of_int \<lfloor>s\<rfloor> + 1" by linarith+
  ultimately have "\<bar>of_int \<lfloor>s\<rfloor> - (of_int due - of_int now) / 1000000\<bar> \<le> (1 / 2 + 1 / 100 :: rat)" by linarith
  then show ?thesis using \<open>Task_TTL now due = \<lfloor>s\<rfloor>\<close> by simp
qed

section \<open>Durations\<close>

lemma milliseconds_bound: "\<bar>d\<bar> \<le> 2 ^ 63 \<Longrightarrow> \<bar>milliseconds d\<bar> < 2 ^ 50"
proof -
  assume "\<bar>d\<bar> \<le> 2 ^ 63"
  then have "\<bar>d\<bar> div 1000000 \<le> 2 ^ 63 div 1000000" by (rule zdiv_mono1) simp
  then show ?thesis by (simp add: milliseconds_def abs_mult abs_sgn_eq split: if_splits)
qed

text \<open>
  C40: the floating-point arithmetic of the timing wheel is as good as exact. For every timeout and every interval of at least a millisecond that
  fit into 64 bits, \<open>After\<close> computes the number of ticks rounded to the nearest integer, a half upwards. The slot that \<open>put\<close> and \<open>put2\<close> compute is the integer
  quotient for every offset and capacity below \<^verbatim>\<open>2^53\<close>. \<^verbatim>\<open>TTL\<close>, whose operands lose their last bits, is at most half a millisecond
  and ten microseconds away from the time that is left, for any two times of 64 bits.
\<close>
theorem wheel_arithmetic:
  assumes t: "\<bar>timeout\<bar> \<le> 2 ^ 63" "intv \<le> 2 ^ 63" "1000000 \<le> intv"
    and q: "\<bar>off\<bar> < 2 ^ 53" "0 < capacity" "capacity < 2 ^ 53"
    and n: "\<bar>now\<bar> \<le> 2 ^ 63" "\<bar>due\<bar> \<le> 2 ^ 63"
  shows "rounded_quotient (milliseconds timeout) (milliseconds intv) = round_ticks (milliseconds timeout) (milliseconds intv) \<and>
    floor_quotient off capacity = off div capacity \<and>
    \<bar>of_int (Task_TTL now due) - of_int (due - now) / 1000000\<bar> \<le> (1 / 2 + 1 / 100 :: rat)"
proof -
  have "0 < milliseconds intv" "\<bar>intv\<bar> \<le> 2 ^ 63" using t by (simp_all add: milliseconds_def pos_imp_zdiv_pos_iff)
  then show ?thesis
    using rounded_quotient_exact floor_quotient_exact [OF q] TTL_close [OF n] milliseconds_bound [OF t(1)] milliseconds_bound [of intv]
    by simp
qed

text \<open>The heartbeat of twenty seconds on the wheel of the clients, and a task due in 20 seconds.\<close>
theorem wheel_arithmetic_witness:
  "rounded_quotient (milliseconds 20000000000) (milliseconds 500000000) = 40 \<and> floor_quotient 7999 400 = 19 \<and>
   \<bar>of_int (Task_TTL 1700000000000000001 1700000020000000000) - of_int (1700000020000000000 - 1700000000000000001) / 1000000\<bar> \<le> (51 / 100 :: rat)"
proof -
  have "round_ticks (milliseconds 20000000000) (milliseconds 500000000) = 40" by code_simp
  then show ?thesis
    using wheel_arithmetic [of 20000000000 500000000 7999 400 1700000000000000001 1700000020000000000] by simp
qed

end
