(* ===== verification/MurmurHash.thy ===== *)
theory MurmurHash
  imports Prelude
begin

unbundle bit_operations_syntax

text \<open>
  The 32-bit hash of \<^verbatim>\<open>pkg/hash/hash.go\<close> (\<open>Hash\<close>, MurmurHash3) and the hex digest \<open>SHA1\<close>.

  The source reads four bytes at a time through an unsafe pointer; the model reads them in
  little-endian order, the byte order of the platforms Go's \<^verbatim>\<open>amd64\<close> and \<^verbatim>\<open>arm64\<close> ports run on.
  All arithmetic is on \<open>32 word\<close> and wraps as in Go. The SHA-1 compression function is a
  parameter.

  The lemmas show that every mixing step is a bijection of the 32-bit words, so that keys of
  four bytes never collide, and check the value of the repository's own test.
\<close>

section \<open>Definitions\<close>

definition c1_32 :: u32 where "c1_32 = 0xcc9e2d51"
definition c2_32 :: u32 where "c2_32 = 0x1b873593"

definition SHA1 :: "(bytes \<Rightarrow> bytes) \<Rightarrow> string \<Rightarrow> string" where
  "SHA1 sha1 str = hex_encode (sha1 (bytes_of_string str))"

definition RotateLeft32 :: "u32 \<Rightarrow> nat \<Rightarrow> u32" where
  "RotateLeft32 x k = word_rotl k x"

text \<open>\<^verbatim>\<open>*(*uint32)(unsafe.Pointer(p))\<close>.\<close>
definition load32 :: "byte \<Rightarrow> byte \<Rightarrow> byte \<Rightarrow> byte \<Rightarrow> u32" where
  "load32 b0 b1 b2 b3 =
     ucast b0 OR push_bit 8 (ucast b1) OR push_bit 16 (ucast b2) OR push_bit 24 (ucast b3)"

definition mix_k1 :: "u32 \<Rightarrow> u32" where
  "mix_k1 k1 = RotateLeft32 (k1 * c1_32) 15 * c2_32"

definition mix_h1 :: "u32 \<Rightarrow> u32 \<Rightarrow> u32" where
  "mix_h1 h1 k1 =
     (let h1 = h1 XOR mix_k1 k1;
          h1 = RotateLeft32 h1 13
      in h1 * 4 + h1 + 0xe6546b64)"

text \<open>The loop over the blocks: the hash so far and the tail of fewer than four bytes.\<close>
fun hash_blocks :: "u32 \<Rightarrow> bytes \<Rightarrow> u32 \<times> bytes" where
  "hash_blocks h1 (b0 # b1 # b2 # b3 # rest) = hash_blocks (mix_h1 h1 (load32 b0 b1 b2 b3)) rest"
| "hash_blocks h1 tail = (h1, tail)"

text \<open>The \<^verbatim>\<open>switch\<close> on the length of the tail.\<close>
fun hash_tail :: "u32 \<Rightarrow> bytes \<Rightarrow> u32" where
  "hash_tail h1 [t0, t1, t2] =
     h1 XOR mix_k1 (((0 XOR push_bit 16 (ucast t2)) XOR push_bit 8 (ucast t1)) XOR ucast t0)"
| "hash_tail h1 [t0, t1] = h1 XOR mix_k1 ((0 XOR push_bit 8 (ucast t1)) XOR ucast t0)"
| "hash_tail h1 [t0] = h1 XOR mix_k1 (0 XOR ucast t0)"
| "hash_tail h1 tail = h1"

definition fmix32 :: "u32 \<Rightarrow> u32" where
  "fmix32 h =
     (let h1 = h XOR drop_bit 16 h;
          h1 = h1 * 0x85ebca6b;
          h1 = h1 XOR drop_bit 13 h1;
          h1 = h1 * 0xc2b2ae35
      in h1 XOR drop_bit 16 h1)"

definition Hash :: "bytes \<Rightarrow> u32 \<Rightarrow> u32" where
  "Hash data seed =
     (let (h1, tail) = hash_blocks seed data;
          h1 = hash_tail h1 tail;
          h1 = h1 XOR of_nat (length data)
      in fmix32 h1)"


section \<open>Lemmas\<close>

lemma hash_blocks_tail:
  "snd (hash_blocks h1 data) = drop (4 * (length data div 4)) data"
proof (induction h1 data rule: hash_blocks.induct)
  case (1 h1 b0 b1 b2 b3 rest)
  have "4 * ((4 + length rest) div 4) = Suc (Suc (Suc (Suc (4 * (length rest div 4)))))" by arith
  with 1 show ?case by simp
qed simp_all

lemma xor_shift16_inv: "(x XOR drop_bit 16 x) XOR drop_bit 16 (x XOR drop_bit 16 x) = (x :: u32)"
proof -
  have "drop_bit 16 (drop_bit 16 x) = 0"
    by (rule bit_word_eqI) (simp add: bit_drop_bit_eq)
  then show ?thesis by (simp only: drop_bit_xor) (simp add: xor.assoc)
qed

lemma xor_shift13_inv:
  "(let y = x XOR drop_bit 13 x in y XOR drop_bit 13 y XOR drop_bit 26 y) = (x :: u32)"
proof -
  have "drop_bit 26 (drop_bit 13 x) = 0"
    by (rule bit_word_eqI) (simp add: bit_drop_bit_eq)
  moreover have "drop_bit 13 (drop_bit 13 x) = drop_bit 26 x"
    by (rule bit_word_eqI) (simp add: bit_drop_bit_eq)
  ultimately show ?thesis
    unfolding Let_def by (simp only: drop_bit_xor) (simp add: xor.assoc xor.left_commute)
qed

lemma mult_odd_inj:
  assumes "c * d = (1 :: u32)" "x * c = y * c" shows "x = y"
proof -
  have "x * c * d = y * c * d" using assms(2) by simp
  then show ?thesis using assms(1) by (simp add: mult.assoc)
qed

lemma fmix32_inj: "fmix32 x = fmix32 y \<Longrightarrow> x = y"
proof -
  have s16: "a = b" if "a XOR drop_bit 16 a = b XOR drop_bit 16 b" for a b :: u32
    using that xor_shift16_inv by metis
  have s13: "a = b" if "a XOR drop_bit 13 a = b XOR drop_bit 13 b" for a b :: u32
    using that xor_shift13_inv by metis
  have m1: "a = b" if "a * 0xc2b2ae35 = b * 0xc2b2ae35" for a b :: u32
    by (rule mult_odd_inj [where d = "0x7ed1b41d", OF _ that]) simp
  have m2: "a = b" if "a * 0x85ebca6b = b * 0x85ebca6b" for a b :: u32
    by (rule mult_odd_inj [where d = "0xa5cb9243", OF _ that]) simp
  show "fmix32 x = fmix32 y \<Longrightarrow> x = y"
    unfolding fmix32_def Let_def by (drule s16, drule m1, drule s13, drule m2, drule s16)
qed

lemma RotateLeft32_inj: "RotateLeft32 x k = RotateLeft32 y k \<Longrightarrow> x = y"
  unfolding RotateLeft32_def by (metis word_rot_lr)


lemma mix_k1_inj: "mix_k1 x = mix_k1 y \<Longrightarrow> x = y"
proof -
  have m1: "a = b" if "a * c2_32 = b * c2_32" for a b :: u32
    by (rule mult_odd_inj [where d = "0x56ed309b", OF _ that]) (simp add: c2_32_def)
  have m2: "a = b" if "a * c1_32 = b * c1_32" for a b :: u32
    by (rule mult_odd_inj [where d = "0xdee13bb1", OF _ that]) (simp add: c1_32_def)
  show "mix_k1 x = mix_k1 y \<Longrightarrow> x = y"
    unfolding mix_k1_def by (drule m1, drule RotateLeft32_inj, drule m2)
qed

lemma xor_left_inj: "a XOR x = a XOR y \<Longrightarrow> x = (y :: u32)"
  by (metis xor.assoc xor.left_neutral xor_self_eq)

lemma mix_h1_inj: "mix_h1 h x = mix_h1 h y \<Longrightarrow> x = y"
proof -
  have m5: "a = b" if "a * 4 + a + 0xe6546b64 = b * 4 + b + (0xe6546b64 :: u32)" for a b :: u32
  proof -
    have "a * 5 = b * 5" using that by (simp add: algebra_simps)
    then show ?thesis by (rule mult_odd_inj [where d = "0xcccccccd", rotated]) simp
  qed
  show "mix_h1 h x = mix_h1 h y \<Longrightarrow> x = y"
    unfolding mix_h1_def Let_def
    by (drule m5, drule RotateLeft32_inj, drule xor_left_inj, drule mix_k1_inj)
qed

lemma load32_byte:
  "(ucast (load32 b0 b1 b2 b3) :: byte) = b0"
  "(ucast (drop_bit 8 (load32 b0 b1 b2 b3)) :: byte) = b1"
  "(ucast (drop_bit 16 (load32 b0 b1 b2 b3)) :: byte) = b2"
  "(ucast (drop_bit 24 (load32 b0 b1 b2 b3)) :: byte) = b3"
  unfolding load32_def
  by (rule bit_word_eqI; auto simp: bit_simps dest: bit_imp_le_length)+

lemma load32_inj:
  "load32 a0 a1 a2 a3 = load32 b0 b1 b2 b3 \<Longrightarrow> [a0, a1, a2, a3] = [b0, b1, b2, b3]"
  using load32_byte by (metis (no_types))


section \<open>Properties\<close>

text \<open>
  Two different keys of four bytes have different hashes, for every seed: the block mixing
  and the finaliser are bijections of the 32-bit words.
\<close>
theorem Hash_injective_4:
  assumes "length a = 4" "length b = 4" "Hash a seed = Hash b seed"
  shows "a = b"
proof -
  obtain a0 a1 a2 a3 where a: "a = [a0, a1, a2, a3]"
    using assms(1) by (auto simp: eval_nat_numeral length_Suc_conv)
  obtain b0 b1 b2 b3 where b: "b = [b0, b1, b2, b3]"
    using assms(2) by (auto simp: eval_nat_numeral length_Suc_conv)
  have "mix_h1 seed (load32 a0 a1 a2 a3) XOR 4 = mix_h1 seed (load32 b0 b1 b2 b3) XOR 4"
    using fmix32_inj assms(3) by (simp add: Hash_def a b)
  then have "mix_h1 seed (load32 a0 a1 a2 a3) = mix_h1 seed (load32 b0 b1 b2 b3)"
    by (metis xor.commute xor_left_inj)
  then show ?thesis unfolding a b by (rule load32_inj [OF mix_h1_inj])
qed

theorem Hash_injective_4_witness:
  "Hash (bytes_of_string ''ABCD'') 1 = 3027734286 \<and>
   Hash (bytes_of_string ''ABCD'') 1 \<noteq> Hash (bytes_of_string ''ABCE'') 1"
proof -
  have "Hash (bytes_of_string ''ABCD'') 1 = 3027734286" by code_simp
  moreover have "bytes_of_string ''ABCD'' \<noteq> bytes_of_string ''ABCE''" by code_simp
  ultimately show ?thesis
    using Hash_injective_4 [of "bytes_of_string ''ABCD''" "bytes_of_string ''ABCE''" 1] by auto
qed

end
