(* ===== verification/ConsistentHash.thy ===== *)
theory ConsistentHash
  imports MurmurHash "HOL-Library.Multiset"
begin

text \<open>
  The consistent hash ring of \<^verbatim>\<open>pkg/hash/consisten_hash.go\<close>.

  A ring is a slice of nodes sorted by hash, and a map from the identifier of a real node to the
  node and its virtual nodes. \<open>findIndex\<close> is the source's binary search, written as its loop.
  The mutex is not modelled: every operation is one atomic step.

  The interface locale \<open>upper_index\<close> states what the ring needs of the search; it is interpreted
  by \<open>findIndex\<close>. The lemmas show that the search is an upper bound, that the ring stays sorted,
  that adding a node moves keys to that node only, and that removing it restores the ring.
\<close>

section \<open>Definitions\<close>

datatype Node = Node (Val: string) (hash: u32) (virtual: bool) (real: "Node option")

record Nodes =
  nd :: Node
  virtuals :: "Node list"
  hit :: int

record ConsistentHash =
  ch_nodes :: "Node list"
  ch_nodeMap :: "string \<rightharpoonup> Nodes"
  ch_virtual :: int

definition duplicateVirtual :: int where "duplicateVirtual = 100"
definition seed :: u32 where "seed = 0xabcd1234"

definition errNodeExist :: string where "errNodeExist = ''node already exist''"

definition appendVirtual :: "Nodes \<Rightarrow> Node \<Rightarrow> Nodes" where
  "appendVirtual n node = n\<lparr>virtuals := virtuals n @ [node]\<rparr>"

definition NewConsistentHash2 :: "int \<Rightarrow> ConsistentHash" where
  "NewConsistentHash2 v = \<lparr>ch_nodes = [], ch_nodeMap = Map.empty, ch_virtual = v\<rparr>"

definition NewConsistentHash :: ConsistentHash where
  "NewConsistentHash = NewConsistentHash2 duplicateVirtual"

text \<open>The loop of \<open>findIndex\<close> (\<^verbatim>\<open>goto LOOP\<close>).\<close>
function findIndex_loop :: "Node list \<Rightarrow> u32 \<Rightarrow> nat \<Rightarrow> nat \<Rightarrow> bool \<Rightarrow> nat \<times> bool" where
  "findIndex_loop nodes h left right exist =
     (if left < right then
        let middle = (left + right) div 2;
            hash' = hash (nodes ! middle)
        in if hash' < h then findIndex_loop nodes h (middle + 1) right exist
           else if hash' = h then findIndex_loop nodes h (middle + 1) right True
           else findIndex_loop nodes h left middle exist
      else (left, exist))"
  by pat_completeness auto
termination
  by (relation "measure (\<lambda>(nodes, h, left, right, exist). right - left)") auto

declare findIndex_loop.simps [simp del]

definition findIndex :: "Node list \<Rightarrow> u32 \<Rightarrow> nat \<times> bool" where
  "findIndex nodes h = findIndex_loop nodes h 0 (length nodes) False"

definition addNode :: "ConsistentHash \<Rightarrow> Node \<Rightarrow> ConsistentHash" where
  "addNode c n =
     (let (index, _) = findIndex (ch_nodes c) (hash n);
          p1 = take index (ch_nodes c);
          p2 = drop index (ch_nodes c)
      in c\<lparr>ch_nodes := foldl (\<lambda>ns i. ns @ [i]) (p1 @ [n]) p2\<rparr>)"

definition removeIndex :: "ConsistentHash \<Rightarrow> nat \<Rightarrow> ConsistentHash" where
  "removeIndex c index =
     (if int index = int (length (ch_nodes c)) - 1
      then c\<lparr>ch_nodes := take (length (ch_nodes c) - 1) (ch_nodes c)\<rparr>
      else let p2 = drop (index + 1) (ch_nodes c)
           in c\<lparr>ch_nodes := foldl (\<lambda>ns n. ns @ [n]) (take index (ch_nodes c)) p2\<rparr>)"

definition virtualNode :: "Node \<Rightarrow> nat \<Rightarrow> Node" where
  "virtualNode rl i =
     (let vNodeID = Val rl @ ''_#'' @ show_nat i
      in Node vNodeID (Hash (bytes_of_string vNodeID) seed) True (Some rl))"

text \<open>
  The loop of \<open>addVirtual\<close> from index \<open>i\<close> on, with \<open>k\<close> iterations left. The map entry of the
  real node exists, since \<open>Add\<close> has just made it.
\<close>
fun addVirtual_loop :: "ConsistentHash \<Rightarrow> Node \<Rightarrow> nat \<Rightarrow> nat \<Rightarrow> ConsistentHash" where
  "addVirtual_loop c rl i 0 = c"
| "addVirtual_loop c rl i (Suc k) =
     (let vNode = virtualNode rl i;
          c1 = addNode c vNode;
          c2 = c1\<lparr>ch_nodeMap := (ch_nodeMap c1)(Val rl :=
                 map_option (\<lambda>nds. appendVirtual nds vNode) (ch_nodeMap c1 (Val rl)))\<rparr>
      in addVirtual_loop c2 rl (Suc i) k)"

definition addVirtual :: "ConsistentHash \<Rightarrow> Node \<Rightarrow> int \<Rightarrow> ConsistentHash" where
  "addVirtual c rl duplicate = addVirtual_loop c rl 0 (nat duplicate)"

definition Add :: "ConsistentHash \<Rightarrow> string \<Rightarrow> go_error \<times> ConsistentHash" where
  "Add c id' =
     (case ch_nodeMap c id' of
        Some _ \<Rightarrow> (errors_New (''node already exist, id='' @ id'), c)
      | None \<Rightarrow>
          let n = Node id' (Hash (bytes_of_string id') seed) False None;
              c1 = c\<lparr>ch_nodeMap := (ch_nodeMap c)(id' \<mapsto> \<lparr>nd = n, virtuals = [], hit = 0\<rparr>)\<rparr>;
              c2 = addNode c1 n
          in (nil, addVirtual c2 n (ch_virtual c2)))"

text \<open>The loop of \<open>Remove\<close> over the virtual nodes, with its early returns.\<close>
fun Remove_virtuals :: "ConsistentHash \<Rightarrow> Node list \<Rightarrow> go_error \<times> ConsistentHash" where
  "Remove_virtuals c [] = (nil, c)"
| "Remove_virtuals c (vNd # rest) =
     (let (ndIndex, exist) = findIndex (ch_nodes c) (hash vNd)
      in if \<not> exist then (errors_New (''virtual node does not exist, id:'' @ Val vNd), c)
         else let ndIndex = ndIndex - 1
              in if hash (ch_nodes c ! ndIndex) \<noteq> hash vNd
                 then (errors_New (''could not find virtual node, id:'' @ Val vNd), c)
                 else Remove_virtuals (removeIndex c ndIndex) rest)"

definition Remove :: "ConsistentHash \<Rightarrow> string \<Rightarrow> go_error \<times> ConsistentHash" where
  "Remove c id' =
     (case ch_nodeMap c id' of
        None \<Rightarrow> (errors_New (''node does not exist, id:'' @ id'), c)
      | Some nodes \<Rightarrow>
          (case Remove_virtuals c (virtuals nodes) of
             (Some e, c1) \<Rightarrow> (Some e, c1)
           | (None, c1) \<Rightarrow>
               let (index, exist) = findIndex (ch_nodes c1) (hash (nd nodes))
               in if \<not> exist then (errors_New ''real node not fund'', c1)
                  else let c2 = removeIndex c1 (index - 1)
                       in (nil, c2\<lparr>ch_nodeMap := (ch_nodeMap c2)(id' := None)\<rparr>)))"

definition get :: "ConsistentHash \<Rightarrow> nat \<Rightarrow> Node option \<times> go_error" where
  "get c index =
     (if length (ch_nodes c) = 0 then (None, Some errNodeExist)
      else let index = (if index = length (ch_nodes c) then length (ch_nodes c) - 1 else index);
               n = ch_nodes c ! index
           in if virtual n then (real n, nil) else (Some n, nil))"

definition Get :: "ConsistentHash \<Rightarrow> string \<Rightarrow> Node option \<times> go_error" where
  "Get c data =
     (let hash' = Hash (bytes_of_string data) seed;
          (index, _) = findIndex (ch_nodes c) hash'
      in get c index)"


section \<open>The search\<close>

definition sorted_ring :: "Node list \<Rightarrow> bool" where
  "sorted_ring ns = sorted (map hash ns)"

text \<open>The abstract search: the number of nodes whose key is at most \<open>h\<close>, and whether \<open>h\<close> occurs.\<close>

locale upper_index =
  fixes key :: "'n \<Rightarrow> 'k::linorder"
    and find :: "'n list \<Rightarrow> 'k \<Rightarrow> nat \<times> bool"
  assumes find_upper: "sorted (map key ns) \<Longrightarrow>
      find ns h = (length (filter (\<lambda>n. key n \<le> h) ns), h \<in> key ` set ns)"
begin


lemma takeWhile_filter_sorted:
  "sorted (map key ns) \<Longrightarrow> takeWhile (\<lambda>n. key n \<le> h) ns = filter (\<lambda>n. key n \<le> h) ns"
  by (induction ns) (auto intro!: filter_False [symmetric] dest: order.trans)

lemma dropWhile_filter_sorted:
  "sorted (map key ns) \<Longrightarrow> dropWhile (\<lambda>n. key n \<le> h) ns = filter (\<lambda>n. h < key n) ns"
  by (induction ns) (auto simp: not_le intro!: filter_True [symmetric])

lemma find_split:
  assumes "sorted (map key ns)"
  shows "take (fst (find ns h)) ns = filter (\<lambda>n. key n \<le> h) ns"
    "drop (fst (find ns h)) ns = filter (\<lambda>n. h < key n) ns"
proof -
  have k: "fst (find ns h) = length (takeWhile (\<lambda>n. key n \<le> h) ns)"
    by (simp add: find_upper assms takeWhile_filter_sorted)
  show "take (fst (find ns h)) ns = filter (\<lambda>n. key n \<le> h) ns"
    unfolding k by (metis assms takeWhile_eq_take takeWhile_filter_sorted)
  show "drop (fst (find ns h)) ns = filter (\<lambda>n. h < key n) ns"
    unfolding k by (metis assms dropWhile_eq_drop dropWhile_filter_sorted)
qed

lemma insert_at_find:
  assumes "sorted (map key ns)"
  shows "sorted (map key (take (fst (find ns (key n))) ns @ n # drop (fst (find ns (key n))) ns))"
  unfolding find_split [OF assms]
  using assms by (force simp: sorted_append intro: sorted_filter)

lemma find_exists:
  assumes s: "sorted (map key ns)" and ex: "snd (find ns h)"
  obtains x where "ns = take (fst (find ns h) - 1) ns @ x # drop (fst (find ns h)) ns"
    "key x = h" "0 < fst (find ns h)" "fst (find ns h) \<le> length ns"
    "ns ! (fst (find ns h) - 1) = x"
proof -
  let ?k = "fst (find ns h)" and ?f = "filter (\<lambda>n. key n \<le> h) ns"
  obtain y where y: "y \<in> set ns" "key y = h"
    using ex by (auto simp: find_upper [OF s])
  then have yf: "y \<in> set ?f" by simp
  then have ne: "?f \<noteq> []" by force
  have k: "?k = length ?f" by (simp add: find_upper [OF s])
  have f: "?f = butlast ?f @ [last ?f]" using ne by simp
  have "sorted (map key (butlast ?f @ [last ?f]))"
    using sorted_filter [OF s, of "\<lambda>n. key n \<le> h"] f by simp
  then have "key z \<le> key (last ?f)" if "z \<in> set (butlast ?f)" for z
    using that by (simp add: sorted_append)
  then have "h \<le> key (last ?f)"
    using yf y(2) f by (metis Un_iff empty_iff insert_iff list.set order_refl set_append)
  moreover have "last ?f \<in> set ?f" by (rule last_in_set [OF ne])
  ultimately have last: "key (last ?f) = h" by auto
  have "ns = ?f @ drop ?k ns"
    using append_take_drop_id [of ?k ns] by (simp add: find_split [OF s])
  moreover have "butlast ?f = take (?k - 1) ns"
    unfolding find_split(1) [OF s, of h, symmetric]
    using find_upper [OF s, of h] by (simp add: butlast_take)
  ultimately have ns: "ns = take (?k - 1) ns @ last ?f # drop ?k ns"
    using f by (metis append_Cons append_Nil append_assoc)
  have "0 < ?k" "?k \<le> length ns" using ne by (simp_all add: k)
  moreover have "ns ! (?k - 1) = last ?f"
    by (subst ns) (use \<open>?k \<le> length ns\<close> in \<open>simp add: nth_append\<close>)
  ultimately show ?thesis using that ns last by blast
qed

lemma remove_at_find:
  assumes "sorted (map key ns)" "distinct (map key ns)" "snd (find ns h)"
  shows "take (fst (find ns h) - 1) ns @ drop (fst (find ns h)) ns = filter (\<lambda>n. key n \<noteq> h) ns"
proof -
  let ?k = "fst (find ns h)"
  obtain x where x: "ns = take (?k - 1) ns @ x # drop ?k ns" "key x = h"
    using find_exists [OF assms(1,3)] by metis
  have "distinct (map key (take (?k - 1) ns @ x # drop ?k ns))" using assms(2) x(1) by simp
  then have "\<forall>n \<in> set (take (?k - 1) ns @ drop ?k ns). key n \<noteq> h"
    using x(2) by (simp add: image_iff) fastforce
  then have "filter (\<lambda>n. key n \<noteq> h) (take (?k - 1) ns @ x # drop ?k ns) = take (?k - 1) ns @ drop ?k ns"
    using x(2) by (simp add: filter_id_conv)
  moreover have "filter (\<lambda>n. key n \<noteq> h) ns =
      filter (\<lambda>n. key n \<noteq> h) (take (?k - 1) ns @ x # drop ?k ns)"
    using x(1) by (rule arg_cong)
  ultimately show ?thesis by simp
qed

end

lemma findIndex_loop_spec:
  assumes "sorted_ring ns" "left \<le> right" "right \<le> length ns"
    "\<forall>i < left. hash (ns ! i) \<le> h" "\<forall>i < length ns. right \<le> i \<longrightarrow> h < hash (ns ! i)"
    "ex \<longrightarrow> h \<in> hash ` set ns" "0 < left \<longrightarrow> hash (ns ! (left - 1)) = h \<longrightarrow> ex"
    "findIndex_loop ns h left right ex = (l, e)"
  shows "l \<le> length ns \<and> (\<forall>i < l. hash (ns ! i) \<le> h) \<and>
         (\<forall>i < length ns. l \<le> i \<longrightarrow> h < hash (ns ! i)) \<and>
         (e \<longrightarrow> h \<in> hash ` set ns) \<and> (0 < l \<longrightarrow> hash (ns ! (l - 1)) = h \<longrightarrow> e)"
  using assms
proof (induction ns h left right ex rule: findIndex_loop.induct)
  case (1 ns h left right ex)
  show ?case
  proof (cases "left < right")
    case False
    then have "(left, ex) = (l, e)"
      using "1.prems"(8) by (subst (asm) findIndex_loop.simps) simp
    moreover have "left = right" using False "1.prems"(2) by simp
    ultimately show ?thesis using "1.prems"(3-7) by simp
  next
    case True
    define m where "m = (left + right) div 2"
    have m: "left \<le> m" "m < right" "m < length ns" using True "1.prems"(3) by (auto simp: m_def)
    have mono: "hash (ns ! i) \<le> hash (ns ! j)" if "i \<le> j" "j < length ns" for i j
      using "1.prems"(1) that unfolding sorted_ring_def by (simp add: sorted_iff_nth_mono)
    have le_m: "hash (ns ! i) \<le> hash (ns ! m)" if "i < m + 1" for i
      using mono [of i m] that m(3) by simp
    have ge_m: "hash (ns ! m) \<le> hash (ns ! i)" if "i < length ns" "m \<le> i" for i
      using mono [of m i] that by simp
    note step = "1.prems"(8) [unfolded findIndex_loop.simps [of ns h left right ex] if_P [OF True]
        Let_def, folded m_def]
    note IH = "1.IH" [OF True m_def refl]
    consider "hash (ns ! m) < h" | "hash (ns ! m) = h" | "h < hash (ns ! m)" by fastforce
    then show ?thesis
    proof cases
      case a: 1
      have "\<forall>i < m + 1. hash (ns ! i) \<le> h" using order.trans [OF le_m less_imp_le [OF a]] by blast
      with a step "1.prems" m show ?thesis by (intro IH(1)) auto
    next
      case a: 2
      have "\<forall>i < m + 1. hash (ns ! i) \<le> h" using le_m a by blast
      moreover have "h \<in> hash ` set ns" using a m(3) by auto
      ultimately show ?thesis using a step "1.prems" m by (intro IH(2)) auto
    next
      case a: 3
      then have a': "\<not> hash (ns ! m) < h" "hash (ns ! m) \<noteq> h" by auto
      have "\<forall>i < length ns. m \<le> i \<longrightarrow> h < hash (ns ! i)"
        using less_le_trans [OF a ge_m] by blast
      with a' step "1.prems" m show ?thesis by (intro IH(3)) auto
    qed
  qed
qed

lemma length_filter_prefix:
  assumes "l \<le> length ns" "\<forall>i < l. P (ns ! i)" "\<forall>i < length ns. l \<le> i \<longrightarrow> \<not> P (ns ! i)"
  shows "length (filter P ns) = l"
proof -
  have "filter P (take l ns) = take l ns" 
    using assms(1,2) by (auto simp: filter_id_conv in_set_conv_nth)
  moreover have "filter P (drop l ns) = []"
    using assms(1,3) by (auto simp: in_set_conv_nth filter_empty_conv)
  ultimately have "length (filter P (take l ns @ drop l ns)) = l"
    using assms(1) by (simp only: filter_append) simp
  then show ?thesis by simp
qed

lemma findIndex_upper:
  assumes "sorted_ring ns"
  shows "findIndex ns h = (length (filter (\<lambda>n. hash n \<le> h) ns), h \<in> hash ` set ns)"
proof -
  obtain l e where le: "findIndex_loop ns h 0 (length ns) False = (l, e)" by fastforce
  have "l \<le> length ns \<and> (\<forall>i < l. hash (ns ! i) \<le> h) \<and>
         (\<forall>i < length ns. l \<le> i \<longrightarrow> h < hash (ns ! i)) \<and>
         (e \<longrightarrow> h \<in> hash ` set ns) \<and> (0 < l \<longrightarrow> hash (ns ! (l - 1)) = h \<longrightarrow> e)"
    by (rule findIndex_loop_spec [OF assms _ _ _ _ _ _ le]) auto
  then have sp: "l \<le> length ns" "\<forall>i < l. hash (ns ! i) \<le> h"
    "\<forall>i < length ns. l \<le> i \<longrightarrow> h < hash (ns ! i)"
    "e \<longrightarrow> h \<in> hash ` set ns" "0 < l \<longrightarrow> hash (ns ! (l - 1)) = h \<longrightarrow> e"
    by blast+
  have "length (filter (\<lambda>n. hash n \<le> h) ns) = l"
    by (rule length_filter_prefix) (use sp(1-3) in \<open>auto simp: not_le\<close>)
  moreover have "e" if "h \<in> hash ` set ns"
  proof -
    obtain i where i: "i < length ns" "hash (ns ! i) = h"
      using \<open>h \<in> hash ` set ns\<close> by (auto simp: in_set_conv_nth)
    then have il: "i < l" using sp(3) by force
    then have "h \<le> hash (ns ! (l - 1))"
      using assms i sp(1) unfolding sorted_ring_def by (auto simp: sorted_iff_nth_mono)
    moreover have "hash (ns ! (l - 1)) \<le> h" using sp(2) il by simp
    ultimately show e using sp(5) il by (auto intro: order.antisym)
  qed
  ultimately show ?thesis using le sp(4) by (auto simp: findIndex_def)
qed

interpretation ring: upper_index hash findIndex
  by unfold_locales (simp add: findIndex_upper sorted_ring_def)


section \<open>The ring\<close>

definition ring_insert :: "Node \<Rightarrow> Node list \<Rightarrow> Node list" where
  "ring_insert n ns = filter (\<lambda>x. hash x \<le> hash n) ns @ n # filter (\<lambda>x. hash n < hash x) ns"

text \<open>The node a key with hash \<open>h\<close> falls on: the first above \<open>h\<close>, else the last.\<close>
definition ring_pick :: "Node list \<Rightarrow> u32 \<Rightarrow> Node" where
  "ring_pick ns h = (case filter (\<lambda>x. h < hash x) ns of [] \<Rightarrow> last ns | n # _ \<Rightarrow> n)"

text \<open>The identifier of the real node a node stands for.\<close>
definition owner :: "Node \<Rightarrow> string" where
  "owner n = (case real n of Some r \<Rightarrow> Val r | None \<Rightarrow> Val n)"

definition node_wf :: "Node \<Rightarrow> bool" where
  "node_wf n = (if virtual n then (\<exists>r. real n = Some r \<and> \<not> virtual r) else real n = None)"

text \<open>The nodes \<open>Add\<close> inserts for an identifier.\<close>
definition realNode :: "string \<Rightarrow> Node" where
  "realNode i = Node i (Hash (bytes_of_string i) seed) False None"

definition node_family :: "int \<Rightarrow> string \<Rightarrow> Node list" where
  "node_family v i = realNode i # map (virtualNode (realNode i)) [0..<nat v]"

definition entry_nodes :: "Nodes option \<Rightarrow> Node list" where
  "entry_nodes e = (case e of None \<Rightarrow> [] | Some s \<Rightarrow> nd s # virtuals s)"

text \<open>The ring is sorted and holds, for every identifier, exactly the nodes of its map entry.\<close>
definition ring_inv :: "ConsistentHash \<Rightarrow> bool" where
  "ring_inv c \<longleftrightarrow> sorted_ring (ch_nodes c) \<and> (\<forall>n \<in> set (ch_nodes c). node_wf n) \<and>
     (\<forall>i. mset (filter (\<lambda>n. owner n = i) (ch_nodes c)) = mset (entry_nodes (ch_nodeMap c i)))"

lemma sorted_ring_split:
  "sorted_ring ns \<Longrightarrow> filter (\<lambda>x. hash x \<le> h) ns @ filter (\<lambda>x. h < hash x) ns = ns"
  using ring.find_split [of ns h] by (metis append_take_drop_id sorted_ring_def)

lemma addNode_ring_insert:
  "sorted_ring (ch_nodes c) \<Longrightarrow> addNode c n = c\<lparr>ch_nodes := ring_insert n (ch_nodes c)\<rparr>"
  using ring.find_split [of "ch_nodes c" "hash n"]
  by (simp add: addNode_def ring_insert_def sorted_ring_def case_prod_beta)

lemma sorted_ring_insert: "sorted_ring ns \<Longrightarrow> sorted_ring (ring_insert n ns)"
  using ring.insert_at_find [of ns n] ring.find_split [of ns "hash n"]
  by (simp add: sorted_ring_def ring_insert_def)

lemma mset_ring_insert [simp]: "mset (ring_insert n ns) = add_mset n (mset ns)"
  using multiset_partition [of "mset ns" "\<lambda>x. hash x \<le> hash n"]
  by (simp add: ring_insert_def not_le)

lemma set_ring_insert [simp]: "set (ring_insert n ns) = insert n (set ns)"
  by (metis mset_ring_insert set_mset_add_mset_insert set_mset_mset)

lemma filter_ring_insert_other:
  "sorted_ring ns \<Longrightarrow> \<not> P n \<Longrightarrow> filter P (ring_insert n ns) = filter P ns"
  using arg_cong [OF sorted_ring_split [of ns "hash n"], of "filter P"]
  by (simp add: ring_insert_def)

lemma addVirtual_loop_eq:
  "sorted_ring (ch_nodes c) \<Longrightarrow>
   ch_nodes (addVirtual_loop c r i k) =
     foldl (\<lambda>ns n. ring_insert n ns) (ch_nodes c) (map (virtualNode r) [i..<i + k]) \<and>
   ch_nodeMap (addVirtual_loop c r i k) = (ch_nodeMap c)(Val r := map_option
     (\<lambda>s. s\<lparr>virtuals := virtuals s @ map (virtualNode r) [i..<i + k]\<rparr>) (ch_nodeMap c (Val r))) \<and>
   ch_virtual (addVirtual_loop c r i k) = ch_virtual c"
proof (induction c r i k rule: addVirtual_loop.induct)
  case (1 c r i)
  then show ?case by (cases "ch_nodeMap c (Val r)") (auto simp: fun_eq_iff)
next
  case (2 c r i k)
  have u: "[i..<Suc (i + k)] = i # [Suc i..<Suc (i + k)]" by (rule upt_conv_Cons) simp
  show ?case
    using "2.IH" [OF refl refl refl] "2.prems" sorted_ring_insert [of "ch_nodes c"]
    by (cases "ch_nodeMap c (Val r)")
       (simp_all add: u addNode_ring_insert appendVirtual_def fun_eq_iff Let_def del: upt_Suc)
qed

lemma Add_eq:
  assumes "sorted_ring (ch_nodes c)" "ch_nodeMap c i = None"
  shows "Add c i = (nil, c\<lparr>ch_nodes := foldl (\<lambda>ns n. ring_insert n ns) (ch_nodes c)
             (node_family (ch_virtual c) i),
           ch_nodeMap := (ch_nodeMap c)(i \<mapsto> \<lparr>nd = realNode i,
             virtuals = map (virtualNode (realNode i)) [0..<nat (ch_virtual c)], hit = 0\<rparr>)\<rparr>)"
proof -
  let ?c1 = "c\<lparr>ch_nodeMap := (ch_nodeMap c)(i \<mapsto> \<lparr>nd = realNode i, virtuals = [], hit = 0\<rparr>),
               ch_nodes := ring_insert (realNode i) (ch_nodes c)\<rparr>"
  have "Add c i = (nil, addVirtual_loop ?c1 (realNode i) 0 (nat (ch_virtual c)))"
    using assms by (simp add: Add_def addNode_ring_insert addVirtual_def Let_def flip: realNode_def)
  moreover have "sorted_ring (ch_nodes ?c1)" using sorted_ring_insert assms(1) by simp
  ultimately show ?thesis
    using addVirtual_loop_eq [of ?c1 "realNode i" 0 "nat (ch_virtual c)"]
    by (simp add: node_family_def realNode_def)
qed

text \<open>Inserting a list of nodes.\<close>

lemma insert_all_sorted:
  "sorted_ring ns \<Longrightarrow> sorted_ring (foldl (\<lambda>ns n. ring_insert n ns) ns new)"
  by (induction new arbitrary: ns) (simp_all add: sorted_ring_insert)

lemma insert_all_mset:
  "mset (foldl (\<lambda>ns n. ring_insert n ns) ns new) = mset ns + mset new"
  by (induction new arbitrary: ns) simp_all

lemma insert_all_set:
  "set (foldl (\<lambda>ns n. ring_insert n ns) ns new) = set ns \<union> set new"
  by (metis insert_all_mset set_mset_mset set_mset_union)

lemma insert_all_filter_other:
  "sorted_ring ns \<Longrightarrow> \<forall>n \<in> set new. \<not> P n \<Longrightarrow>
   filter P (foldl (\<lambda>ns n. ring_insert n ns) ns new) = filter P ns"
  by (induction new arbitrary: ns) (simp_all add: sorted_ring_insert filter_ring_insert_other)

lemma family_owner: "n \<in> set (node_family v i) \<Longrightarrow> owner n = i \<and> node_wf n"
  by (auto simp: node_family_def owner_def node_wf_def realNode_def virtualNode_def Let_def)

lemma ring_inv_Add:
  assumes "ring_inv c" "ch_nodeMap c i = None"
  shows "ring_inv (snd (Add c i))"
proof -
  have s: "sorted_ring (ch_nodes c)" using assms(1) by (simp add: ring_inv_def)
  let ?new = "node_family (ch_virtual c) i"
  let ?ns = "foldl (\<lambda>ns n. ring_insert n ns) (ch_nodes c) ?new"
  have m: "mset (filter (\<lambda>n. owner n = j) ?ns) =
      mset (filter (\<lambda>n. owner n = j) (ch_nodes c)) + mset (if j = i then ?new else [])" for j
    using family_owner [of _ "ch_virtual c" i] insert_all_mset [of "ch_nodes c" ?new]
    by (auto simp: mset_filter filter_mset_eq_conv)
  have e: "entry_nodes (ch_nodeMap (snd (Add c i)) j) =
      (if j = i then ?new else entry_nodes (ch_nodeMap c j))" for j
    by (simp add: Add_eq [OF s assms(2)] entry_nodes_def node_family_def)
  have "mset (filter (\<lambda>n. owner n = j) ?ns) = mset (entry_nodes (ch_nodeMap (snd (Add c i)) j))" for j
    unfolding e m using assms by (simp add: ring_inv_def entry_nodes_def)
  moreover have "\<forall>n \<in> set ?ns. node_wf n"
    using assms(1) family_owner by (auto simp: insert_all_set ring_inv_def)
  ultimately show ?thesis
    using insert_all_sorted [OF s] by (simp add: ring_inv_def Add_eq [OF s assms(2)])
qed

lemma ring_pick_insert:
  assumes "sorted_ring ns" "ns \<noteq> []"
  shows "ring_pick (ring_insert n ns) h \<in> {ring_pick ns h, n}"
proof -
  let ?A = "filter (\<lambda>x. hash x \<le> hash n) ns" and ?B = "filter (\<lambda>x. hash n < hash x) ns"
  let ?f = "filter (\<lambda>x. h < hash x)"
  have ns: "ns = ?A @ ?B" using sorted_ring_split [OF assms(1)] by simp
  then have f: "?f ns = ?f ?A @ ?f ?B" by (metis filter_append)
  have l: "last ns = last ?B" if "?B \<noteq> []" using ns that by (metis last_appendR)
  show ?thesis
  proof (cases "h < hash n")
    case True
    then show ?thesis using f
      by (cases "?f ?A") (simp_all add: ring_pick_def ring_insert_def)
  next
    case False
    then show ?thesis using f l
      by (cases "?f ?A @ ?f ?B") (simp_all add: ring_pick_def ring_insert_def)
  qed
qed

lemma ring_pick_insert_all:
  assumes "sorted_ring ns" "ns \<noteq> []"
  shows "ring_pick (foldl (\<lambda>ns n. ring_insert n ns) ns new) h \<in> insert (ring_pick ns h) (set new)"
  using assms
proof (induction new arbitrary: ns)
  case Nil
  then show ?case by simp
next
  case (Cons n new)
  have "ring_insert n ns \<noteq> []" by (simp add: ring_insert_def)
  with Cons.IH [of "ring_insert n ns"] sorted_ring_insert [OF Cons.prems(1)]
  show ?case using ring_pick_insert [OF Cons.prems, of n h] by auto
qed

lemma get_findIndex:
  fixes h :: u32
  assumes "sorted_ring (ch_nodes c)" "ch_nodes c \<noteq> []"
  defines "n \<equiv> ring_pick (ch_nodes c) h"
  shows "get c (fst (findIndex (ch_nodes c) h)) = (if virtual n then real n else Some n, nil)"
proof -
  let ?ns = "ch_nodes c" and ?k = "fst (findIndex (ch_nodes c) h)"
  let ?i = "if ?k = length ?ns then length ?ns - 1 else ?k"
  have d: "drop ?k ?ns = filter (\<lambda>x. h < hash x) ?ns"
    using ring.find_split(2) assms(1) by (simp add: sorted_ring_def)
  have k: "?k \<le> length ?ns" using findIndex_upper [OF assms(1)] by simp
  have "?ns ! ?i = n"
  proof (cases "?k = length ?ns")
    case True
    then have "filter (\<lambda>x. h < hash x) ?ns = []" using d by simp
    then show ?thesis using True assms(2) by (simp add: n_def ring_pick_def last_conv_nth)
  next
    case False
    then show ?thesis using d k
      by (simp add: n_def ring_pick_def Cons_nth_drop_Suc [symmetric] flip: d)
  qed
  then show ?thesis using assms(2) by (simp add: get_def Let_def)
qed

lemma Get_pick:
  assumes "sorted_ring (ch_nodes c)" "ch_nodes c \<noteq> []"
  shows "Get c data = (let n = ring_pick (ch_nodes c) (Hash (bytes_of_string data) seed)
                       in (if virtual n then real n else Some n, nil))"
  using get_findIndex [OF assms] by (simp add: Get_def case_prod_beta Let_def)

lemma ring_pick_mem: "ns \<noteq> [] \<Longrightarrow> ring_pick ns h \<in> set ns"
  by (auto simp: ring_pick_def split: list.split dest: filter_eq_ConsD)

text \<open>Removing a node whose hash occurs once.\<close>

lemma removeIndex_eq:
  "index < length (ch_nodes c) \<Longrightarrow>
   removeIndex c index = c\<lparr>ch_nodes := take index (ch_nodes c) @ drop (Suc index) (ch_nodes c)\<rparr>"
  by (cases "Suc index = length (ch_nodes c)")
     (auto simp: removeIndex_def Let_def dest: arg_cong [where f = "\<lambda>n. n - Suc 0"])

lemma filter_hash_distinct:
  "distinct (map hash ns) \<Longrightarrow> v \<in> set ns \<Longrightarrow>
   filter (\<lambda>n. hash n \<noteq> hash v) ns = filter (\<lambda>n. n \<noteq> v) ns"
  by (rule filter_cong) (auto simp: distinct_map inj_on_def)

lemma remove_one:
  assumes "sorted_ring (ch_nodes c)" "distinct (map hash (ch_nodes c))" "v \<in> set (ch_nodes c)"
  obtains k where "findIndex (ch_nodes c) (hash v) = (k, True)" "0 < k"
    "hash (ch_nodes c ! (k - 1)) = hash v"
    "removeIndex c (k - 1) = c\<lparr>ch_nodes := filter (\<lambda>n. n \<noteq> v) (ch_nodes c)\<rparr>"
proof -
  let ?ns = "ch_nodes c" and ?f = "findIndex (ch_nodes c) (hash v)"
  have s: "sorted (map hash ?ns)" using assms(1) by (simp add: sorted_ring_def)
  have ex: "snd ?f" using findIndex_upper [OF assms(1)] assms(3) by simp
  obtain x where x: "hash x = hash v" "0 < fst ?f" "fst ?f \<le> length ?ns" "?ns ! (fst ?f - 1) = x"
    by (rule ring.find_exists [OF s ex])
  have "take (fst ?f - 1) ?ns @ drop (fst ?f) ?ns = filter (\<lambda>n. n \<noteq> v) ?ns"
    using ring.remove_at_find [OF s assms(2) ex] filter_hash_distinct [OF assms(2,3)] by simp
  then show ?thesis
    using that [of "fst ?f"] x ex removeIndex_eq [of "fst ?f - 1" c] by (simp add: prod_eq_iff)
qed

lemma Remove_virtuals_eq:
  assumes "sorted_ring (ch_nodes c)" "distinct (map hash (ch_nodes c))"
    "set vs \<subseteq> set (ch_nodes c)" "distinct vs"
  shows "Remove_virtuals c vs = (nil, c\<lparr>ch_nodes := filter (\<lambda>n. n \<notin> set vs) (ch_nodes c)\<rparr>)"
  using assms
proof (induction c vs rule: Remove_virtuals.induct)
  case (1 c)
  then show ?case by simp
next
  case (2 c v rest)
  obtain k where k: "findIndex (ch_nodes c) (hash v) = (k, True)"
    "hash (ch_nodes c ! (k - 1)) = hash v"
    "removeIndex c (k - 1) = c\<lparr>ch_nodes := filter (\<lambda>n. n \<noteq> v) (ch_nodes c)\<rparr>"
    using remove_one [of c v] "2.prems" by auto
  let ?c' = "c\<lparr>ch_nodes := filter (\<lambda>n. n \<noteq> v) (ch_nodes c)\<rparr>"
  have "sorted_ring (ch_nodes ?c')" "distinct (map hash (ch_nodes ?c'))"
    using "2.prems" by (simp_all add: sorted_ring_def sorted_filter distinct_map_filter)
  moreover have "set rest \<subseteq> set (ch_nodes ?c')" "distinct rest" using "2.prems" by auto
  ultimately have "Remove_virtuals ?c' rest =
      (nil, ?c'\<lparr>ch_nodes := filter (\<lambda>n. n \<notin> set rest) (ch_nodes ?c')\<rparr>)"
    using "2.IH" [OF k(1) [symmetric] refl] k by simp
  moreover have "filter (\<lambda>n. n \<notin> set rest) (ch_nodes ?c') =
      filter (\<lambda>n. n \<notin> set (v # rest)) (ch_nodes c)"
    by (auto intro: filter_cong)
  ultimately show ?case using k by simp
qed

lemma Remove_eq:
  assumes "ring_inv c" "distinct (map hash (ch_nodes c))" "ch_nodeMap c i = Some s"
  shows "Remove c i = (nil, c\<lparr>ch_nodes := filter (\<lambda>n. owner n \<noteq> i) (ch_nodes c),
           ch_nodeMap := (ch_nodeMap c)(i := None)\<rparr>)"
proof -
  let ?ns = "ch_nodes c"
  have m: "mset (filter (\<lambda>n. owner n = i) ?ns) = mset (nd s # virtuals s)"
    using assms(1,3) by (simp add: ring_inv_def entry_nodes_def)
  have st: "set (nd s # virtuals s) = {n \<in> set ?ns. owner n = i}"
    using mset_eq_setD [OF m] by simp
  have d: "distinct (nd s # virtuals s)"
    using m assms(2) by (metis distinct_filter distinct_map mset_eq_imp_distinct_iff)
  let ?c1 = "c\<lparr>ch_nodes := filter (\<lambda>n. n \<notin> set (virtuals s)) ?ns\<rparr>"
  have sr: "sorted_ring ?ns" using assms(1) by (simp add: ring_inv_def)
  have 1: "Remove_virtuals c (virtuals s) = (nil, ?c1)"
    using Remove_virtuals_eq [OF sr assms(2), of "virtuals s"] st d by auto
  have "sorted_ring (ch_nodes ?c1)" "distinct (map hash (ch_nodes ?c1))" "nd s \<in> set (ch_nodes ?c1)"
    using sr assms(2) st d by (auto simp: sorted_ring_def sorted_filter distinct_map_filter)
  then obtain k where k: "findIndex (ch_nodes ?c1) (hash (nd s)) = (k, True)"
    "removeIndex ?c1 (k - 1) = ?c1\<lparr>ch_nodes := filter (\<lambda>n. n \<noteq> nd s) (ch_nodes ?c1)\<rparr>"
    using remove_one [of ?c1 "nd s"] by metis
  have "filter (\<lambda>n. n \<noteq> nd s) (ch_nodes ?c1) = filter (\<lambda>n. owner n \<noteq> i) ?ns"
    using st by (auto intro: filter_cong)
  then show ?thesis using assms(3) 1 k by (simp add: Remove_def)
qed

lemma ring_inv_Remove:
  assumes "ring_inv c" "distinct (map hash (ch_nodes c))"
  shows "ring_inv (snd (Remove c i))"
proof (cases "ch_nodeMap c i")
  case None
  then show ?thesis using assms(1) by (simp add: Remove_def)
next
  case (Some s)
  have "filter (\<lambda>n. owner n = j) (filter (\<lambda>n. owner n \<noteq> i) ns) =
      (if j = i then [] else filter (\<lambda>n. owner n = j) ns)" for j ns
    by (auto simp: filter_empty_conv intro: filter_cong)
  then show ?thesis
    using assms Some by (simp add: Remove_eq ring_inv_def sorted_ring_def sorted_filter entry_nodes_def)
qed

lemma ring_inv_owner:
  assumes "ring_inv c" "n \<in> set (ch_nodes c)"
  shows "owner n \<in> dom (ch_nodeMap c)"
proof -
  have "n \<in> set (filter (\<lambda>m. owner m = owner n) (ch_nodes c))" using assms(2) by simp
  then have "mset (entry_nodes (ch_nodeMap c (owner n))) \<noteq> {#}"
    using assms(1) unfolding ring_inv_def by (metis empty_iff mset_zero_iff_right set_empty)
  then show ?thesis by (auto simp: entry_nodes_def split: option.splits)
qed

lemma ring_inv_new [simp]: "ring_inv (NewConsistentHash2 v)"
  by (simp add: NewConsistentHash2_def ring_inv_def sorted_ring_def entry_nodes_def)

lemma node_wf_answer:
  "node_wf n \<Longrightarrow> \<exists>m. (if virtual n then real n else Some n) = Some m \<and> \<not> virtual m \<and> Val m = owner n"
  by (auto simp: node_wf_def owner_def split: if_splits)


section \<open>Properties\<close>

text \<open>
  C8: on a sorted ring the binary search of \<open>findIndex\<close> terminates with the number of nodes whose
  hash is at most \<open>h\<close> (the insertion point after all equal hashes), and its flag tells exactly
  whether some node has hash \<open>h\<close>.
\<close>
theorem findIndex_correct:
  assumes "sorted_ring ns"
  shows "findIndex ns h = (length (filter (\<lambda>n. hash n \<le> h) ns), h \<in> hash ` set ns)"
  using assms by (rule findIndex_upper)

theorem findIndex_correct_witness:
  "findIndex [Node ''a'' 3 False None, Node ''b'' 7 False None, Node ''c'' 7 False None] 7 = (3, True)"
  using findIndex_correct [of "[Node ''a'' 3 False None, Node ''b'' 7 False None, Node ''c'' 7 False None]" 7]
  by (simp add: sorted_ring_def)

text \<open>
  C9: the ring invariant (sorted, and for every identifier exactly the real node and the virtual
  nodes recorded in its map entry) holds for a new ring, is kept by every \<open>Add\<close>, and is kept by
  \<open>Remove\<close> as long as no two nodes of the ring have the same hash.
\<close>
theorem ring_inv_preserved:
  "ring_inv (NewConsistentHash2 v) \<and>
   (ring_inv c \<longrightarrow> ring_inv (snd (Add c i))) \<and>
   (ring_inv c \<and> distinct (map hash (ch_nodes c)) \<longrightarrow> ring_inv (snd (Remove c i)))"
proof (intro conjI impI)
  show "ring_inv (NewConsistentHash2 v)"
    by simp
  show "ring_inv (snd (Add c i))" if "ring_inv c"
    using ring_inv_Add [OF that, of i] that by (cases "ch_nodeMap c i") (simp_all add: Add_def)
  show "ring_inv (snd (Remove c i))" if "ring_inv c \<and> distinct (map hash (ch_nodes c))"
    using that by (simp add: ring_inv_Remove)
qed

theorem ring_inv_preserved_witness:
  "ring_inv (snd (Add (snd (Add (NewConsistentHash2 3) ''A'')) ''B''))"
  using ring_inv_preserved by blast

text \<open>
  C10: the defining property of consistent hashing: adding a node to a non-empty ring leaves every
  key where it was or moves it to the new node, never between two old nodes.
\<close>
theorem Add_minimal_disruption:
  assumes "ring_inv c" "ch_nodes c \<noteq> []" "ch_nodeMap c i = None"
  shows "Get (snd (Add c i)) data = Get c data \<or>
         (\<exists>n. Get (snd (Add c i)) data = (Some n, nil) \<and> \<not> virtual n \<and> Val n = i)"
proof -
  let ?new = "node_family (ch_virtual c) i" and ?h = "Hash (bytes_of_string data) seed"
  let ?ns = "foldl (\<lambda>ns n. ring_insert n ns) (ch_nodes c) ?new"
  have s: "sorted_ring (ch_nodes c)" using assms(1) by (simp add: ring_inv_def)
  have a: "ch_nodes (snd (Add c i)) = ?ns" by (simp add: Add_eq [OF s assms(3)])
  have "?ns \<noteq> []" using insert_all_set [of "ch_nodes c" ?new] assms(2) by force
  then have g: "Get (snd (Add c i)) data =
      (let n = ring_pick ?ns ?h in (if virtual n then real n else Some n, nil))"
    using Get_pick [of "snd (Add c i)" data] insert_all_sorted [OF s] a by simp
  from ring_pick_insert_all [OF s assms(2), of ?new ?h] show ?thesis
  proof (elim insertE)
    assume "ring_pick ?ns ?h = ring_pick (ch_nodes c) ?h"
    then show ?thesis using g Get_pick [OF s assms(2), of data] by simp
  next
    assume "ring_pick ?ns ?h \<in> set ?new"
    then have "node_wf (ring_pick ?ns ?h)" "owner (ring_pick ?ns ?h) = i"
      using family_owner by blast+
    then show ?thesis using g node_wf_answer [of "ring_pick ?ns ?h"] by (auto simp: Let_def)
  qed
qed

theorem Add_minimal_disruption_witness:
  "let c = snd (Add (NewConsistentHash2 1) ''A'') in
     Get (snd (Add c ''B'')) ''k'' = Get c ''k'' \<or>
     (\<exists>n. Get (snd (Add c ''B'')) ''k'' = (Some n, nil) \<and> \<not> virtual n \<and> Val n = ''B'')"
proof -
  let ?e = "NewConsistentHash2 1" and ?c = "snd (Add (NewConsistentHash2 1) ''A'')"
  have i0: "ring_inv ?e"
    by simp
  have a: "Add ?e ''A'' = (nil, ?e\<lparr>ch_nodes := foldl (\<lambda>ns n. ring_insert n ns) []
             (node_family 1 ''A''), ch_nodeMap := [''A'' \<mapsto> \<lparr>nd = realNode ''A'',
             virtuals = map (virtualNode (realNode ''A'')) [0..<1], hit = 0\<rparr>]\<rparr>)"
    using Add_eq [of ?e "''A''"] by (simp add: NewConsistentHash2_def sorted_ring_def)
  have "ring_inv ?c"
    by (rule ring_inv_Add [OF i0]) (simp add: NewConsistentHash2_def)
  moreover have "ch_nodes ?c \<noteq> []"
    using a by (simp add: node_family_def ring_insert_def)
  moreover have "ch_nodeMap ?c ''B'' = None" using a by simp
  ultimately show ?thesis unfolding Let_def by (rule Add_minimal_disruption)
qed



text \<open>
  On a non-empty ring \<open>Get\<close> succeeds and answers with a real node whose identifier is
  registered; on an empty ring it answers the error \<open>errNodeExist\<close>.
\<close>
theorem Get_registered:
  assumes "ring_inv c"
  shows "if ch_nodes c = [] then Get c data = (None, Some errNodeExist)
         else \<exists>n. Get c data = (Some n, nil) \<and> \<not> virtual n \<and> Val n \<in> dom (ch_nodeMap c)"
proof (cases "ch_nodes c = []")
  case True
  then show ?thesis by (simp add: Get_def get_def case_prod_beta)
next
  case False
  let ?n = "ring_pick (ch_nodes c) (Hash (bytes_of_string data) seed)"
  have s: "sorted_ring (ch_nodes c)" and w: "node_wf ?n"
    using assms ring_pick_mem [OF False] by (simp_all add: ring_inv_def)
  have "owner ?n \<in> dom (ch_nodeMap c)"
    using ring_inv_owner [OF assms] ring_pick_mem [OF False] by simp
  then show ?thesis using node_wf_answer [OF w] Get_pick [OF s False, of data] False
    by (auto simp: Let_def)
qed

theorem Get_registered_witness:
  "ring_inv (NewConsistentHash2 7) \<and> Get (NewConsistentHash2 7) ''k'' = (None, Some errNodeExist)"
proof -
  have "ring_inv (NewConsistentHash2 7)"
    by simp
  then show ?thesis
    using Get_registered [of "NewConsistentHash2 7" "''k''"] by (simp add: NewConsistentHash2_def)
qed

text \<open>
  \<open>Remove\<close> looks a node up by its hash only. The identifiers \<open>gate5066\<close> and \<open>gate119071\<close>
  have the same hash; with both on the ring, removing the first deletes the node of the second
  and leaves its own, so \<open>Get\<close> keeps answering with the removed node.
\<close>
theorem Remove_collision:
  "let c = snd (Add (snd (Add (NewConsistentHash2 0) ''gate5066'')) ''gate119071'');
       (e, c') = Remove c ''gate5066''
   in e = nil \<and> ch_nodeMap c' ''gate5066'' = None \<and> map Val (ch_nodes c') = [''gate5066'']"
  by code_simp

end
