(* ===== verification/TimingWheelCorrect.thy ===== *)
theory TimingWheelCorrect
  imports TimingWheel
begin

text \<open>
  The correctness of the timing wheel: it implements the map from pending tasks to the ticks at which
  they are due. \<open>timers p A tw\<close> relates a wheel after \<open>p + 1\<close> ticks to such a map \<open>A\<close>; a lemma for each
  operation (\<open>tick_timers\<close>, \<open>add_timers\<close>, \<open>Cancel_timers\<close>, \<open>Callback_timers\<close>) shows that the operation
  acts on the map as its specification says. The theorems at the end follow whole sequences of
  operations.
\<close>

section \<open>The invariant of the wheel\<close>

text \<open>
  \<open>c j\<close> counts the slots that level \<open>j\<close> has passed: after \<open>p + 1\<close> ticks it is \<open>p div slen ^ j\<close>.
  A task in slot \<open>i\<close> of level \<open>j\<close> is due when the level reaches that slot, plus its remaining
  offset. \<open>A\<close> is the specification: the pending tasks with the tick at which each is due. \<open>X\<close> are
  the tasks that are being handed down.
\<close>

definition tw_struct :: "(nat \<Rightarrow> int) \<Rightarrow> TimingWheel \<Rightarrow> bool" where
  "tw_struct c tw =
     (0 < slen tw \<and> 0 < depth tw \<and>
      (\<forall>j < depth tw. slotCap (wheel_at tw j) = int (slen tw) ^ j \<and>
         cur (wheel_at tw j) = nat (c j mod int (slen tw))))"

definition due :: "(nat \<Rightarrow> int) \<Rightarrow> TimingWheel \<Rightarrow> nat \<Rightarrow> nat \<Rightarrow> nat \<Rightarrow> int" where
  "due c tw j i v =
     (c j + (int i - c j) mod int (slen tw)) * int (slen tw) ^ j + (if j = 0 then 0 else offset (task_at tw v))"

text \<open>What holds of a task in a slot.\<close>
definition placed :: "(nat \<Rightarrow> int) \<Rightarrow> (nat \<Rightarrow> int option) \<Rightarrow> TimingWheel \<Rightarrow> nat \<Rightarrow> nat \<Rightarrow> nat \<Rightarrow> bool" where
  "placed c A tw j i v =
     ((int i - c j) mod int (slen tw) \<noteq> 0 \<and>
      (0 < j \<longrightarrow> 0 \<le> offset (task_at tw v) \<and> offset (task_at tw v) < int (slen tw) ^ j) \<and>
      A v = Some (due c tw j i v))"

definition slots_ok :: "(nat \<Rightarrow> int) \<Rightarrow> nat set \<Rightarrow> (nat \<Rightarrow> int option) \<Rightarrow> TimingWheel \<Rightarrow> bool" where
  "slots_ok c X A tw =
     (\<forall>j i. distinct (slot_values tw j i) \<and>
       (\<forall>v \<in> set (slot_values tw j i).
          slot_of (task_at tw v) = Some (j, i) \<and> j < depth tw \<and> i < slen tw \<and> v < next_task tw \<and>
          (v \<in> set (execq tw) \<longrightarrow> j = 0) \<and>
          (v \<notin> set (execq tw) \<longrightarrow> v \<notin> X \<longrightarrow> placed c A tw j i v)))"

definition tinv :: "(nat \<Rightarrow> int) \<Rightarrow> int \<Rightarrow> nat set \<Rightarrow> (nat \<Rightarrow> int option) \<Rightarrow> TimingWheel \<Rightarrow> bool" where
  "tinv c now X A tw =
     (tw_struct c tw \<and> slots_ok c X A tw \<and> distinct (execq tw) \<and> X \<inter> set (execq tw) = {} \<and>
      (\<forall>v. A v \<noteq> None \<longrightarrow> v \<in> set (execq tw) \<or> v \<in> X \<or> (\<exists>j i. v \<in> set (slot_values tw j i))) \<and>
      (\<forall>v \<in> set (execq tw). A v = Some now \<and> slot_of (task_at tw v) \<noteq> None) \<and>
      (\<forall>v. A v \<noteq> None \<longrightarrow> v < next_task tw))"

text \<open>\<open>frame V tw tw'\<close>: the wheels, the log and the tasks outside \<open>V\<close> are the same.\<close>
definition frame :: "nat set \<Rightarrow> TimingWheel \<Rightarrow> TimingWheel \<Rightarrow> bool" where
  "frame V tw tw' =
     (wheel_at tw' = wheel_at tw \<and> depth tw' = depth tw \<and> slen tw' = slen tw \<and>
      next_task tw' = next_task tw \<and> fired tw' = fired tw \<and> callbacks tw' = callbacks tw \<and>
      interval tw' = interval tw \<and> maxTimeout tw' = maxTimeout tw \<and>
      (\<forall>v. v \<notin> V \<longrightarrow> task_at tw' v = task_at tw v))"

lemma frame_refl [simp]: "frame V tw tw"
  by (simp add: frame_def)

lemma frame_trans: "frame V tw tw' \<Longrightarrow> frame V' tw' tw'' \<Longrightarrow> frame (V \<union> V') tw tw''"
  by (simp add: frame_def)

lemma frame_mono: "frame V tw tw' \<Longrightarrow> V \<subseteq> V' \<Longrightarrow> frame V' tw tw'"
  by (auto simp: frame_def)

lemma slot_values_set [simp]:
  "slot_values (set_values k i vs tw) j l = (if j = k \<and> l = i then vs else slot_values tw j l)"
  by (simp add: set_values_def)

lemma set_values_sel [simp]:
  "interval (set_values k i vs tw) = interval tw" "maxTimeout (set_values k i vs tw) = maxTimeout tw"
  "depth (set_values k i vs tw) = depth tw" "slen (set_values k i vs tw) = slen tw"
  "wheel_at (set_values k i vs tw) = wheel_at tw" "task_at (set_values k i vs tw) = task_at tw"
  "next_task (set_values k i vs tw) = next_task tw" "execq (set_values k i vs tw) = execq tw"
  "fired (set_values k i vs tw) = fired tw" "callbacks (set_values k i vs tw) = callbacks tw"
  by (simp_all add: set_values_def)

lemma set_task_sel [simp]:
  "interval (set_task v t tw) = interval tw" "maxTimeout (set_task v t tw) = maxTimeout tw"
  "depth (set_task v t tw) = depth tw" "slen (set_task v t tw) = slen tw"
  "wheel_at (set_task v t tw) = wheel_at tw" "slot_values (set_task v t tw) = slot_values tw"
  "next_task (set_task v t tw) = next_task tw" "execq (set_task v t tw) = execq tw"
  "fired (set_task v t tw) = fired tw" "callbacks (set_task v t tw) = callbacks tw"
  "task_at (set_task v t tw) u = (if u = v then t else task_at tw u)"
  by (simp_all add: set_task_def)

lemma set_wheel_sel [simp]:
  "interval (set_wheel k w tw) = interval tw" "maxTimeout (set_wheel k w tw) = maxTimeout tw"
  "depth (set_wheel k w tw) = depth tw" "slen (set_wheel k w tw) = slen tw"
  "wheel_at (set_wheel k w tw) j = (if j = k then w else wheel_at tw j)"
  "slot_values (set_wheel k w tw) = slot_values tw"
  "next_task (set_wheel k w tw) = next_task tw" "execq (set_wheel k w tw) = execq tw"
  "fired (set_wheel k w tw) = fired tw" "callbacks (set_wheel k w tw) = callbacks tw"
  "task_at (set_wheel k w tw) = task_at tw"
  by (simp_all add: set_wheel_def)


section \<open>Placing tasks\<close>

text \<open>\<open>slot.put\<close> walks \<open>off\<close> slots ahead and stores the task there, or gives up beyond the ring.\<close>

lemma slot_put_store:
  assumes "0 \<le> off" "off < int (slen tw)" "i < slen tw"
  shows "slot_put k i off v tw = Ret (0, slot_store k ((i + nat off) mod slen tw) v tw)"
  using assms
proof (induction "nat off" arbitrary: i off)
  case 0
  then have "off = 0" by simp
  then show ?case using 0 by (simp add: slot_put.simps [of k i 0])
next
  case (Suc n)
  then have off: "n = nat (off - 1)" "0 \<le> off - 1" "off - 1 < int (slen tw)" "0 < off" by linarith+
  have nx: "slot_next tw i < slen tw" "(slot_next tw i + nat (off - 1)) mod slen tw = (i + nat off) mod slen tw"
  proof -
    show "slot_next tw i < slen tw" using Suc.prems by (simp add: slot_next_def)
    show "(slot_next tw i + nat (off - 1)) mod slen tw = (i + nat off) mod slen tw"
    proof (cases "i + 1 = slen tw")
      case True
      have "i + nat off = slen tw + nat (off - 1)" using True off by linarith
      then show ?thesis using True by (simp add: slot_next_def)
    next
      case False
      have "slot_next tw i + nat (off - 1) = i + nat off" using off False by (simp add: slot_next_def)
      then show ?thesis by simp
    qed
  qed
  have "slot_put k i off v tw = slot_put k (slot_next tw i) (off - 1) v tw"
    using Suc.prems off by (simp add: slot_put.simps [of k i off])
  then show ?case using Suc.hyps(1) [OF off(1-3) nx(1)] nx(2) by simp
qed

lemma slot_put_beyond:
  assumes "int (slen tw) \<le> off" "0 < slen tw" "i < slen tw"
  shows "slot_put k i off v tw = Ret (off - int (slen tw), tw)"
  using assms by (simp add: slot_put.simps [of k i off])

lemma cur_mod:
  assumes "tw_struct c tw" "k < depth tw"
  shows "cur (wheel_at tw k) < slen tw" "int (cur (wheel_at tw k)) = c k mod int (slen tw)"
proof -
  have B: "0 < int (slen tw)" using assms(1) by (simp add: tw_struct_def)
  then have "0 \<le> c k mod int (slen tw)" "c k mod int (slen tw) < int (slen tw)" by simp_all
  then show "cur (wheel_at tw k) < slen tw" "int (cur (wheel_at tw k)) = c k mod int (slen tw)"
    using assms by (auto simp: tw_struct_def)
qed

lemma ahead_mod:
  assumes "tw_struct c tw" "k < depth tw" "0 \<le> s" "s < int (slen tw)"
  shows "(int ((cur (wheel_at tw k) + nat s) mod slen tw) - c k) mod int (slen tw) = s"
proof -
  have "(int ((cur (wheel_at tw k) + nat s) mod slen tw) - c k) mod int (slen tw)
      = ((c k mod int (slen tw) + s) mod int (slen tw) - c k) mod int (slen tw)"
    using cur_mod [OF assms(1,2)] assms(3) by (simp add: zmod_int)
  also have "\<dots> = (c k + s - c k) mod int (slen tw)" by (metis mod_add_left_eq mod_diff_left_eq)
  also have "\<dots> = s mod int (slen tw)" by simp
  finally show ?thesis using assms(3,4) by simp
qed

lemma frame_place: "frame {v} tw (slot_store k i v (set_offset v off tw))"
  by (simp add: frame_def slot_store_def set_offset_def)

lemma place:
  assumes inv: "tinv c now X A tw"
    and v: "\<And>j i. v \<notin> set (slot_values tw j i)" "v \<notin> set (execq tw)" "v < next_task tw"
    and k: "k < depth tw" "0 < s" "s < int (slen tw)" "0 < k \<Longrightarrow> 0 \<le> off \<and> off < int (slen tw) ^ k"
  defines "D \<equiv> (c k + s) * int (slen tw) ^ k + (if k = 0 then 0 else off)"
  shows "\<exists>tw'. put_at_cur k s v (set_offset v off tw) = Ret tw' \<and>
    tinv c now (X - {v}) (A(v \<mapsto> D)) tw' \<and> execq tw' = execq tw \<and> frame {v} tw tw'"
proof -
  have st: "tw_struct c tw" and sl: "slots_ok c X A tw" using inv by (simp_all add: tinv_def)
  define i where "i = (cur (wheel_at tw k) + nat s) mod slen tw"
  define tw' where "tw' = slot_store k i v (set_offset v off tw)"
  have i: "i < slen tw" "(int i - c k) mod int (slen tw) = s"
    using ahead_mod [OF st k(1)] k(2,3) cur_mod [OF st k(1)] by (simp_all add: i_def)
  have put: "put_at_cur k s v (set_offset v off tw) = Ret tw'"
    using slot_put_store [of s "set_offset v off tw" "cur (wheel_at tw k)" k v] k cur_mod [OF st k(1)]
    by (simp add: put_at_cur_def set_offset_def tw'_def i_def)
  have vals: "set (slot_values tw' j l) = (if j = k \<and> l = i then insert v (set (slot_values tw j l))
      else set (slot_values tw j l))" for j l
    by (simp add: tw'_def slot_store_def set_offset_def)
  have tasks: "task_at tw' u = (if u = v then (task_at tw v)\<lparr>offset := off, slot_of := Some (k, i)\<rparr> else task_at tw u)" for u
    by (simp add: tw'_def slot_store_def set_offset_def)
  have sel: "execq tw' = execq tw" "slen tw' = slen tw" "depth tw' = depth tw" "next_task tw' = next_task tw"
      "wheel_at tw' = wheel_at tw"
    by (simp_all add: tw'_def slot_store_def set_offset_def)
  have dst: "distinct (slot_values tw' j l)" for j l
    using sl by (auto simp: tw'_def slot_store_def set_offset_def slots_ok_def distinct_insert)
  have D': "due c tw' k i v = D" by (simp add: due_def D_def sel i(2) tasks)
  have old: "placed c (A(v \<mapsto> D)) tw' j l u" if "placed c A tw j l u" "u \<noteq> v" for j l u
    using that by (simp add: placed_def due_def sel tasks)
  have "placed c (A(v \<mapsto> D)) tw' k i v"
    using k D' i(2) by (simp add: placed_def sel tasks)
  then have "slots_ok c (X - {v}) (A(v \<mapsto> D)) tw'"
    using sl v k(1) i(1) dst old by (auto simp: slots_ok_def vals sel tasks)
  moreover have "tw_struct c tw'" using st by (simp add: tw_struct_def sel)
  moreover have "u \<in> set (execq tw) \<or> u \<in> X - {v} \<or> (\<exists>j l. u \<in> set (slot_values tw' j l))"
    if "(A(v \<mapsto> D)) u \<noteq> None" for u
  proof (cases "u = v")
    case True
    then show ?thesis using vals [of k i] by auto
  next
    case False
    with that inv have "u \<in> set (execq tw) \<or> u \<in> X \<or> (\<exists>j l. u \<in> set (slot_values tw j l))"
      by (simp add: tinv_def)
    then show ?thesis using False by (auto simp: vals)
  qed
  moreover have "(A(v \<mapsto> D)) u = Some now \<and> slot_of (task_at tw' u) \<noteq> None" if "u \<in> set (execq tw)" for u
    using that inv v(2) by (auto simp: tinv_def tasks)
  moreover have "u < next_task tw" if "(A(v \<mapsto> D)) u \<noteq> None" for u
    using that inv v(3) by (auto simp: tinv_def split: if_splits)
  moreover have "distinct (execq tw)" "X \<inter> set (execq tw) = {}" using inv by (simp_all add: tinv_def)
  ultimately have "tinv c now (X - {v}) (A(v \<mapsto> D)) tw'" by (auto simp: tinv_def sel)
  then show ?thesis using put sel(1) frame_place [of v tw k i off] by (auto simp: tw'_def)
qed


lemma placed_execq [simp]: "placed c A (tw\<lparr>execq := q\<rparr>) = placed c A tw"
  by (intro ext) (simp add: placed_def due_def)

text \<open>Calling a task that is being handed down.\<close>
lemma call_inv:
  assumes inv: "tinv c now X A tw" and v: "v \<in> X" "slot_of (task_at tw v) \<noteq> None" "A v = Some now"
    and sl: "\<And>j i. v \<in> set (slot_values tw j i) \<Longrightarrow> j = 0"
  shows "tinv c now (X - {v}) A (Task_call v tw) \<and> frame {} tw (Task_call v tw) \<and>
    execq (Task_call v tw) = execq tw @ [v]"
proof -
  define tw' where "tw' = tw\<lparr>execq := execq tw @ [v]\<rparr>"
  have call: "Task_call v tw = tw'" using v(2) by (auto simp: Task_call_def tw'_def)
  have "v \<notin> set (execq tw)" using inv v(1) by (auto simp: tinv_def)
  then have "slots_ok c (X - {v}) A tw'"
    using inv sl by (auto simp: tinv_def slots_ok_def tw'_def)
  then have "tinv c now (X - {v}) A tw'"
    using inv v \<open>v \<notin> set (execq tw)\<close> by (auto simp: tinv_def tw_struct_def tw'_def)
  then show ?thesis by (simp add: call frame_def tw'_def)
qed

lemma remove_inv:
  assumes inv: "tinv c now X A tw" and v: "v \<in> X"
  shows "tinv c now X A (slot_remove j i v tw)"
proof -
  define tw' where "tw' = slot_remove j i v tw"
  have vals: "set (slot_values tw' l m) = (if l = j \<and> m = i then set (slot_values tw l m) - {v}
      else set (slot_values tw l m))" for l m
    by (auto simp: tw'_def slot_remove_def)
  have sel: "execq tw' = execq tw" "slen tw' = slen tw" "depth tw' = depth tw" "next_task tw' = next_task tw"
      "wheel_at tw' = wheel_at tw" "task_at tw' = task_at tw"
    by (simp_all add: tw'_def slot_remove_def)
  have pl: "placed c A tw' = placed c A tw" by (intro ext) (simp add: placed_def due_def sel)
  have "distinct (slot_values tw' l m)" for l m
    using inv by (simp add: tw'_def slot_remove_def tinv_def slots_ok_def)
  then have "slots_ok c X A tw'"
    using inv by (auto simp: tinv_def slots_ok_def pl sel vals)
  moreover have "u \<in> set (execq tw) \<or> u \<in> X \<or> (\<exists>l m. u \<in> set (slot_values tw' l m))" if "A u \<noteq> None" for u
  proof (cases "u = v")
    case False
    have "u \<in> set (execq tw) \<or> u \<in> X \<or> (\<exists>l m. u \<in> set (slot_values tw l m))"
      using inv that by (simp add: tinv_def)
    moreover have "u \<in> set (slot_values tw' l m)" if "u \<in> set (slot_values tw l m)" for l m
      using that False by (auto simp: vals)
    ultimately show ?thesis by blast
  qed (use v in simp)
  ultimately show ?thesis
    using inv by (auto simp: tinv_def tw_struct_def sel tw'_def [symmetric])
qed

lemma div_bounds:
  fixes n off B :: int
  assumes "0 < n" "0 \<le> off" "off < n * B"
  shows "0 \<le> off div n" "off div n < B"
proof -
  show "0 \<le> off div n" using assms by (simp add: pos_imp_zdiv_nonneg_iff)
  have "n * (off div n) \<le> off"
    using pos_mod_sign [OF assms(1), of off] mult_div_mod_eq [of n off] by linarith
  then have "n * (off div n) < n * B" using assms(3) by linarith
  then show "off div n < B" using assms(1) by simp
qed

lemma set_offset_same: "set_offset v (offset (task_at tw v)) tw = tw"
  by (simp add: set_offset_def set_task_def)

text \<open>A task that level \<open>k + 1\<close> keeps: it goes into a slot of that level with the rest of its offset.\<close>
lemma wheel_put_here:
  assumes inv: "tinv c now X A tw" and v: "v \<in> X" "\<And>j i. v \<notin> set (slot_values tw j i)"
    and k: "Suc k < depth tw" "c (Suc k) * int (slen tw) ^ Suc k = now"
      "remain (wheel_at tw k) = int (slen tw) ^ (k + 1)"
    and o: "int (slen tw) ^ (k + 1) \<le> offset (task_at tw v)"
      "offset (task_at tw v) < int (slen tw) ^ (Suc k + 1)" "A v = Some (now + offset (task_at tw v))"
  shows "\<exists>tw'. wheel_put (Suc k) v tw = Ret tw' \<and> tinv c now (X - {v}) A tw' \<and> frame {v} tw tw'"
proof -
  define cap where "cap = int (slen tw) ^ (k + 1)"
  define off where "off = offset (task_at tw v)"
  define s where "s = off div cap"
  have st: "tw_struct c tw" "v \<notin> set (execq tw)" "v < next_task tw" "0 < slen tw"
    using inv v(1) o(3) by (auto simp: tinv_def tw_struct_def)
  have cap0: "0 < cap" using st(4) by (simp add: cap_def)
  have capk: "slotCap (wheel_at tw (Suc k)) = cap" using st(1) k(1) by (simp add: tw_struct_def cap_def)
  have bounds: "0 \<le> off" "off < cap * int (slen tw)" "cap \<le> off"
    using o cap0 by (simp_all add: off_def cap_def ac_simps)
  have ne: "s \<noteq> 0" using bounds(3) cap0 by (auto simp: s_def zdiv_eq_0_iff)
  have s: "0 < s" "s < int (slen tw)"
    using div_bounds [OF cap0 bounds(1,2)] ne by (simp_all add: s_def)
  have "remain (wheel_at tw k) = cap" using k(3) by (simp add: cap_def)
  then have rem: "off - ((s - 1) * cap + remain (wheel_at tw k) - 1) - 1 = off mod cap"
    by (simp add: s_def algebra_simps minus_div_mult_eq_mod)
  have "c (Suc k) * cap = now" using k(2) by (simp add: cap_def)
  then have "(c (Suc k) + s) * cap + off mod cap = now + off" by (simp add: s_def distrib_right)
  then have "A(v \<mapsto> (c (Suc k) + s) * int (slen tw) ^ Suc k + (if Suc k = 0 then 0 else off mod cap)) = A"
    using o(3) by (auto simp: cap_def off_def)
  moreover have "0 \<le> off mod cap \<and> off mod cap < int (slen tw) ^ Suc k" using cap0 by (simp add: cap_def)
  moreover have "wheel_put (Suc k) v tw = put_at_cur (Suc k) s v (set_offset v (off mod cap) tw)"
    using ne by (simp add: rem capk Let_def s_def [symmetric] off_def [symmetric])
  ultimately show ?thesis
    using place [OF inv v(2) st(2,3) k(1) s, of "off mod cap"] by auto
qed

text \<open>
  \<open>wheel.put\<close> for a task handed down at tick \<open>now\<close>, a multiple of the capacity of level \<open>k + 1\<close>: the
  remaining offset becomes the distance from now.
\<close>
lemma wheel_put_inv:
  assumes inv: "tinv c now X A tw" and v: "v \<in> X" "slot_of (task_at tw v) \<noteq> None"
      "\<And>j i. v \<notin> set (slot_values tw j i)"
    and k: "k < depth tw" "\<And>j. j \<le> k \<Longrightarrow> c j * int (slen tw) ^ j = now"
      "\<And>j. j < k \<Longrightarrow> remain (wheel_at tw j) = int (slen tw) ^ (j + 1)"
    and o: "0 \<le> offset (task_at tw v)" "offset (task_at tw v) < int (slen tw) ^ (k + 1)"
      "A v = Some (now + offset (task_at tw v))"
  shows "\<exists>tw'. wheel_put k v tw = Ret tw' \<and> tinv c now (X - {v}) A tw' \<and> frame {v} tw tw'"
  using k o
proof (induction k)
  case 0
  have st: "tw_struct c tw" "v \<notin> set (execq tw)" "v < next_task tw"
    using inv v(1) "0.prems"(6) by (auto simp: tinv_def)
  have cap: "slotCap (wheel_at tw 0) = 1" using st(1) 0 by (simp add: tw_struct_def)
  show ?case
  proof (cases "offset (task_at tw v) = 0")
    case True
    then show ?thesis
      using call_inv [OF inv v(1,2)] v(3) "0.prems"(6) cap by (auto simp: frame_def)
  next
    case False
    then have pos: "0 < offset (task_at tw v)" "offset (task_at tw v) < int (slen tw)" using 0 by auto
    have "A(v \<mapsto> (c 0 + offset (task_at tw v)) * int (slen tw) ^ 0 + (if (0::nat) = 0 then 0 else offset (task_at tw v))) = A"
      using "0.prems"(2,6) by auto
    then show ?thesis
      using place [OF inv v(3) st(2,3) "0.prems"(1) pos, of "offset (task_at tw v)"] cap pos
      by (simp add: set_offset_same) blast
  qed
next
  case (Suc k)
  let ?cap = "int (slen tw) ^ (k + 1)"
  have st: "tw_struct c tw" "0 < ?cap" using inv by (auto simp: tinv_def tw_struct_def)
  have capk: "slotCap (wheel_at tw (Suc k)) = ?cap" using st(1) Suc.prems(1) by (simp add: tw_struct_def)
  show ?case
  proof (cases "offset (task_at tw v) < ?cap")
    case True
    then have z: "offset (task_at tw v) div ?cap = 0" using Suc.prems(4) by (simp only: div_pos_pos_trivial)
    have "\<exists>tw'. wheel_put k v tw = Ret tw' \<and> tinv c now (X - {v}) A tw' \<and> frame {v} tw tw'"
      using Suc.IH Suc.prems True by simp
    then show ?thesis using z by (simp add: capk Let_def)
  next
    case False
    then show ?thesis
      using wheel_put_here [OF inv v(1,3) Suc.prems(1) Suc.prems(2) [OF order_refl] Suc.prems(3) [OF lessI]]
        Suc.prems(5,6) by simp
  qed
qed


section \<open>A tick\<close>

text \<open>The tasks that level \<open>k + 1\<close> hands down at tick \<open>now\<close>.\<close>
definition handed :: "nat \<Rightarrow> int \<Rightarrow> (nat \<Rightarrow> int option) \<Rightarrow> TimingWheel \<Rightarrow> nat \<Rightarrow> bool" where
  "handed k now A tw v =
     (slot_of (task_at tw v) = Some (Suc k, cur (wheel_at tw (Suc k))) \<and> 0 \<le> offset (task_at tw v) \<and>
      offset (task_at tw v) < int (slen tw) ^ (k + 1) \<and> A v = Some (now + offset (task_at tw v)))"

lemma hand_down_inv:
  assumes "tinv c now X A tw" "set vs = X" "distinct vs" "\<And>v. v \<in> X \<Longrightarrow> handed k now A tw v"
    and "k < depth tw" "\<And>j. j \<le> k \<Longrightarrow> c j * int (slen tw) ^ j = now"
    and "\<And>j. j < k \<Longrightarrow> remain (wheel_at tw j) = int (slen tw) ^ (j + 1)"
  shows "\<exists>tw'. hand_down k vs tw = Ret tw' \<and> tinv c now {} A tw' \<and> frame X tw tw'"
  using assms
proof (induction vs arbitrary: tw X)
  case (Cons v vs)
  define tw1 where "tw1 = slot_remove (Suc k) (cur (wheel_at tw (Suc k))) v tw"
  have vX: "v \<in> X" "v \<notin> set vs" "X - {v} = set vs" using Cons.prems(2,3) by auto
  have h: "handed k now A tw v" by (rule Cons.prems(4) [OF vX(1)])
  have sel: "slen tw1 = slen tw" "depth tw1 = depth tw" "wheel_at tw1 = wheel_at tw" "task_at tw1 = task_at tw"
    by (simp_all add: tw1_def slot_remove_def)
  have f1: "frame {} tw tw1" by (simp add: frame_def tw1_def slot_remove_def)
  have inv1: "tinv c now X A tw1" unfolding tw1_def by (rule remove_inv [OF Cons.prems(1) vX(1)])
  have "v \<notin> set (slot_values tw1 j i)" for j i
  proof
    assume a: "v \<in> set (slot_values tw1 j i)"
    then have "slot_of (task_at tw v) = Some (j, i)" using inv1 by (auto simp: tinv_def slots_ok_def sel)
    then have "(j, i) = (Suc k, cur (wheel_at tw (Suc k)))" using h by (simp add: handed_def)
    then show False using a by (simp add: tw1_def slot_remove_def)
  qed
  with wheel_put_inv [OF inv1 vX(1)] h Cons.prems(5-7) obtain tw2 where
    tw2: "wheel_put k v tw1 = Ret tw2" "tinv c now (set vs) A tw2" "frame {v} tw1 tw2"
    by (auto simp: handed_def sel vX(3))
  have f2: "frame {v} tw tw2" using frame_trans [OF f1 tw2(3)] by simp
  have "handed k now A tw2 u" if "u \<in> set vs" for u
  proof -
    have "handed k now A tw u" "task_at tw2 u = task_at tw u"
      using that vX f2 Cons.prems(2,4) by (auto simp: frame_def)
    then show ?thesis using f2 by (simp add: handed_def frame_def)
  qed
  then obtain tw3 where "hand_down k vs tw2 = Ret tw3" "tinv c now {} A tw3" "frame (set vs) tw2 tw3"
    using Cons.IH [OF tw2(2) refl] Cons.prems(3,5-7) f2 by (auto simp: frame_def)
  moreover have "frame X tw tw3"
    using frame_trans [OF f2 \<open>frame (set vs) tw2 tw3\<close>] Cons.prems(2) by simp
  ultimately show ?case using tw2(1) by (simp add: tw1_def)
qed auto

text \<open>No task waits in the slot a level points to.\<close>
lemma cur_empty:
  assumes "tinv c now {} A tw" "k < depth tw" "0 < k \<or> execq tw = []"
  shows "slot_values tw k (cur (wheel_at tw k)) = []"
proof -
  have "v \<notin> set (slot_values tw k (cur (wheel_at tw k)))" for v
  proof
    assume v: "v \<in> set (slot_values tw k (cur (wheel_at tw k)))"
    then have "placed c A tw k (cur (wheel_at tw k)) v" using assms by (auto simp: tinv_def slots_ok_def)
    then show False using ahead_mod [of c tw k 0] cur_mod [of c tw k] assms
      by (auto simp: placed_def tinv_def tw_struct_def)
  qed
  then show ?thesis by (metis last_in_set)
qed

lemma mod_step:
  fixes a B :: int
  assumes "0 < B" "a mod B \<noteq> 0"
  shows "(a - 1) mod B = a mod B - 1"
proof -
  have "0 \<le> a mod B" "a mod B < B" using assms(1) by simp_all
  with assms(2) have b: "0 \<le> a mod B - 1" "a mod B - 1 < B" by linarith+
  have "(a - 1) mod B = (a mod B - 1) mod B" by (simp add: mod_simps)
  then show ?thesis using b by simp
qed

lemma mod_inc:
  fixes a B :: int
  assumes "0 < B"
  shows "(a + 1) mod B = (if a mod B + 1 = B then 0 else a mod B + 1)"
proof -
  have "0 \<le> a mod B" "a mod B < B" using assms by simp_all
  moreover have "(a + 1) mod B = (a mod B + 1) mod B" by (simp add: mod_simps)
  ultimately show ?thesis by auto
qed

lemma placed_advance:
  assumes p: "placed c A tw j i v" and B: "0 < int (slen tw)" and i: "i < slen tw"
    and ne: "int i \<noteq> (c j + 1) mod int (slen tw)"
    and sel: "slen tw' = slen tw" "task_at tw' = task_at tw"
  shows "placed (c(j := c j + 1)) A tw' j i v"
proof -
  let ?B = "int (slen tw)"
  have m: "(int i - (c j + 1)) mod ?B = (int i - c j) mod ?B - 1"
    using mod_step [OF B, of "int i - c j"] p by (simp add: placed_def algebra_simps)
  have "(int i - (c j + 1)) mod ?B \<noteq> 0"
    using ne i by (metis mod_eq_dvd_iff dvd_eq_mod_eq_0 mod_pos_pos_trivial of_nat_0_le_iff of_nat_less_iff)
  moreover have "due (c(j := c j + 1)) tw' j i v = due c tw j i v" using m by (simp add: due_def sel)
  ultimately show ?thesis using p by (simp add: placed_def sel)
qed

text \<open>When a level moves on, the tasks in the slot it reaches are the ones to hand down.\<close>
lemma advance_inv:
  assumes inv: "tinv c now {} A tw" and j: "j < depth tw" "0 < j \<or> execq tw = []"
  defines "tw' \<equiv> advance j tw" and "X \<equiv> set (slot_values tw j (cur (wheel_at (advance j tw) j)))"
  shows "tinv (c(j := c j + 1)) now X A tw'"
    and "\<And>v. v \<in> X \<Longrightarrow> slot_of (task_at tw v) = Some (j, cur (wheel_at tw' j)) \<and>
      (0 < j \<longrightarrow> 0 \<le> offset (task_at tw v) \<and> offset (task_at tw v) < int (slen tw) ^ j) \<and>
      A v = Some ((c j + 1) * int (slen tw) ^ j + (if j = 0 then 0 else offset (task_at tw v)))"
    and "int (cur (wheel_at tw' j)) = (c j + 1) mod int (slen tw)"
proof -
  let ?B = "int (slen tw)" and ?c = "c(j := c j + 1)"
  have st: "tw_struct c tw" "0 < ?B" using inv by (auto simp: tinv_def tw_struct_def)
  have sel: "slot_values tw' = slot_values tw" "execq tw' = execq tw" "slen tw' = slen tw" "depth tw' = depth tw"
      "next_task tw' = next_task tw" "task_at tw' = task_at tw"
    by (simp_all add: tw'_def advance_def)
  have cj: "int (cur (wheel_at tw j)) = c j mod ?B" "cur (wheel_at tw j) < slen tw" using cur_mod [OF st(1) j(1)] by simp_all
  have step: "(c j + 1) mod ?B = (if c j mod ?B + 1 = ?B then 0 else c j mod ?B + 1)"
    by (rule mod_inc [OF st(2)])
  show cur': "int (cur (wheel_at tw' j)) = (c j + 1) mod ?B"
    using cj step by (auto simp: tw'_def advance_def slot_next_def)
  have st': "tw_struct ?c tw'"
  proof -
    have "wheel_at tw' l = wheel_at tw l" if "l \<noteq> j" for l using that by (simp add: tw'_def advance_def)
    moreover have "slotCap (wheel_at tw' j) = slotCap (wheel_at tw j)" by (simp add: tw'_def advance_def)
    moreover have "cur (wheel_at tw' j) = nat ((c j + 1) mod ?B)" using cur' by (metis nat_int)
    ultimately show ?thesis using st(1) by (auto simp: tw_struct_def sel)
  qed
  have pj: "placed c A tw l i v" if "v \<in> set (slot_values tw l i)" "0 < l \<or> execq tw = []" for l i v
    using that inv by (auto simp: tinv_def slots_ok_def)
  show X: "slot_of (task_at tw v) = Some (j, cur (wheel_at tw' j)) \<and>
      (0 < j \<longrightarrow> 0 \<le> offset (task_at tw v) \<and> offset (task_at tw v) < ?B ^ j) \<and>
      A v = Some ((c j + 1) * ?B ^ j + (if j = 0 then 0 else offset (task_at tw v)))" if "v \<in> X" for v
  proof -
    have v: "v \<in> set (slot_values tw j (cur (wheel_at tw' j)))" using that by (simp add: X_def tw'_def)
    then have p: "placed c A tw j (cur (wheel_at tw' j)) v" using pj j(2) by blast
    then have ne: "((c j + 1) mod ?B - c j) mod ?B \<noteq> 0" by (simp add: placed_def cur')
    have "((c j + 1) mod ?B - c j) mod ?B = 1 mod ?B" by (simp add: mod_diff_left_eq)
    with ne st(2) have "((c j + 1) mod ?B - c j) mod ?B = 1" by (cases "slen tw = 1") auto
    then show ?thesis using p v inv by (auto simp: placed_def due_def cur' tinv_def slots_ok_def)
  qed
  have keep: "placed ?c A tw' l i v"
    if v: "v \<in> set (slot_values tw l i)" "v \<notin> set (execq tw)" "v \<notin> X" for l i v
  proof (cases "l = j")
    case True
    have p: "placed c A tw j i v" and i: "i < slen tw" using v inv True by (auto simp: tinv_def slots_ok_def)
    have "i \<noteq> cur (wheel_at tw' j)" using v True by (auto simp: X_def tw'_def)
    then have ne: "int i \<noteq> (c j + 1) mod ?B" using cur' by auto
    show ?thesis using placed_advance [OF p st(2) i ne, of tw'] True by (simp add: sel)
  next
    case False
    then show ?thesis using v inv by (auto simp: tinv_def slots_ok_def placed_def due_def sel)
  qed
  have "j = 0" if "v \<in> X" "v \<in> set (execq tw)" for v
    using that inv unfolding X_def tinv_def slots_ok_def by blast
  then have "X \<inter> set (execq tw) = {}" using j(2) by auto
  then show "tinv ?c now X A tw'"
    using inv st' keep by (auto simp: tinv_def slots_ok_def sel)
qed


text \<open>\<open>wheel.tick\<close> only counts the remaining ticks of the levels.\<close>

lemma wheel_tick_sel:
  "depth (wheel_tick k tw) = depth tw \<and> slen (wheel_tick k tw) = slen tw \<and>
   slot_values (wheel_tick k tw) = slot_values tw \<and> task_at (wheel_tick k tw) = task_at tw \<and>
   next_task (wheel_tick k tw) = next_task tw \<and> execq (wheel_tick k tw) = execq tw \<and>
   fired (wheel_tick k tw) = fired tw \<and> callbacks (wheel_tick k tw) = callbacks tw \<and>
   interval (wheel_tick k tw) = interval tw \<and> maxTimeout (wheel_tick k tw) = maxTimeout tw"
proof (induction k tw rule: wheel_tick.induct)
  case (1 k tw)
  then show ?case by (subst (1 2 3 4 5 6 7 8 9 10) wheel_tick.simps) (simp add: Let_def)
qed

lemma wheel_tick_wheel:
  "wheel_at (wheel_tick k tw) j =
     (if k \<le> j \<and> j + 1 < depth tw
      then (wheel_at tw j)\<lparr>remain := (if remain (wheel_at tw j) - 1 \<le> 0 then slotCap (wheel_at tw j) * int (slen tw)
              else remain (wheel_at tw j) - 1)\<rparr>
      else wheel_at tw j)"
proof (induction k tw arbitrary: j rule: wheel_tick.induct)
  case (1 k tw)
  then show ?case by (cases "j = k"; subst wheel_tick.simps) (auto simp: Let_def)
qed

text \<open>What the inner levels have left when tick \<open>p\<close> is over.\<close>
definition rem_ok :: "int \<Rightarrow> TimingWheel \<Rightarrow> bool" where
  "rem_ok p tw =
     (\<forall>j. j + 1 < depth tw \<longrightarrow>
        remain (wheel_at tw j) =
          (if p < 0 then 0 else int (slen tw) ^ (j + 1) - p mod int (slen tw) ^ (j + 1)))"

lemma tick_rem_ok:
  assumes "tw_struct c tw" "rem_ok p tw" "-1 \<le> p"
  shows "rem_ok (p + 1) (wheel_tick 0 tw)"
proof -
  have "(if remain (wheel_at tw j) - 1 \<le> 0 then slotCap (wheel_at tw j) * int (slen tw)
          else remain (wheel_at tw j) - 1) = int (slen tw) ^ (j + 1) - (p + 1) mod int (slen tw) ^ (j + 1)"
    if j: "j + 1 < depth tw" for j
  proof -
    define n where "n = int (slen tw) ^ (j + 1)"
    have n: "0 < n" "slotCap (wheel_at tw j) * int (slen tw) = n"
      using assms(1) j by (auto simp: tw_struct_def n_def)
    show ?thesis
    proof (cases "p = -1")
      case True
      then show ?thesis unfolding n_def [symmetric] using assms(2) j n by (simp add: rem_ok_def)
    next
      case False
      have "remain (wheel_at tw j) = n - p mod n" using assms(2,3) j False by (auto simp: rem_ok_def n_def)
      moreover have "0 \<le> p mod n" "p mod n < n" using n(1) by simp_all
      ultimately show ?thesis unfolding n_def [symmetric] using mod_inc [OF n(1), of p] n(2) by auto
    qed
  qed
  then show ?thesis using assms(3) by (simp add: rem_ok_def wheel_tick_sel wheel_tick_wheel)
qed

lemma tick_inv: "tinv c now X A tw \<Longrightarrow> tinv c now X A (wheel_tick 0 tw)"
proof -
  have "placed c A (wheel_tick 0 tw) = placed c A tw"
    by (intro ext) (simp add: placed_def due_def wheel_tick_sel)
  then show "tinv c now X A tw \<Longrightarrow> ?thesis"
    by (simp add: tinv_def slots_ok_def tw_struct_def wheel_tick_sel wheel_tick_wheel)
qed

lemma call_all_inv:
  assumes "tinv c now X A tw" "set vs = X" "distinct vs"
    and "\<And>v. v \<in> X \<Longrightarrow> slot_of (task_at tw v) = Some (0, i) \<and> A v = Some now"
  shows "tinv c now {} A (foldl (\<lambda>s v. Task_call v s) tw vs) \<and>
    frame {} tw (foldl (\<lambda>s v. Task_call v s) tw vs)"
  using assms
proof (induction vs arbitrary: tw X)
  case (Cons v vs)
  have vX: "v \<in> X" "X - {v} = set vs" using Cons.prems(2,3) by auto
  have "j = 0" if "v \<in> set (slot_values tw j l)" for j l
  proof -
    have "slot_of (task_at tw v) = Some (j, l)" using that Cons.prems(1) unfolding tinv_def slots_ok_def by blast
    then show ?thesis using Cons.prems(4) [OF vX(1)] by simp
  qed
  then have c: "tinv c now (set vs) A (Task_call v tw)" "frame {} tw (Task_call v tw)"
    using call_inv [OF Cons.prems(1) vX(1)] Cons.prems(4) [OF vX(1)] vX(2) by auto
  have "slot_of (task_at (Task_call v tw) u) = Some (0, i) \<and> A u = Some now" if "u \<in> set vs" for u
    using Cons.prems(4) [of u] Cons.prems(2) that c(2) by (auto simp: frame_def)
  from Cons.IH [OF c(1) refl _ this] Cons.prems(3) c(2) show ?case
    using frame_trans [of "{}" tw "Task_call v tw" "{}"] by simp
qed simp


text \<open>What no operation of the ticker changes.\<close>
definition same_wheel :: "TimingWheel \<Rightarrow> TimingWheel \<Rightarrow> bool" where
  "same_wheel tw tw' =
     (depth tw' = depth tw \<and> slen tw' = slen tw \<and> next_task tw' = next_task tw \<and> fired tw' = fired tw \<and>
      callbacks tw' = callbacks tw \<and> interval tw' = interval tw \<and> maxTimeout tw' = maxTimeout tw)"

lemma frame_same: "frame V tw tw' \<Longrightarrow> same_wheel tw tw'"
  by (simp add: frame_def same_wheel_def)

lemma frame_rem_ok: "frame V tw tw' \<Longrightarrow> rem_ok p tw \<Longrightarrow> rem_ok p tw'"
  by (simp add: frame_def rem_ok_def)

lemma advance_rem_ok: "rem_ok p tw \<Longrightarrow> rem_ok p (advance j tw)"
  by (simp add: rem_ok_def advance_def)

lemma advance_same: "same_wheel tw (advance j tw)"
  by (simp add: same_wheel_def advance_def)

lemma same_trans: "same_wheel a b \<Longrightarrow> same_wheel b d \<Longrightarrow> same_wheel a d"
  by (simp add: same_wheel_def)

lemma div_inc:
  fixes p n :: int
  assumes "0 < n"
  shows "(p + 1) div n = (if (p + 1) mod n = 0 then p div n + 1 else p div n)"
proof -
  have "n * ((p + 1) div n) = p + 1 - (p + 1) mod n" "n * (p div n) = p - p mod n"
    by (simp_all add: minus_mod_eq_mult_div)
  moreover have "0 \<le> p mod n" "p mod n < n" using assms by simp_all
  ultimately have "n * ((p + 1) div n) = n * (if (p + 1) mod n = 0 then p div n + 1 else p div n)"
    using mod_inc [OF assms, of p] by (auto simp: distrib_left)
  then show ?thesis using assms by simp
qed

text \<open>The counters while level \<open>k\<close> and the levels below have moved to tick \<open>p + 1\<close>.\<close>
definition moved_to :: "int \<Rightarrow> int \<Rightarrow> nat \<Rightarrow> nat \<Rightarrow> int" where
  "moved_to B p k j = (if j \<le> k then (p + 1) div B ^ j else p div B ^ j)"

lemma wheel_move_0:
  assumes inv: "tinv (\<lambda>j. p div int (slen tw) ^ j) (p + 1) {} A tw" "execq tw = []" "rem_ok p tw" "-1 \<le> p"
  shows "\<exists>tw'. wheel_move 0 tw = Ret ((p + 1) mod int (slen tw) ^ (0 + 1) = 0, tw') \<and>
    tinv (moved_to (int (slen tw)) p 0) (p + 1) {} A tw' \<and> rem_ok (p + 1) tw' \<and> same_wheel tw tw'"
proof -
  let ?c = "\<lambda>j. p div int (slen tw) ^ j"
  define tw0 where "tw0 = wheel_tick 0 tw"
  define tw1 where "tw1 = advance 0 tw0"
  define i where "i = cur (wheel_at tw1 0)"
  have d: "0 < depth tw" "tw_struct ?c tw" using inv by (auto simp: tinv_def tw_struct_def)
  have s0: "depth tw0 = depth tw" "slen tw0 = slen tw" "execq tw0 = []"
    using inv(2) by (simp_all add: tw0_def wheel_tick_sel)
  have inv0: "tinv ?c (p + 1) {} A tw0" unfolding tw0_def by (rule tick_inv [OF inv(1)])
  have c1: "?c(0 := ?c 0 + 1) = moved_to (int (slen tw)) p 0"
    by (auto simp: moved_to_def fun_eq_iff)
  have vals: "slot_values tw1 0 i = slot_values tw0 0 i" by (simp add: tw1_def advance_def)
  have adv: "tinv (moved_to (int (slen tw)) p 0) (p + 1) (set (slot_values tw1 0 i)) A tw1"
    using advance_inv(1) [OF inv0, of 0] d s0 c1 vals by (simp add: i_def tw1_def)
  have X: "slot_of (task_at tw1 v) = Some (0, i) \<and> A v = Some (p + 1)" if "v \<in> set (slot_values tw1 0 i)" for v
    using advance_inv(2) [OF inv0, of 0 v] that vals d s0 by (simp add: i_def tw1_def advance_def)
  have dist: "distinct (slot_values tw1 0 i)" using adv by (auto simp: tinv_def slots_ok_def)
  let ?tw' = "foldl (\<lambda>s v. Task_call v s) tw1 (slot_values tw1 0 i)"
  have fin: "tinv (moved_to (int (slen tw)) p 0) (p + 1) {} A ?tw'" "frame {} tw1 ?tw'"
    using call_all_inv [OF adv refl dist X] by blast+
  have "slot_callAndRm 0 i tw1 = ?tw'" by (simp add: slot_callAndRm_def slot_isEmpty_def)
  moreover have "(i = 0) = ((p + 1) mod int (slen tw) ^ (0 + 1) = 0)"
    using advance_inv(3) [OF inv0, of 0] d s0 by (auto simp: i_def tw1_def)
  ultimately have "wheel_move 0 tw = Ret ((p + 1) mod int (slen tw) ^ (0 + 1) = 0, ?tw')"
    by (simp add: i_def tw1_def tw0_def Let_def)
  moreover have "rem_ok (p + 1) ?tw'"
    using frame_rem_ok [OF fin(2)] advance_rem_ok tick_rem_ok [OF d(2) inv(3,4)] by (simp add: tw1_def tw0_def)
  moreover have "same_wheel tw ?tw'"
    using frame_same [OF fin(2)] by (simp add: same_wheel_def tw1_def tw0_def advance_def wheel_tick_sel)
  ultimately show ?thesis using fin(1) by blast
qed

lemma mod_power_carry:
  fixes B x :: int
  assumes B: "0 < B" and x: "x mod B ^ (k + 1) = 0"
  shows "(x div B ^ (k + 1) mod B = 0) = (x mod B ^ (Suc k + 1) = 0)"
proof -
  let ?n = "B ^ (k + 1)"
  have "x mod (?n * B) = ?n * (x div ?n mod B) + x mod ?n" by (rule zmod_zmult2_eq) (use B in simp)
  then have "x mod B ^ (Suc k + 1) = ?n * (x div ?n mod B)" using x by (simp add: ac_simps)
  moreover have "?n \<noteq> 0" using B by simp
  ultimately show ?thesis by (simp only: mult_eq_0_iff) blast
qed

lemma mod_power_le:
  fixes B x :: int
  assumes "x mod B ^ l = 0" "j \<le> l"
  shows "x mod B ^ j = 0"
  using assms le_imp_power_dvd [OF assms(2), of B] by (auto simp: mod_eq_0_iff_dvd intro: dvd_trans)

lemma moved_to_Suc:
  assumes "0 < B" "0 \<le> p + 1"
  shows "(p + 1) mod B ^ (k + 1) \<noteq> 0 \<Longrightarrow> moved_to B p (Suc k) = moved_to B p k"
    and "(p + 1) mod B ^ (k + 1) = 0 \<Longrightarrow>
      (moved_to B p k)(Suc k := moved_to B p k (Suc k) + 1) = moved_to B p (Suc k)"
    and "(p + 1) mod B ^ (k + 1) = 0 \<Longrightarrow> moved_to B p k (Suc k) + 1 = (p + 1) div B ^ (k + 1)"
    and "(p + 1) mod B ^ (k + 1) = 0 \<Longrightarrow> j \<le> k \<Longrightarrow> moved_to B p (Suc k) j * B ^ j = p + 1"
proof -
  have n0: "0 < B ^ (k + 1)" using assms(1) by simp
  show "(p + 1) mod B ^ (k + 1) \<noteq> 0 \<Longrightarrow> moved_to B p (Suc k) = moved_to B p k"
    using div_inc [OF n0, of p] by (auto simp: moved_to_def fun_eq_iff le_Suc_eq)
  show c: "moved_to B p k (Suc k) + 1 = (p + 1) div B ^ (k + 1)" if "(p + 1) mod B ^ (k + 1) = 0"
    using div_inc [OF n0, of p] that by (simp add: moved_to_def)
  show "(p + 1) mod B ^ (k + 1) = 0 \<Longrightarrow>
      (moved_to B p k)(Suc k := moved_to B p k (Suc k) + 1) = moved_to B p (Suc k)"
    using c by (auto simp: moved_to_def fun_eq_iff le_Suc_eq)
  show "(p + 1) mod B ^ (k + 1) = 0 \<Longrightarrow> j \<le> k \<Longrightarrow> moved_to B p (Suc k) j * B ^ j = p + 1"
    using mod_power_le [of "p + 1" B "k + 1" j] by (auto simp: moved_to_def mod_eq_0_iff_dvd)
qed

text \<open>The carry: when the levels up to \<open>k\<close> are back at slot 0, level \<open>k + 1\<close> moves and hands its slot down.\<close>
lemma wheel_move_carry:
  assumes inv: "tinv (moved_to (int (slen tw)) p k) (p + 1) {} A tw" "rem_ok (p + 1) tw" "-1 \<le> p"
    and k: "Suc k < depth tw" and z: "(p + 1) mod int (slen tw) ^ (k + 1) = 0"
  defines "tw3 \<equiv> advance (Suc k) tw"
  defines "vs \<equiv> slot_valueArray (Suc k) (cur (wheel_at tw3 (Suc k))) tw3"
  shows "\<exists>tw4. hand_down k vs tw3 = Ret tw4 \<and> frame (set vs) tw3 tw4 \<and>
    tinv (moved_to (int (slen tw)) p (Suc k)) (p + 1) {} A tw4 \<and> rem_ok (p + 1) tw4 \<and>
    (cur (wheel_at tw4 (Suc k)) = 0) = ((p + 1) mod int (slen tw) ^ (Suc k + 1) = 0)"
proof -
  let ?B = "int (slen tw)"
  have B: "0 < ?B" using inv(1) by (auto simp: tinv_def tw_struct_def)
  have p: "0 \<le> p + 1" using inv(3) by simp
  note mv = moved_to_Suc [OF B p]
  have vs: "vs = slot_values tw (Suc k) (cur (wheel_at (advance (Suc k) tw) (Suc k)))"
    by (simp add: vs_def tw3_def slot_valueArray_def advance_def)
  have d3: "depth tw3 = depth tw" "slen tw3 = slen tw" "task_at tw3 = task_at tw"
    by (simp_all add: tw3_def advance_def)
  note adv = advance_inv [OF inv(1) k, simplified, folded tw3_def, unfolded mv(2) [OF z]]
  have inv3: "tinv (moved_to ?B p (Suc k)) (p + 1) (set vs) A tw3"
    using adv(1) by (simp add: vs tw3_def)
  have q: "(p + 1) div ?B ^ (k + 1) * ?B ^ (k + 1) = p + 1"
    using z div_mult_mod_eq [of "p + 1" "?B ^ (k + 1)"] by linarith
  have "handed k (p + 1) A tw3 v" if "v \<in> set vs" for v
    using adv(2) [of v] that mv(3) [OF z] q by (auto simp: handed_def vs tw3_def [symmetric] d3)
  moreover have "distinct vs" using inv(1) by (auto simp: vs tinv_def slots_ok_def)
  moreover have r3: "rem_ok (p + 1) tw3" unfolding tw3_def by (rule advance_rem_ok [OF inv(2)])
  moreover have "remain (wheel_at tw3 j) = ?B ^ (j + 1)" if "j < k" for j
    using r3 that k inv(3) mod_power_le [OF z, of "j + 1"] by (simp add: rem_ok_def d3)
  moreover have "moved_to ?B p (Suc k) j * ?B ^ j = p + 1" if "j \<le> k" for j
    by (rule mv(4) [OF z that])
  ultimately obtain tw4 where tw4: "hand_down k vs tw3 = Ret tw4" "frame (set vs) tw3 tw4"
      "tinv (moved_to ?B p (Suc k)) (p + 1) {} A tw4"
    using hand_down_inv [OF inv3 refl, of k] k by (auto simp: d3)
  have "int (cur (wheel_at tw4 (Suc k))) = (p + 1) div ?B ^ (k + 1) mod ?B"
    using adv(3) tw4(2) mv(3) [OF z] by (simp add: frame_def)
  then have "(cur (wheel_at tw4 (Suc k)) = 0) = ((p + 1) div ?B ^ (k + 1) mod ?B = 0)"
    by (metis of_nat_eq_0_iff)
  then have fin: "(cur (wheel_at tw4 (Suc k)) = 0) = ((p + 1) mod ?B ^ (Suc k + 1) = 0)"
    by (rule trans [OF _ mod_power_carry [OF B z]])
  show ?thesis by (rule exI [of _ tw4]) (intro conjI tw4 frame_rem_ok [OF tw4(2) r3] fin)
qed

lemma wheel_move_inv:
  assumes inv: "tinv (\<lambda>j. p div int (slen tw) ^ j) (p + 1) {} A tw" "execq tw = []" "rem_ok p tw" "-1 \<le> p"
    and "k < depth tw"
  shows "\<exists>tw'. wheel_move k tw = Ret ((p + 1) mod int (slen tw) ^ (k + 1) = 0, tw') \<and>
    tinv (moved_to (int (slen tw)) p k) (p + 1) {} A tw' \<and> rem_ok (p + 1) tw' \<and> same_wheel tw tw'"
  using assms(5)
proof (induction k)
  case 0
  then show ?case using wheel_move_0 [OF inv] by blast
next
  case (Suc k)
  let ?B = "int (slen tw)"
  have B: "0 < ?B" using inv(1) by (auto simp: tinv_def tw_struct_def)
  have p: "0 \<le> p + 1" using inv(4) by simp
  have pre: "slot_valueArray (Suc k) (cur (wheel_at tw (Suc k))) tw = []"
    using cur_empty [OF inv(1) Suc.prems] by (simp add: slot_valueArray_def)
  obtain tw2 where tw2: "wheel_move k tw = Ret ((p + 1) mod ?B ^ (k + 1) = 0, tw2)"
      "tinv (moved_to ?B p k) (p + 1) {} A tw2" "rem_ok (p + 1) tw2" "same_wheel tw tw2"
    using Suc.IH Suc.prems by auto
  have s2: "slen tw2 = slen tw" "depth tw2 = depth tw" using tw2(4) by (simp_all add: same_wheel_def)
  show ?case
  proof (cases "(p + 1) mod ?B ^ (k + 1) = 0")
    case False
    then have "(p + 1) mod ?B ^ (Suc k + 1) \<noteq> 0" using mod_power_le [of "p + 1" ?B "Suc k + 1" "k + 1"] by auto
    then show ?thesis using tw2 pre False moved_to_Suc(1) [OF B p False] by simp
  next
    case True
    let ?tw3 = "advance (Suc k) tw2"
    let ?vs = "slot_valueArray (Suc k) (cur (wheel_at ?tw3 (Suc k))) ?tw3"
    obtain tw4 where tw4: "hand_down k ?vs ?tw3 = Ret tw4" "frame (set ?vs) ?tw3 tw4"
        "tinv (moved_to ?B p (Suc k)) (p + 1) {} A tw4" "rem_ok (p + 1) tw4"
        "(cur (wheel_at tw4 (Suc k)) = 0) = ((p + 1) mod ?B ^ (Suc k + 1) = 0)"
      using wheel_move_carry [of tw2 p k A, unfolded s2, OF tw2(2,3) inv(4) Suc.prems True] by (elim exE conjE)
    have "wheel_move (Suc k) tw = Ret ((p + 1) mod ?B ^ (Suc k + 1) = 0, tw4)"
      using pre tw2(1) True tw4(1,5) by (simp add: Let_def)
    moreover have "same_wheel tw tw4"
      using same_trans [OF same_trans [OF tw2(4) advance_same] frame_same] tw4(2) by simp
    ultimately show ?thesis using tw4(3,4) by blast
  qed
qed


section \<open>Refinement of the specification\<close>

text \<open>
  \<open>timers p A tw\<close>: between two ticks, after \<open>p + 1\<close> of them, the wheel \<open>tw\<close> represents the pending
  tasks \<open>A\<close>.
\<close>
definition timers :: "int \<Rightarrow> (nat \<Rightarrow> int option) \<Rightarrow> TimingWheel \<Rightarrow> bool" where
  "timers p A tw =
     (-1 \<le> p \<and> tinv (\<lambda>j. p div int (slen tw) ^ j) (p + 1) {} A tw \<and> execq tw = [] \<and> rem_ok p tw \<and>
      distinct (fired tw) \<and> (\<forall>v \<in> set (fired tw). v < next_task tw \<and> A v = None))"

lemma timers_New:
  assumes "0 < wheels" "0 < slots"
  shows "timers (-1) (\<lambda>_. None) (NewTimingWheel intv wheels slots)"
proof -
  have "(-1) mod int slots = int slots - 1" using assms(2) by (simp add: zmod_minus1)
  then have "nat ((-1) div int slots ^ j mod int slots) = slots - 1" for j
    using assms(2) by (simp add: div_eq_minus1 nat_diff_distrib)
  moreover have "int (slots ^ (j + 1)) div int slots = int slots ^ j" for j using assms(2) by simp
  ultimately show ?thesis
    using assms
    by (auto simp: timers_def NewTimingWheel_def tinv_def tw_struct_def slots_ok_def rem_ok_def newWheel_def Let_def)
qed

text \<open>A task in a slot is due after the current tick.\<close>
lemma placed_later:
  assumes pl: "placed (\<lambda>j. p div int (slen tw) ^ j) A tw j i v" and "0 < slen tw" "A v = Some D"
  shows "p < D"
proof -
  let ?B = "int (slen tw)" and ?q = "p div int (slen tw) ^ j"
  define m where "m = (int i - ?q) mod ?B"
  have B: "0 < ?B ^ j" using assms(2) by simp
  have "0 \<le> m" "m \<noteq> 0" using pl assms(2) by (simp_all add: placed_def m_def)
  then have m: "1 \<le> m" by linarith
  have "D \<ge> (?q + m) * ?B ^ j" using pl assms(3) by (auto simp: placed_def due_def m_def [symmetric])
  moreover have "(?q + m) * ?B ^ j \<ge> (?q + 1) * ?B ^ j" using m B by simp
  moreover have "(?q + 1) * ?B ^ j > p"
    using pos_mod_bound [OF B, of p] div_mult_mod_eq [of p "?B ^ j"] by (simp only: distrib_right)
  ultimately show ?thesis by linarith
qed

lemma pending_later:
  assumes "timers p A tw" "A v = Some D"
  shows "p < D"
proof -
  have inv: "tinv (\<lambda>j. p div int (slen tw) ^ j) (p + 1) {} A tw" "execq tw = []"
    using assms(1) by (simp_all add: timers_def)
  then obtain j i where v: "v \<in> set (slot_values tw j i)" using assms(2) by (auto simp: tinv_def)
  then have "placed (\<lambda>j. p div int (slen tw) ^ j) A tw j i v" using inv by (auto simp: tinv_def slots_ok_def)
  then show ?thesis using placed_later inv(1) assms(2) by (auto simp: tinv_def tw_struct_def)
qed

text \<open>Only the counters of the levels matter.\<close>
lemma tinv_cong:
  assumes "tinv c now X A tw" "\<And>j. j < depth tw \<Longrightarrow> c j = c' j"
  shows "tinv c' now X A tw"
proof -
  have "placed c' A tw j i v" if "placed c A tw j i v" "j < depth tw" for j i v
    using that assms(2) [OF that(2)] by (simp add: placed_def due_def)
  then have "slots_ok c' X A tw" using assms(1) unfolding tinv_def slots_ok_def by blast
  moreover have "tw_struct c' tw" using assms by (simp add: tinv_def tw_struct_def)
  ultimately show ?thesis using assms(1) by (simp add: tinv_def)
qed

lemma onTicker_timers:
  assumes t: "timers p A tw"
  shows "\<exists>tw'. onTicker tw = Ret tw' \<and> same_wheel tw tw' \<and> rem_ok (p + 1) tw' \<and>
    tinv (\<lambda>j. (p + 1) div int (slen tw) ^ j) (p + 1) {} A tw' \<and> set (execq tw') = {v. A v = Some (p + 1)}"
proof -
  let ?B = "int (slen tw)"
  have inv: "tinv (\<lambda>j. p div ?B ^ j) (p + 1) {} A tw" "execq tw = []" "rem_ok p tw" "-1 \<le> p"
    using t by (simp_all add: timers_def)
  have d: "depth tw - 1 < depth tw" using inv(1) by (auto simp: tinv_def tw_struct_def)
  obtain tw' where w: "wheel_move (depth tw - 1) tw = Ret ((p + 1) mod ?B ^ (depth tw - 1 + 1) = 0, tw')"
      "tinv (moved_to ?B p (depth tw - 1)) (p + 1) {} A tw'" "rem_ok (p + 1) tw'" "same_wheel tw tw'"
    using wheel_move_inv [OF inv d] by blast
  have s: "slen tw' = slen tw" "depth tw' = depth tw" using w(4) by (simp_all add: same_wheel_def)
  have inv': "tinv (\<lambda>j. (p + 1) div ?B ^ j) (p + 1) {} A tw'"
    by (rule tinv_cong [OF w(2)]) (simp add: moved_to_def s)
  have "v \<in> set (execq tw')" if "A v = Some (p + 1)" for v
  proof (rule ccontr)
    assume q: "v \<notin> set (execq tw')"
    with inv' that obtain j i where "v \<in> set (slot_values tw' j i)" by (auto simp: tinv_def)
    with q inv' have "placed (\<lambda>j. (p + 1) div int (slen tw') ^ j) A tw' j i v"
      by (auto simp: tinv_def slots_ok_def s)
    then show False using placed_later [of "p + 1" tw' A j i v "p + 1"] inv' that
      by (auto simp: tinv_def tw_struct_def)
  qed
  moreover have "A v = Some (p + 1)" if "v \<in> set (execq tw')" for v using inv' that by (auto simp: tinv_def)
  ultimately show ?thesis using w inv' by (auto simp: onTicker_def)
qed


text \<open>Cancelling a task, or running it, takes it out of its slot.\<close>

lemma Task_Cancel_sel [simp]:
  "depth (Task_Cancel v tw) = depth tw" "slen (Task_Cancel v tw) = slen tw"
  "wheel_at (Task_Cancel v tw) = wheel_at tw" "next_task (Task_Cancel v tw) = next_task tw"
  "execq (Task_Cancel v tw) = execq tw" "fired (Task_Cancel v tw) = fired tw"
  "callbacks (Task_Cancel v tw) = callbacks tw"
  "interval (Task_Cancel v tw) = interval tw" "maxTimeout (Task_Cancel v tw) = maxTimeout tw"
  by (auto simp: Task_Cancel_def slot_remove_def Let_def split: option.splits)

lemma Task_Cancel_task:
  "task_at (Task_Cancel v tw) u = (if u = v then (task_at tw v)\<lparr>slot_of := None\<rparr> else task_at tw u)"
  by (auto simp: Task_Cancel_def slot_remove_def Let_def split: option.splits)

lemma Task_Cancel_values:
  assumes "\<And>j i. v \<in> set (slot_values tw j i) \<Longrightarrow> slot_of (task_at tw v) = Some (j, i)"
    and "\<And>j i. distinct (slot_values tw j i)"
  shows "slot_values (Task_Cancel v tw) j i = filter (\<lambda>x. x \<noteq> v) (slot_values tw j i)"
proof -
  have "filter (\<lambda>x. x \<noteq> v) (slot_values tw j i) = slot_values tw j i" if "slot_of (task_at tw v) \<noteq> Some (j, i)"
    using assms(1) [of j i] that by (auto simp: filter_id_conv)
  then show ?thesis
    by (auto simp: Task_Cancel_def slot_remove_def Let_def split: option.splits)
qed

text \<open>The invariant between ticks with the tasks \<open>Q\<close> still to run.\<close>
lemma drop_inv:
  fixes v :: nat
  assumes "tw_struct c tw" "slots_ok c Q A tw" "execq tw = []"
    and "\<forall>u. A u \<noteq> None \<longrightarrow> u \<in> Q \<or> (\<exists>j i. u \<in> set (slot_values tw j i))"
    and "\<forall>u. A u \<noteq> None \<longrightarrow> u < next_task tw"
  defines "tw' \<equiv> Task_Cancel v tw"
  shows "tw_struct c tw'" "slots_ok c (Q - {v}) (A(v := None)) tw'" "execq tw' = []"
    "\<And>u. (A(v := None)) u \<noteq> None \<Longrightarrow> u \<in> Q - {v} \<or> (\<exists>j i. u \<in> set (slot_values tw' j i))"
    "\<And>u. (A(v := None)) u \<noteq> None \<Longrightarrow> u < next_task tw'"
proof -
  have "\<And>j i. v \<in> set (slot_values tw j i) \<Longrightarrow> slot_of (task_at tw v) = Some (j, i)"
    using assms(2) by (auto simp: slots_ok_def)
  moreover have "\<And>j i. distinct (slot_values tw j i)" using assms(2) by (auto simp: slots_ok_def)
  ultimately have vals: "slot_values tw' j i = filter (\<lambda>x. x \<noteq> v) (slot_values tw j i)" for j i
    unfolding tw'_def by (rule Task_Cancel_values)
  have "placed c (A(v := None)) tw' j i u" if "placed c A tw j i u" "u \<noteq> v" for j i u
    using that by (simp add: placed_def due_def tw'_def Task_Cancel_task)
  then show "slots_ok c (Q - {v}) (A(v := None)) tw'"
    using assms(2,3) by (auto simp: slots_ok_def vals) (simp_all add: tw'_def Task_Cancel_task)
  show "tw_struct c tw'" using assms(1) by (simp add: tw_struct_def tw'_def)
  show "execq tw' = []" using assms(3) by (simp add: tw'_def)
  show "u \<in> Q - {v} \<or> (\<exists>j i. u \<in> set (slot_values tw' j i))" if "(A(v := None)) u \<noteq> None" for u
    using that assms(4) by (auto simp: vals split: if_splits)
  show "u < next_task tw'" if "(A(v := None)) u \<noteq> None" for u
    using that assms(5) by (auto simp: tw'_def split: if_splits)
qed

text \<open>The invariant does not look at the log.\<close>
lemma inv_log [simp]:
  "tw_struct c (tw\<lparr>fired := f\<rparr>) = tw_struct c tw" "tw_struct c (tw\<lparr>callbacks := b\<rparr>) = tw_struct c tw"
  "slots_ok c X A (tw\<lparr>fired := f\<rparr>) = slots_ok c X A tw" "slots_ok c X A (tw\<lparr>callbacks := b\<rparr>) = slots_ok c X A tw"
  by (simp_all add: tw_struct_def slots_ok_def placed_def due_def)

lemma exec_task_log:
  "\<exists>b. exec_task v tw = (Task_Cancel v tw)\<lparr>callbacks := b, fired := fired tw @ [v]\<rparr>"
proof (cases "fn (task_at (Task_Cancel v tw) v)")
  case None
  then show ?thesis by (intro exI [of _ "callbacks tw"]) (simp add: exec_task_def Let_def)
next
  case (Some f)
  then show ?thesis by (auto simp: exec_task_def Let_def)
qed

lemma run_tasks_inv:
  assumes "tw_struct c tw" "slots_ok c (set vs) A tw" "execq tw = []"
    and "\<forall>u. A u \<noteq> None \<longrightarrow> u \<in> set vs \<or> (\<exists>j i. u \<in> set (slot_values tw j i))"
    and "\<forall>u. A u \<noteq> None \<longrightarrow> u < next_task tw" "distinct vs"
  defines "tw' \<equiv> foldl (\<lambda>s v. exec_task v s) tw vs"
  shows "tw_struct c tw' \<and> slots_ok c {} (\<lambda>u. if u \<in> set vs then None else A u) tw' \<and> execq tw' = [] \<and>
    (\<forall>u. u \<notin> set vs \<longrightarrow> A u \<noteq> None \<longrightarrow> (\<exists>j i. u \<in> set (slot_values tw' j i))) \<and>
    next_task tw' = next_task tw \<and> fired tw' = fired tw @ vs \<and> wheel_at tw' = wheel_at tw \<and>
    depth tw' = depth tw \<and> slen tw' = slen tw \<and> interval tw' = interval tw \<and> maxTimeout tw' = maxTimeout tw"
  using assms(1-6) unfolding tw'_def
proof (induction vs arbitrary: tw A)
  case (Cons v vs)
  define tw1 where "tw1 = exec_task v tw"
  obtain b where tw1: "tw1 = (Task_Cancel v tw)\<lparr>callbacks := b, fired := fired tw @ [v]\<rparr>"
    using exec_task_log unfolding tw1_def by blast
  note d = drop_inv [OF Cons.prems(1-5), of v]
  have v: "set (v # vs) - {v} = set vs" using Cons.prems(6) by auto
  have "tw_struct c tw1" "slots_ok c (set vs) (A(v := None)) tw1" "execq tw1 = []"
    using d(1-3) v by (simp_all add: tw1)
  moreover have "\<forall>u. (A(v := None)) u \<noteq> None \<longrightarrow> u \<in> set vs \<or> (\<exists>j i. u \<in> set (slot_values tw1 j i))"
    using d(4) unfolding v by (simp add: tw1)
  moreover have "\<forall>u. (A(v := None)) u \<noteq> None \<longrightarrow> u < next_task tw1"
    using d(5) by (simp add: tw1)
  moreover have "distinct vs" using Cons.prems(6) by simp
  ultimately have ih: "tw_struct c (foldl (\<lambda>s v. exec_task v s) tw1 vs) \<and>
      slots_ok c {} (\<lambda>u. if u \<in> set vs then None else (A(v := None)) u) (foldl (\<lambda>s v. exec_task v s) tw1 vs) \<and>
      execq (foldl (\<lambda>s v. exec_task v s) tw1 vs) = [] \<and>
      (\<forall>u. u \<notin> set vs \<longrightarrow> (A(v := None)) u \<noteq> None \<longrightarrow>
        (\<exists>j i. u \<in> set (slot_values (foldl (\<lambda>s v. exec_task v s) tw1 vs) j i))) \<and>
      next_task (foldl (\<lambda>s v. exec_task v s) tw1 vs) = next_task tw1 \<and>
      fired (foldl (\<lambda>s v. exec_task v s) tw1 vs) = fired tw1 @ vs \<and>
      wheel_at (foldl (\<lambda>s v. exec_task v s) tw1 vs) = wheel_at tw1 \<and>
      depth (foldl (\<lambda>s v. exec_task v s) tw1 vs) = depth tw1 \<and>
      slen (foldl (\<lambda>s v. exec_task v s) tw1 vs) = slen tw1 \<and>
      interval (foldl (\<lambda>s v. exec_task v s) tw1 vs) = interval tw1 \<and>
      maxTimeout (foldl (\<lambda>s v. exec_task v s) tw1 vs) = maxTimeout tw1"
    by (rule Cons.IH)
  have A: "(\<lambda>u. if u \<in> set vs then None else (A(v := None)) u) = (\<lambda>u. if u \<in> set (v # vs) then None else A u)"
    by auto
  show ?case using ih unfolding A by (auto simp: tw1_def [symmetric]) (auto simp: tw1)
qed simp


lemma tick_timers:
  assumes t: "timers p A tw"
  shows "\<exists>tw' vs. tick_and_run tw = Ret tw' \<and> timers (p + 1) (\<lambda>v. if A v = Some (p + 1) then None else A v) tw' \<and>
    fired tw' = fired tw @ vs \<and> distinct vs \<and> set vs = {v. A v = Some (p + 1)} \<and> next_task tw' = next_task tw \<and>
    slen tw' = slen tw \<and> depth tw' = depth tw \<and> interval tw' = interval tw \<and> maxTimeout tw' = maxTimeout tw"
proof -
  let ?c = "\<lambda>j. (p + 1) div int (slen tw) ^ j"
  obtain tw1 where w: "onTicker tw = Ret tw1" "same_wheel tw tw1" "rem_ok (p + 1) tw1"
      "tinv ?c (p + 1) {} A tw1" "set (execq tw1) = {v. A v = Some (p + 1)}"
    using onTicker_timers [OF t] by blast
  define tw2 where "tw2 = tw1\<lparr>execq := []\<rparr>"
  let ?vs = "execq tw1" and ?A = "\<lambda>v. if A v = Some (p + 1) then None else A v"
  define tw3 where "tw3 = foldl (\<lambda>s v. exec_task v s) tw2 ?vs"
  have A: "(\<lambda>u. if u \<in> set ?vs then None else A u) = ?A" using w(5) by auto
  have d: "distinct ?vs" using w(4) by (simp add: tinv_def)
  have "tw_struct ?c tw2" "slots_ok ?c (set ?vs) A tw2" "execq tw2 = []"
    using w(4) by (auto simp: tinv_def tw2_def tw_struct_def slots_ok_def)
  moreover have "\<forall>u. A u \<noteq> None \<longrightarrow> u \<in> set ?vs \<or> (\<exists>j i. u \<in> set (slot_values tw2 j i))"
    using w(4) by (simp add: tinv_def tw2_def)
  moreover have "\<forall>u. A u \<noteq> None \<longrightarrow> u < next_task tw2" using w(4) by (simp add: tinv_def tw2_def)
  ultimately have r: "tw_struct ?c tw3" "slots_ok ?c {} ?A tw3" "execq tw3 = []"
      "\<forall>u. u \<notin> set ?vs \<longrightarrow> A u \<noteq> None \<longrightarrow> (\<exists>j i. u \<in> set (slot_values tw3 j i))"
      "next_task tw3 = next_task tw2" "fired tw3 = fired tw2 @ ?vs" "wheel_at tw3 = wheel_at tw2"
      "depth tw3 = depth tw2" "slen tw3 = slen tw2" "interval tw3 = interval tw2" "maxTimeout tw3 = maxTimeout tw2"
    using run_tasks_inv [of ?c tw2 ?vs A] d unfolding A tw3_def [symmetric] by simp_all
  have s: "slen tw3 = slen tw" "depth tw3 = depth tw" "next_task tw3 = next_task tw" "fired tw3 = fired tw @ ?vs"
      "interval tw3 = interval tw" "maxTimeout tw3 = maxTimeout tw"
    using r w(2) by (simp_all add: tw2_def same_wheel_def)
  have lt: "\<forall>u. A u \<noteq> None \<longrightarrow> u < next_task tw" using w(2,4) by (simp add: tinv_def same_wheel_def)
  have "tinv ?c (p + 1 + 1) {} ?A tw3" using r(1-4) w(5) lt by (auto simp: tinv_def s)
  moreover have "rem_ok (p + 1) tw3" using w(3) r by (simp add: rem_ok_def tw2_def)
  moreover have "distinct (fired tw3)" "\<forall>v \<in> set (fired tw3). v < next_task tw3 \<and> ?A v = None"
    using t d w(5) lt by (auto simp: timers_def s)
  ultimately have "timers (p + 1) ?A tw3" using t r(3) by (auto simp: timers_def s)
  moreover have "tick_and_run tw = Ret tw3"
    by (simp add: tick_and_run_def w(1) run_execq_def tw3_def tw2_def)
  ultimately show ?thesis using s d w(5) by blast
qed

lemma Cancel_timers:
  assumes t: "timers p A tw"
  shows "timers p (A(v := None)) (Task_Cancel v tw)"
proof -
  let ?c = "\<lambda>j. p div int (slen tw) ^ j"
  have inv: "tinv ?c (p + 1) {} A tw" "execq tw = []" using t by (simp_all add: timers_def)
  have pre: "tw_struct ?c tw" "slots_ok ?c {} A tw"
      "\<forall>u. A u \<noteq> None \<longrightarrow> u \<in> {} \<or> (\<exists>j i. u \<in> set (slot_values tw j i))"
      "\<forall>u. A u \<noteq> None \<longrightarrow> u < next_task tw"
    using inv by (auto simp: tinv_def)
  note d = drop_inv [OF pre(1,2) inv(2) pre(3,4), of v]
  have "tinv ?c (p + 1) {} (A(v := None)) (Task_Cancel v tw)"
    using d by (auto simp: tinv_def inv(2))
  then show ?thesis using t by (simp add: timers_def rem_ok_def)
qed

lemma Callback_timers: "timers p A tw \<Longrightarrow> timers p A (Task_Callback v f tw)"
proof -
  have "placed c A (Task_Callback v f tw) = placed c A tw" for c
    by (intro ext) (simp add: placed_def due_def Task_Callback_def)
  then show "timers p A tw \<Longrightarrow> ?thesis"
    by (simp add: timers_def tinv_def tw_struct_def slots_ok_def rem_ok_def)
      (auto simp: Task_Callback_def)
qed


section \<open>Adding tasks\<close>

lemma fresh_inv:
  assumes inv: "tinv c now {} A tw" and v: "next_task tw = v"
  shows "tinv c now {} A (set_task v t (tw\<lparr>next_task := v + 1\<rparr>))"
proof -
  have nv: "u < v" if "u \<in> set (slot_values tw j i)" for u j i using inv that v by (auto simp: tinv_def slots_ok_def)
  have "placed c A (set_task v t (tw\<lparr>next_task := v + 1\<rparr>)) j i u = placed c A tw j i u" if "u < v" for j i u
    using that by (simp add: placed_def due_def)
  then have "slots_ok c {} A (set_task v t (tw\<lparr>next_task := v + 1\<rparr>))"
    using inv nv v by (auto simp: tinv_def slots_ok_def less_SucI dest: nv)
  moreover have "v \<notin> set (execq tw)" using inv v by (force simp: tinv_def)
  ultimately show ?thesis using inv v by (auto simp: tinv_def tw_struct_def less_SucI)
qed

lemma set_offset_inv:
  assumes inv: "tinv c now {} A tw" and v: "\<And>j i. v \<notin> set (slot_values tw j i)"
  shows "tinv c now {} A (set_offset v off tw)"
proof -
  have "placed c A (set_offset v off tw) j i u = placed c A tw j i u" if "u \<noteq> v" for j i u
    using that by (simp add: placed_def due_def set_offset_def)
  then have "slots_ok c {} A (set_offset v off tw)"
    using inv v by (auto simp: tinv_def slots_ok_def set_offset_def)
  then show ?thesis using inv by (auto simp: tinv_def tw_struct_def set_offset_def)
qed

lemma mod_le_mod_power: "p mod B ^ k \<le> p mod B ^ Suc k" if "0 < B" for p B :: int
proof -
  have "p mod B ^ k = p mod B ^ Suc k mod B ^ k" by (simp add: mod_mod_cancel)
  then show ?thesis using that by (simp add: zmod_le_nonneg_dividend)
qed

text \<open>The slot that \<open>put2\<close> chooses is \<open>s\<close> ahead, with the remaining offset \<open>o\<close>.\<close>
lemma put2_split:
  fixes d n B p :: int
  assumes "0 < n" "0 < d" "d + p mod n < n * B"
  defines "s \<equiv> (d + p mod n) div n"
  shows "0 \<le> s" "s < B" "(p div n + s) * n + (d + p mod n) mod n = p + d"
proof -
  have "0 \<le> d + p mod n" using assms by (simp add: add_nonneg_nonneg)
  then show "0 \<le> s" "s < B" using div_bounds [OF assms(1) _ assms(3)] by (simp_all add: s_def)
  have "s * n + (d + p mod n) mod n = d + p mod n" by (simp add: s_def)
  moreover have "p div n * n + p mod n = p" by simp
  ultimately show "(p div n + s) * n + (d + p mod n) mod n = p + d" by (simp only: distrib_right)
qed

lemma div_mod_by:
  fixes a n q r :: int
  assumes "a = q * n + r" "0 \<le> r" "r < n"
  shows "a div n = q" "a mod n = r"
  using assms by simp_all

lemma put2_step:
  assumes st: "tw_struct c tw" and k: "Suc k < depth tw" and r: "rem_ok p tw" "0 \<le> p"
    and d: "offset (task_at tw v) = d" "0 < d"
  defines "n \<equiv> int (slen tw) ^ Suc k"
  shows "wheel_put2 (Suc k) v tw =
    (if d + p mod n < n then wheel_put2 k v tw
     else put_at_cur (Suc k) ((d + p mod n) div n) v (set_offset v ((d + p mod n) mod n) tw))"
proof -
  have n: "0 < n" "slotCap (wheel_at tw (Suc k)) = n" "remain (wheel_at tw k) = n - p mod n"
    using st k r by (auto simp: tw_struct_def rem_ok_def n_def)
  have m: "0 \<le> p mod n" "p mod n < n" "0 \<le> d mod n" "d mod n < n" using n(1) by simp_all
  have dm: "d div n * n + d mod n = d" by simp
  show ?thesis
  proof (cases "d < n")
    case True
    then have s: "d div n = 0" using d(2) by simp
    have "(d + p mod n) div n = 1 \<and> (d + p mod n) mod n = d + p mod n - n" if "\<not> d + p mod n < n"
      using div_mod_by [of "d + p mod n" 1 n "d + p mod n - n"] that True m by simp
    moreover have "(n - p mod n > d) = (d + p mod n < n)" by linarith
    ultimately show ?thesis using s d(1) by (simp add: Let_def n(2,3) diff_diff_eq2)
  next
    case False
    then have s: "d div n \<noteq> 0" using n(1) d(2) div_pos_geq [of n d] m
      by (metis add.commute add_0 div_less_dividend dm linorder_not_less mult_zero_left)
    define off where "off = d mod n + p mod n"
    have off: "d - ((d div n - 1) * n + (n - p mod n) - 1) - 1 = off"
      using dm by (simp add: off_def left_diff_distrib minus_div_mult_eq_mod)
    have sum: "d + p mod n = d div n * n + off" using dm by (simp add: off_def)
    have nlt: "\<not> d + p mod n < n" using False m by linarith
    show ?thesis
    proof (cases "off \<ge> n")
      case True
      have e: "d + p mod n = (d div n + 1) * n + (off - n)" "0 \<le> off - n" "off - n < n"
        unfolding sum distrib_right using True m off_def by linarith+
      have "(d + p mod n) div n = d div n + 1" "(d + p mod n) mod n = off - n"
        by (rule div_mod_by [OF e])+
      then show ?thesis using s nlt True d(1) by (simp add: Let_def n(2,3) off)
    next
      case False
      have e: "0 \<le> off" "off < n" using False m off_def by linarith+
      have "(d + p mod n) div n = d div n" "(d + p mod n) mod n = off"
        by (rule div_mod_by [OF sum e])+
      then show ?thesis using s nlt False d(1) by (simp add: Let_def n(2,3) off)
    qed
  qed
qed


lemma put2_inv:
  assumes inv: "tinv (\<lambda>j. p div int (slen tw) ^ j) now {} A tw" and r: "rem_ok p tw" "0 \<le> p"
    and v: "\<And>j i. v \<notin> set (slot_values tw j i)" "v \<notin> set (execq tw)" "v < next_task tw"
    and d: "offset (task_at tw v) = d" "0 < d"
    and k: "k < depth tw" "d + p mod int (slen tw) ^ k < int (slen tw) ^ Suc k"
  shows "\<exists>tw'. wheel_put2 k v tw = Ret tw' \<and> tinv (\<lambda>j. p div int (slen tw) ^ j) now {} (A(v \<mapsto> p + d)) tw' \<and>
    execq tw' = execq tw \<and> frame {v} tw tw'"
  using k
proof (induction k)
  case 0
  have cap: "slotCap (wheel_at tw 0) = 1" using inv 0 by (simp add: tinv_def tw_struct_def)
  have lt: "d < int (slen tw)" using 0 by simp
  have eq: "wheel_put2 0 v tw = put_at_cur 0 d v (set_offset v d tw)"
    using cap d set_offset_same [of v tw] by (simp add: Let_def)
  have D: "(p div int (slen tw) ^ 0 + d) * int (slen tw) ^ 0 + (if (0::nat) = 0 then 0 else d) = p + d" by simp
  have "\<exists>tw'. put_at_cur 0 d v (set_offset v d tw) = Ret tw' \<and>
      tinv (\<lambda>j. p div int (slen tw) ^ j) now ({} - {v}) (A(v \<mapsto> (p div int (slen tw) ^ 0 + d) * int (slen tw) ^ 0 +
        (if (0::nat) = 0 then 0 else d))) tw' \<and> execq tw' = execq tw \<and> frame {v} tw tw'"
    by (rule place [OF inv v "0.prems"(1) d(2) lt]) simp
  then show ?case unfolding eq D Diff_empty empty_Diff .
next
  case (Suc k)
  let ?B = "int (slen tw)"
  let ?n = "?B ^ Suc k"
  have st: "tw_struct (\<lambda>j. p div ?B ^ j) tw" using inv by (simp add: tinv_def)
  have B: "0 < ?B" "0 < ?n" using st by (auto simp: tw_struct_def)
  note step = put2_step [OF st Suc.prems(1) r d]
  show ?case
  proof (cases "d + p mod ?n < ?n")
    case True
    have "d + p mod ?B ^ k < ?n" using True mod_le_mod_power [OF B(1), of p k] by linarith
    then show ?thesis using Suc.IH Suc.prems(1) step True by simp
  next
    case False
    have "d + p mod ?n < ?n * ?B" using Suc.prems(2) by (simp add: ac_simps)
    note sp = put2_split [OF B(2) d(2) this]
    have s: "0 < (d + p mod ?n) div ?n" using False B(2) by (simp add: pos_imp_zdiv_pos_iff)
    have off: "0 < Suc k \<Longrightarrow> 0 \<le> (d + p mod ?n) mod ?n \<and> (d + p mod ?n) mod ?n < ?n" using B(2) by simp
    have D: "(p div ?n + (d + p mod ?n) div ?n) * ?n + (if Suc k = 0 then 0 else (d + p mod ?n) mod ?n) = p + d"
      using sp(3) by simp
    have eq: "wheel_put2 (Suc k) v tw =
        put_at_cur (Suc k) ((d + p mod ?n) div ?n) v (set_offset v ((d + p mod ?n) mod ?n) tw)"
      using step False by (simp only: if_False)
    have "\<exists>tw'. put_at_cur (Suc k) ((d + p mod ?n) div ?n) v (set_offset v ((d + p mod ?n) mod ?n) tw) = Ret tw' \<and>
        tinv (\<lambda>j. p div ?B ^ j) now ({} - {v}) (A(v \<mapsto> (p div ?n + (d + p mod ?n) div ?n) * ?n +
          (if Suc k = 0 then 0 else (d + p mod ?n) mod ?n))) tw' \<and> execq tw' = execq tw \<and> frame {v} tw tw'"
      by (rule place [OF inv v Suc.prems(1) s sp(2) off])
    then show ?thesis unfolding eq D empty_Diff .
  qed
qed

text \<open>Beyond the capacity of the outermost level the task is not stored anywhere.\<close>
lemma put2_dropped:
  assumes inv: "tinv (\<lambda>j. p div int (slen tw) ^ j) now {} A tw" and r: "rem_ok p tw" "0 \<le> p"
    and v: "\<And>j i. v \<notin> set (slot_values tw j i)"
    and d: "offset (task_at tw v) = d" "0 < d"
    and k: "k < depth tw" "int (slen tw) ^ Suc k \<le> d + p mod int (slen tw) ^ k"
  shows "\<exists>off. wheel_put2 k v tw = Ret (set_offset v off tw)"
proof -
  have st: "tw_struct (\<lambda>j. p div int (slen tw) ^ j) tw" and B: "0 < slen tw"
    using inv by (auto simp: tinv_def tw_struct_def)
  have drop: "put_at_cur j s v (set_offset v off tw) = Ret (set_offset v off tw)"
    if "int (slen tw) \<le> s" "j < depth tw" for j s off
    using slot_put_beyond [of "set_offset v off tw" s] cur_mod [OF st that(2)] that B
    by (simp add: put_at_cur_def set_offset_def)
  show ?thesis
  proof (cases k)
    case 0
    have "slotCap (wheel_at tw 0) = 1" using st k(1) 0 by (simp add: tw_struct_def)
    then have "wheel_put2 0 v tw = put_at_cur 0 d v (set_offset v d tw)"
      using d set_offset_same [of v tw] by (simp add: Let_def)
    then show ?thesis using drop [of d 0 d] k 0 by auto
  next
    case (Suc l)
    let ?n = "int (slen tw) ^ Suc l"
    have n: "0 < ?n" using B by simp
    have big: "?n * int (slen tw) \<le> d + p mod ?n" using k(2) by (simp add: Suc ac_simps)
    have "?n * int (slen tw) div ?n \<le> (d + p mod ?n) div ?n" by (rule zdiv_mono1 [OF big n])
    moreover have "?n * int (slen tw) div ?n = int (slen tw)"
      by (rule nonzero_mult_div_cancel_left) (use n in linarith)
    ultimately have "int (slen tw) \<le> (d + p mod ?n) div ?n" by simp
    moreover have "?n \<le> ?n * int (slen tw)" using n B mult_left_mono [of 1 "int (slen tw)" ?n] by simp
    with big have "\<not> d + p mod ?n < ?n" by linarith
    ultimately show ?thesis
      using put2_step [OF st _ r d, of l] k(1) drop by (auto simp: Suc)
  qed
qed

text \<open>The number of ticks a wheel can hold ahead of tick \<open>p\<close>.\<close>
definition in_capacity :: "int \<Rightarrow> int \<Rightarrow> TimingWheel \<Rightarrow> bool" where
  "in_capacity p d tw =
     (d + p mod int (slen tw) ^ (depth tw - 1) < int (slen tw) ^ depth tw)"

lemma add_timers:
  assumes t: "timers p A tw" and p: "0 \<le> p" and d: "0 < d"
  defines "v \<equiv> next_task tw"
  shows "\<exists>tw'. add_task d tw = Ret (v, tw') \<and> timers p (if in_capacity p d tw then A(v \<mapsto> p + d) else A) tw' \<and>
    A v = None \<and> fired tw' = fired tw \<and> next_task tw' = Suc v \<and>
    slen tw' = slen tw \<and> depth tw' = depth tw \<and> interval tw' = interval tw \<and> maxTimeout tw' = maxTimeout tw"
proof -
  define tw1 where "tw1 = set_task v \<lparr>offset = d, slot_of = None, fn = None\<rparr> (tw\<lparr>next_task := v + 1\<rparr>)"
  let ?c = "\<lambda>j. p div int (slen tw) ^ j" and ?k = "depth tw - 1"
  have inv: "tinv ?c (p + 1) {} A tw" and r: "rem_ok p tw" and q: "execq tw = []"
    using t by (simp_all add: timers_def)
  have dep: "?k < depth tw1" "Suc ?k = depth tw" using inv by (auto simp: tinv_def tw_struct_def tw1_def)
  have Av: "A v = None" using inv by (force simp: tinv_def v_def)
  have s1: "slen tw1 = slen tw" "rem_ok p tw1" "execq tw1 = []" "v < next_task tw1" "offset (task_at tw1 v) = d"
    using r q by (simp_all add: tw1_def rem_ok_def)
  have inv1: "tinv (\<lambda>j. p div int (slen tw1) ^ j) (p + 1) {} A tw1"
    using fresh_inv [OF inv, of v] by (simp add: tw1_def v_def)
  have nv: "v \<notin> set (slot_values tw1 j i)" for j i
    using inv by (auto simp: tw1_def tinv_def slots_ok_def v_def)
  have *: "\<exists>tw'. wheel_put2 ?k v tw1 = Ret tw' \<and> frame {v} tw1 tw' \<and> execq tw' = [] \<and>
      tinv ?c (p + 1) {} (if in_capacity p d tw then A(v \<mapsto> p + d) else A) tw'"
  proof (cases "in_capacity p d tw")
    case True
    then show ?thesis
      using put2_inv [OF inv1 s1(2) p nv _ s1(4,5) d dep(1)] s1 dep(2) by (auto simp: in_capacity_def)
  next
    case False
    then obtain off where "wheel_put2 ?k v tw1 = Ret (set_offset v off tw1)"
      using put2_dropped [OF inv1 s1(2) p nv s1(5) d dep(1)] s1 dep(2) by (auto simp: in_capacity_def)
    then show ?thesis using False set_offset_inv [OF inv1 nv] s1
      by (auto simp: frame_def set_offset_def)
  qed
  then obtain tw' where tw': "wheel_put2 ?k v tw1 = Ret tw'" "frame {v} tw1 tw'" "execq tw' = []"
      "tinv ?c (p + 1) {} (if in_capacity p d tw then A(v \<mapsto> p + d) else A) tw'" by blast
  have sel: "slen tw' = slen tw" "depth tw' = depth tw" "fired tw' = fired tw" "next_task tw' = Suc v"
      "interval tw' = interval tw" "maxTimeout tw' = maxTimeout tw" "rem_ok p tw'"
    using tw'(2) frame_rem_ok [OF tw'(2) s1(2)] by (simp_all add: frame_def tw1_def)
  have "add_task d tw = Ret (v, tw')" using tw'(1) by (simp add: add_task_def tw1_def v_def)
  moreover have "timers p (if in_capacity p d tw then A(v \<mapsto> p + d) else A) tw'"
    using t tw'(3,4) sel by (auto simp: timers_def v_def less_SucI)
  ultimately show ?thesis using sel Av by blast
qed

section \<open>Sequences of operations\<close>

datatype tw_op = Tick | AfterOp int | CancelOp nat | CallbackOp nat nat

fun tw_run :: "tw_op \<Rightarrow> TimingWheel \<Rightarrow> TimingWheel outcome" where
  "tw_run Tick tw = tick_and_run tw"
| "tw_run (AfterOp t) tw = bind_outcome (After t tw) (\<lambda>(_, tw'). Ret tw')"
| "tw_run (CancelOp v) tw = Ret (Task_Cancel v tw)"
| "tw_run (CallbackOp v f) tw = Ret (Task_Callback v f tw)"

fun tw_runs :: "tw_op list \<Rightarrow> TimingWheel \<Rightarrow> TimingWheel outcome" where
  "tw_runs [] tw = Ret tw"
| "tw_runs (x # xs) tw = bind_outcome (tw_run x tw) (tw_runs xs)"

text \<open>The number of ticks a timeout is rounded to, and the timeouts that are neither refused nor immediate.\<close>
definition ticks_of :: "int \<Rightarrow> TimingWheel \<Rightarrow> int" where
  "ticks_of t tw = round_ticks (milliseconds t) (milliseconds (interval tw))"

definition op_ok :: "TimingWheel \<Rightarrow> tw_op \<Rightarrow> bool" where
  "op_ok tw x = (case x of AfterOp t \<Rightarrow> t < maxTimeout tw \<and> 0 < ticks_of t tw | _ \<Rightarrow> True)"

lemma After_timers:
  assumes t: "timers p A tw" and p: "0 \<le> p" and ok: "op_ok tw (AfterOp d)"
  defines "v \<equiv> next_task tw"
  shows "\<exists>tw'. After d tw = Ret (v, tw') \<and>
    timers p (if in_capacity p (ticks_of d tw) tw then A(v \<mapsto> p + ticks_of d tw) else A) tw' \<and>
    A v = None \<and> fired tw' = fired tw \<and> next_task tw' = Suc v \<and>
    slen tw' = slen tw \<and> depth tw' = depth tw \<and> interval tw' = interval tw \<and> maxTimeout tw' = maxTimeout tw"
  using add_timers [OF t p, of "ticks_of d tw"] ok
  by (auto simp: op_ok_def After_def ticks_of_def v_def)

text \<open>The specification of an operation on the tasks that exist already.\<close>
definition runs_now :: "tw_op \<Rightarrow> int \<Rightarrow> (nat \<Rightarrow> int option) \<Rightarrow> nat \<Rightarrow> bool" where
  "runs_now x p A u = (x = Tick \<and> A u = Some (p + 1))"

definition tw_spec :: "tw_op \<Rightarrow> int \<Rightarrow> (nat \<Rightarrow> int option) \<Rightarrow> nat \<Rightarrow> int option" where
  "tw_spec x p A u = (if runs_now x p A u \<or> x = CancelOp u then None else A u)"

lemma op_timers:
  assumes t: "timers p A tw" "0 \<le> p" and ok: "op_ok tw x"
  shows "\<exists>tw' A'. tw_run x tw = Ret tw' \<and> timers (if x = Tick then p + 1 else p) A' tw' \<and>
    next_task tw \<le> next_task tw' \<and> interval tw' = interval tw \<and> maxTimeout tw' = maxTimeout tw \<and>
    (\<forall>u < next_task tw. A' u = tw_spec x p A u \<and>
      (u \<in> set (fired tw') \<longleftrightarrow> u \<in> set (fired tw) \<or> runs_now x p A u))"
proof (cases x)
  case Tick
  obtain tw' vs where r: "tick_and_run tw = Ret tw'" "fired tw' = fired tw @ vs" "set vs = {v. A v = Some (p + 1)}"
      "timers (p + 1) (\<lambda>v. if A v = Some (p + 1) then None else A v) tw'" "next_task tw' = next_task tw"
      "interval tw' = interval tw" "maxTimeout tw' = maxTimeout tw"
    using tick_timers [OF t(1)] by blast
  then show ?thesis
    by (intro exI [of _ tw'] exI [of _ "\<lambda>v. if A v = Some (p + 1) then None else A v"])
      (auto simp: Tick tw_spec_def runs_now_def)
next
  case (AfterOp d)
  then obtain tw' where r: "After d tw = Ret (next_task tw, tw')" "fired tw' = fired tw"
      "timers p (if in_capacity p (ticks_of d tw) tw then A(next_task tw \<mapsto> p + ticks_of d tw) else A) tw'"
      "next_task tw' = Suc (next_task tw)" "interval tw' = interval tw" "maxTimeout tw' = maxTimeout tw"
    using After_timers [OF t, of d] ok by blast
  then show ?thesis
    by (intro exI [of _ tw'] exI [of _ "if in_capacity p (ticks_of d tw) tw then A(next_task tw \<mapsto> p + ticks_of d tw) else A"])
      (auto simp: AfterOp tw_spec_def runs_now_def)
next
  case (CancelOp v)
  then show ?thesis
    using Cancel_timers [OF t(1), of v]
    by (intro exI [of _ "Task_Cancel v tw"] exI [of _ "A(v := None)"]) (auto simp: tw_spec_def runs_now_def)
next
  case (CallbackOp v f)
  then show ?thesis
    using Callback_timers [OF t(1), of v f]
    by (intro exI [of _ "Task_Callback v f tw"] exI [of _ A])
      (simp add: tw_spec_def runs_now_def, simp add: Task_Callback_def)
qed

text \<open>
  A task \<open>v\<close> that was created: it is pending with due tick \<open>D\<close> and never ran, or tick \<open>D\<close> is over
  and it ran once.
\<close>
definition follows :: "nat \<Rightarrow> int \<Rightarrow> int \<Rightarrow> (nat \<Rightarrow> int option) \<Rightarrow> TimingWheel \<Rightarrow> bool" where
  "follows v D p A tw =
     (timers p A tw \<and> 0 \<le> p \<and> v < next_task tw \<and>
      (if p < D then A v = Some D \<and> v \<notin> set (fired tw) else A v = None \<and> v \<in> set (fired tw)))"

text \<open>A task that is not pending and never ran.\<close>
definition forgotten :: "nat \<Rightarrow> int \<Rightarrow> (nat \<Rightarrow> int option) \<Rightarrow> TimingWheel \<Rightarrow> bool" where
  "forgotten v p A tw = (timers p A tw \<and> 0 \<le> p \<and> v < next_task tw \<and> A v = None \<and> v \<notin> set (fired tw))"

lemma follows_step:
  assumes f: "follows v D p A tw" and ok: "op_ok tw x" "x \<noteq> CancelOp v"
  shows "\<exists>tw' A'. tw_run x tw = Ret tw' \<and> follows v D (if x = Tick then p + 1 else p) A' tw' \<and>
    interval tw' = interval tw \<and> maxTimeout tw' = maxTimeout tw"
proof -
  have v: "timers p A tw" "0 \<le> p" "v < next_task tw" using f by (simp_all add: follows_def)
  obtain tw' A' where r: "tw_run x tw = Ret tw'" "timers (if x = Tick then p + 1 else p) A' tw'"
      "next_task tw \<le> next_task tw'" "interval tw' = interval tw" "maxTimeout tw' = maxTimeout tw"
      "A' v = tw_spec x p A v" "v \<in> set (fired tw') \<longleftrightarrow> v \<in> set (fired tw) \<or> runs_now x p A v"
    using op_timers [OF v(1,2) ok(1)] v(3) by blast
  have "follows v D (if x = Tick then p + 1 else p) A' tw'"
    using f r ok(2) by (auto simp: follows_def tw_spec_def runs_now_def split: if_splits)
  then show ?thesis using r by blast
qed

lemma forgotten_step:
  assumes f: "forgotten v p A tw" and ok: "op_ok tw x"
  shows "\<exists>tw' A'. tw_run x tw = Ret tw' \<and> forgotten v (if x = Tick then p + 1 else p) A' tw' \<and>
    interval tw' = interval tw \<and> maxTimeout tw' = maxTimeout tw"
proof -
  have v: "timers p A tw" "0 \<le> p" "v < next_task tw" using f by (simp_all add: forgotten_def)
  show ?thesis
    using op_timers [OF v(1,2) ok] v(3) f by (fastforce simp: forgotten_def tw_spec_def runs_now_def)
qed

lemma follows_run:
  assumes "follows v D p A tw" "\<forall>x \<in> set xs. op_ok tw x" "CancelOp v \<notin> set xs"
  shows "\<exists>tw' A'. tw_runs xs tw = Ret tw' \<and> follows v D (p + int (count_list xs Tick)) A' tw'"
  using assms
proof (induction xs arbitrary: tw A p)
  case (Cons x xs)
  obtain tw1 A1 where s: "tw_run x tw = Ret tw1" "follows v D (if x = Tick then p + 1 else p) A1 tw1"
      "interval tw1 = interval tw" "maxTimeout tw1 = maxTimeout tw"
    using follows_step [OF Cons.prems(1), of x] Cons.prems(2,3) by auto
  have "\<forall>y \<in> set xs. op_ok tw1 y"
    using Cons.prems(2) s(3,4) by (auto simp: op_ok_def ticks_of_def split: tw_op.splits)
  from Cons.IH [OF s(2) this] Cons.prems(3) s(1) show ?case by (auto simp: algebra_simps)
qed auto

lemma count_list_distinct: "distinct xs \<Longrightarrow> count_list xs x = (if x \<in> set xs then 1 else 0)"
  by (induction xs) auto


definition demo_wheel :: TimingWheel where
  "demo_wheel = (case tick_and_run (NewTimingWheel 500000000 3 20) of Ret tw \<Rightarrow> tw | Panic _ \<Rightarrow> NewTimingWheel 1 1 1)"

lemma demo_wheel_timers:
  "timers 0 (\<lambda>_. None) demo_wheel \<and> slen demo_wheel = 20 \<and> depth demo_wheel = 3 \<and>
   interval demo_wheel = 500000000 \<and> maxTimeout demo_wheel = 500000000 * 3 ^ 20 \<and> next_task demo_wheel = 0"
proof -
  have "timers (-1) (\<lambda>_. None) (NewTimingWheel 500000000 3 20)" by (rule timers_New) simp_all
  from tick_timers [OF this] show ?thesis
    by (auto simp: demo_wheel_def NewTimingWheel_def)
qed




lemma forgotten_run:
  assumes "forgotten v p A tw" "\<forall>x \<in> set xs. op_ok tw x"
  shows "\<exists>tw' A'. tw_runs xs tw = Ret tw' \<and> forgotten v (p + int (count_list xs Tick)) A' tw'"
  using assms
proof (induction xs arbitrary: tw A p)
  case (Cons x xs)
  obtain tw1 A1 where s: "tw_run x tw = Ret tw1" "forgotten v (if x = Tick then p + 1 else p) A1 tw1"
      "interval tw1 = interval tw" "maxTimeout tw1 = maxTimeout tw"
    using forgotten_step [OF Cons.prems(1), of x] Cons.prems(2) by auto
  have "\<forall>y \<in> set xs. op_ok tw1 y"
    using Cons.prems(2) s(3,4) by (auto simp: op_ok_def ticks_of_def split: tw_op.splits)
  from Cons.IH [OF s(2) this] s(1) show ?case by (auto simp: algebra_simps)
qed auto

text \<open>
  A timeout beyond the capacity of the wheel is accepted and never expires. \<open>After\<close> compares
  the timeout with \<open>wheels ^ slots\<close> intervals, while the wheel holds fewer than \<open>slots ^ wheels\<close>; the
  task is stored in no slot, no error is reported, and no sequence of operations runs it.
\<close>
theorem task_beyond_capacity_lost:
  assumes t: "timers p A tw" "0 \<le> p" and d: "op_ok tw (AfterOp d)" "\<not> in_capacity p (ticks_of d tw) tw"
    and xs: "\<forall>x \<in> set xs. op_ok tw x"
  shows "\<exists>tw1 tw2. After d tw = Ret (next_task tw, tw1) \<and> tw_runs xs tw1 = Ret tw2 \<and>
    next_task tw \<notin> set (fired tw2)"
proof -
  let ?v = "next_task tw"
  obtain tw1 where a: "After d tw = Ret (?v, tw1)" "timers p A tw1" "A ?v = None" "fired tw1 = fired tw"
      "next_task tw1 = Suc ?v" "interval tw1 = interval tw" "maxTimeout tw1 = maxTimeout tw"
    using After_timers [OF t d(1)] d(2) by auto
  have "?v \<notin> set (fired tw)" using t(1) by (auto simp: timers_def)
  then have "forgotten ?v p A tw1" using a t(2) by (simp add: forgotten_def)
  moreover have "\<forall>x \<in> set xs. op_ok tw1 x"
    using xs(1) a(6,7) by (auto simp: op_ok_def ticks_of_def split: tw_op.splits)
  ultimately show ?thesis using forgotten_run a(1) by (fastforce simp: forgotten_def)
qed

theorem task_beyond_capacity_lost_witness:
  "\<exists>tw1 tw2. After 4000000000000 demo_wheel = Ret (0, tw1) \<and> tw_runs (replicate 100000 Tick) tw1 = Ret tw2 \<and>
    0 \<notin> set (fired tw2)"
proof -
  have "op_ok demo_wheel (AfterOp 4000000000000)"
    "\<not> in_capacity 0 (ticks_of 4000000000000 demo_wheel) demo_wheel"
    "\<forall>x \<in> set (replicate 100000 Tick). op_ok demo_wheel x"
    using demo_wheel_timers
    by (simp_all add: op_ok_def ticks_of_def round_ticks_def milliseconds_def in_capacity_def)
  then show ?thesis
    using task_beyond_capacity_lost [of 0 "\<lambda>_. None" demo_wheel 4000000000000 "replicate 100000 Tick"]
      demo_wheel_timers by auto
qed

text \<open>Before the first tick the counters of the inner levels are zero and \<open>put2\<close> goes one slot too far.\<close>
lemma put2_unstarted:
  assumes st: "tw_struct c tw" and k: "Suc k < depth tw" and r: "rem_ok (-1) tw"
    and d: "offset (task_at tw v) = d" "0 < d"
  defines "n \<equiv> int (slen tw) ^ Suc k"
  shows "wheel_put2 (Suc k) v tw = put_at_cur (Suc k) (d div n + 1) v (set_offset v (d mod n) tw)"
proof -
  have n: "0 < n" "slotCap (wheel_at tw (Suc k)) = n" "remain (wheel_at tw k) = 0"
    using st k r by (auto simp: tw_struct_def rem_ok_def n_def)
  have off: "d - ((d div n - 1) * n + 0 - 1) - 1 = d mod n + n"
    by (simp add: left_diff_distrib minus_div_mult_eq_mod)
  have "d div n = 0 \<Longrightarrow> d mod n = d" by (metis add_0 div_mult_mod_eq mult_zero_left)
  then show ?thesis using d n(1) by (simp add: Let_def n(2,3) off [simplified])
qed

lemma add_unstarted:
  assumes t: "timers (-1) (\<lambda>_. None) tw" and w: "depth tw = Suc (Suc k)" "0 < d"
    and c: "d div int (slen tw) ^ Suc k + 1 < int (slen tw)"
  defines "v \<equiv> next_task tw"
  shows "\<exists>tw'. add_task d tw = Ret (v, tw') \<and> timers (-1) [v \<mapsto> d] tw' \<and> fired tw' = fired tw \<and>
    next_task tw' = Suc v \<and> interval tw' = interval tw \<and> maxTimeout tw' = maxTimeout tw"
proof -
  define tw1 where "tw1 = set_task v \<lparr>offset = d, slot_of = None, fn = None\<rparr> (tw\<lparr>next_task := v + 1\<rparr>)"
  let ?B = "int (slen tw)" and ?c = "\<lambda>j. (-1) div int (slen tw) ^ j"
  let ?n = "?B ^ Suc k"
  have inv: "tinv ?c 0 {} (\<lambda>_. None) tw" and r: "rem_ok (-1) tw" and q: "execq tw = []"
    using t by (simp_all add: timers_def)
  have B: "0 < ?B" "0 < ?n" using inv by (auto simp: tinv_def tw_struct_def)
  have s1: "slen tw1 = slen tw" "rem_ok (-1) tw1" "execq tw1 = []" "v < next_task tw1" "offset (task_at tw1 v) = d"
      "Suc k < depth tw1"
    using r q w by (simp_all add: tw1_def rem_ok_def)
  have inv1: "tinv ?c 0 {} (\<lambda>_. None) tw1" using fresh_inv [OF inv, of v] by (simp add: tw1_def v_def)
  have nv: "v \<notin> set (slot_values tw1 j i)" for j i
    using inv by (auto simp: tw1_def tinv_def slots_ok_def v_def)
  have st: "tw_struct ?c tw1" using inv1 by (simp add: tinv_def)
  have s: "0 < d div ?n + 1" "d div ?n + 1 < int (slen tw1)"
    using c B(2) w(2) by (simp_all add: s1 pos_imp_zdiv_nonneg_iff add_nonneg_pos del: power_Suc)
  have off: "0 < Suc k \<Longrightarrow> 0 \<le> d mod ?n \<and> d mod ?n < int (slen tw1) ^ Suc k"
    using pos_mod_sign [OF B(2), of d] pos_mod_bound [OF B(2), of d] by (simp only: s1)
  have "(-1) div ?n = -1" using B(2) by (rule div_eq_minus1)
  then have D: "((-1) div ?n + (d div ?n + 1)) * ?n + (if Suc k = 0 then 0 else d mod ?n) = d"
    using div_mult_mod_eq [of d ?n] by simp
  have "\<exists>tw'. put_at_cur (Suc k) (d div ?n + 1) v (set_offset v (d mod ?n) tw1) = Ret tw' \<and>
      tinv ?c 0 ({} - {v}) ((\<lambda>_. None)(v \<mapsto> ((-1) div int (slen tw) ^ Suc k + (d div ?n + 1)) * int (slen tw1) ^ Suc k +
        (if Suc k = 0 then 0 else d mod ?n))) tw' \<and> execq tw' = execq tw1 \<and> frame {v} tw1 tw'"
    by (rule place [OF inv1 nv _ s1(4,6) s off]) (simp add: s1)
  then obtain tw' where tw': "put_at_cur (Suc k) (d div ?n + 1) v (set_offset v (d mod ?n) tw1) = Ret tw'"
      "tinv ?c 0 {} [v \<mapsto> d] tw'" "execq tw' = execq tw1" "frame {v} tw1 tw'"
    unfolding s1(1) D empty_Diff by blast
  have "wheel_put2 (Suc k) v tw1 = Ret tw'"
    using put2_unstarted [OF st s1(6,2,5) w(2)] tw'(1) unfolding s1(1) by simp
  then have "add_task d tw = Ret (v, tw')" using w(1) by (simp add: add_task_def tw1_def v_def)
  moreover have sel: "slen tw' = slen tw" "fired tw' = fired tw" "next_task tw' = Suc v"
      "interval tw' = interval tw" "maxTimeout tw' = maxTimeout tw" "rem_ok (-1) tw'"
    using tw'(4) frame_rem_ok [OF tw'(4) s1(2)] by (simp_all add: frame_def tw1_def)
  moreover have "timers (-1) [v \<mapsto> d] tw'"
    using t tw'(2,3) sel s1(3) by (auto simp: timers_def v_def less_SucI)
  ultimately show ?thesis by blast
qed

text \<open>
  A wheel of several levels that has not ticked yet delays a task by one tick: a task of \<open>d\<close> ticks
  has run when \<open>d + 1\<close> ticks are over and not before. The wheels of the clients and of the channels
  have three levels and are created when the program starts.
\<close>
theorem unstarted_wheel_late:
  assumes w: "0 < slots" "tw = NewTimingWheel intv (Suc (Suc k)) slots"
    and d: "op_ok tw (AfterOp t)" "ticks_of t tw div int slots ^ Suc k + 1 < int slots"
  shows "\<exists>tw1 tw2. After t tw = Ret (0, tw1) \<and> tw_runs (replicate (Suc m) Tick) tw1 = Ret tw2 \<and>
    (0 \<in> set (fired tw2) \<longleftrightarrow> ticks_of t tw + 1 \<le> int (Suc m))"
proof -
  have new: "timers (-1) (\<lambda>_. None) tw" unfolding w(2) by (rule timers_New) (simp_all add: w(1))
  have sel: "slen tw = slots" "depth tw = Suc (Suc k)" "next_task tw = 0" "fired tw = []"
    by (simp_all add: w(2) NewTimingWheel_def)
  obtain tw1 where a: "After t tw = Ret (0, tw1)" "timers (-1) [0 \<mapsto> ticks_of t tw] tw1" "fired tw1 = []" "next_task tw1 = 1"
    using add_unstarted [OF new sel(2), of "ticks_of t tw"] d sel
    by (auto simp: op_ok_def After_def ticks_of_def)
  obtain tw2 vs where b: "tick_and_run tw1 = Ret tw2" "fired tw2 = vs" "set vs = {v. [0 \<mapsto> ticks_of t tw] v = Some 0}"
      "timers 0 (\<lambda>v. if [0 \<mapsto> ticks_of t tw] v = Some 0 then None else [0 \<mapsto> ticks_of t tw] v) tw2" "next_task tw2 = 1"
    using tick_timers [OF a(2)] a(3,4) by auto
  have "0 < ticks_of t tw" using d(1) by (simp add: op_ok_def)
  then have "follows 0 (ticks_of t tw) 0 (\<lambda>v. if [0 \<mapsto> ticks_of t tw] v = Some 0 then None else [0 \<mapsto> ticks_of t tw] v) tw2"
    using b by (auto simp: follows_def)
  from follows_run [OF this, of "replicate m Tick"] obtain tw3 A3 where
    "tw_runs (replicate m Tick) tw2 = Ret tw3" "follows 0 (ticks_of t tw) (int (count_list (replicate m Tick) Tick)) A3 tw3"
    by (auto simp: op_ok_def)
  moreover have "count_list (replicate m Tick) Tick = m" by (induction m) simp_all
  ultimately show ?thesis using a(1) b(1) by (auto simp: follows_def split: if_splits)
qed

theorem unstarted_wheel_late_witness:
  "\<exists>tw1 tw2. After 10000000000 (NewTimingWheel 500000000 3 20) = Ret (0, tw1) \<and>
    tw_runs (replicate 20 Tick) tw1 = Ret tw2 \<and> 0 \<notin> set (fired tw2)"
proof -
  have "op_ok (NewTimingWheel 500000000 3 20) (AfterOp 10000000000)"
    "ticks_of 10000000000 (NewTimingWheel 500000000 3 20) = 20"
    by (simp_all add: op_ok_def ticks_of_def NewTimingWheel_def round_ticks_def milliseconds_def)
  then show ?thesis
    using unstarted_wheel_late [of 20 "NewTimingWheel 500000000 3 20" 500000000 1 10000000000 19]
    by (simp add: numeral_3_eq_3 numeral_2_eq_2)
qed

end
