(* ===== verification/Messages.thy ===== *)
theory Messages
  imports Prelude
begin

text \<open>
  The messages exchanged with clients (\<^verbatim>\<open>pkg/messages\<close>) and the structures that other
  packages put into them.

  A \<^verbatim>\<open>Data\<close> holds an \<^verbatim>\<open>interface{}\<close>; the values the sources put there are the constructors of
  \<open>iface\<close>: raw JSON bytes as received, strings, and structures by value (\<open>Val\<close>), by pointer
  (\<open>Ptr\<close>) or by pointer to a pointer (\<open>PtrPtr\<close>), because \<open>Deserialize\<close> compares the dynamic
  types. A nil \<^verbatim>\<open>*Data\<close> is \<open>None\<close>. Integers that the code only copies or compares are \<open>int\<close>.

  The field names of structures that would clash carry a prefix: \<open>cm_\<close> for \<^verbatim>\<open>ChatMessage\<close>,
  \<open>ar_\<close>, \<open>ag_\<close>, \<open>am_\<close>, \<open>an_\<close> for the acknowledgements, \<open>sh_\<close> for \<^verbatim>\<open>ServerHello\<close>. The JSON
  decoder is an argument of the functions that call it.
\<close>

section \<open>Structures\<close>

record Hello =
  ClientVersion :: string
  ClientName :: string
  ClientType :: string

record ServerHello =
  sh_ServerVersion :: string
  sh_TempID :: string
  sh_HeartbeatInterval :: int
  sh_Protocols :: "string list"

record ChatMessage =
  cm_CliMid :: string
  cm_Mid :: int
  cm_Seq :: int
  cm_From :: string
  cm_To :: string
  cm_Type :: int
  cm_Content :: string
  cm_SendAt :: int

record AckRequest =
  ar_CliMid :: string
  ar_Seq :: int
  ar_Mid :: int
  ar_From :: string
  ar_To :: string

record AckGroupMessage =
  ag_CliMid :: string
  ag_Gid :: int
  ag_Mid :: int
  ag_Seq :: int

record AckMessage =
  am_CliMid :: string
  am_Mid :: int
  am_From :: string
  am_Seq :: int

record AckNotify =
  an_CliMid :: string
  an_Seq :: int
  an_Mid :: int
  an_From :: string

record KickOutNotify =
  ko_DeviceId :: string
  ko_DeviceName :: string

text \<open>\<^verbatim>\<open>pkg/gate/client.go\<close>: the body of an authentication message.\<close>
record EncryptedCredential =
  ec_Version :: int
  ec_Credential :: string

text \<open>
  \<^verbatim>\<open>pkg/subscription/message.go\<close>; the two anonymous structures used as \<^verbatim>\<open>Body\<close> in
  \<^verbatim>\<open>subscription_impl/chan.go\<close>.
\<close>
datatype notify_body = BodyUid string | BodyMembers "string list"

record NotifyMessage =
  nm_From :: string
  nm_Type :: int
  nm_Body :: notify_body

text \<open>\<^verbatim>\<open>pkg/messaging/user_state_sub.go\<close>.\<close>
record UserStateData =
  us_Uid :: string
  us_Online :: bool

record StateSubscribeData =
  ss_Uids :: "string list"

text \<open>The structure types that appear in a \<^verbatim>\<open>Data\<close>.\<close>
datatype gostruct =
    SHello Hello
  | SServerHello ServerHello
  | SChat ChatMessage
  | SAckRequest AckRequest
  | SAckGroup AckGroupMessage
  | SAckMessage AckMessage
  | SAckNotify AckNotify
  | SKickOut KickOutNotify
  | SCredential EncryptedCredential
  | SNotify NotifyMessage
  | SUserState UserStateData
  | SStateSub StateSubscribeData

text \<open>The dynamic type of a structure.\<close>
datatype gotype = THello | TServerHello | TChat | TAckRequest | TAckGroup | TAckMessage
  | TAckNotify | TKickOut | TCredential | TNotify | TUserState | TStateSub

fun type_of_struct :: "gostruct \<Rightarrow> gotype" where
  "type_of_struct (SHello _) = THello"
| "type_of_struct (SServerHello _) = TServerHello"
| "type_of_struct (SChat _) = TChat"
| "type_of_struct (SAckRequest _) = TAckRequest"
| "type_of_struct (SAckGroup _) = TAckGroup"
| "type_of_struct (SAckMessage _) = TAckMessage"
| "type_of_struct (SAckNotify _) = TAckNotify"
| "type_of_struct (SKickOut _) = TKickOut"
| "type_of_struct (SCredential _) = TCredential"
| "type_of_struct (SNotify _) = TNotify"
| "type_of_struct (SUserState _) = TUserState"
| "type_of_struct (SStateSub _) = TStateSub"

datatype iface =
    INil
  | IBytes bytes
  | IString string
  | IID string
  | IAction string
  | Val gostruct
  | Ptr gostruct
  | PtrPtr gostruct


section \<open>Actions\<close>

type_synonym Action = string

definition ActionHello :: Action where "ActionHello = ''hello''"
definition ActionHeartbeat :: Action where "ActionHeartbeat = ''heartbeat''"
definition ActionNotifyUnknownAction :: Action where
  "ActionNotifyUnknownAction = ''notify.unknown.action''"
definition ActionChatMessage :: Action where "ActionChatMessage = ''message.chat''"
definition ActionChatMessageResend :: Action where
  "ActionChatMessageResend = ''message.chat.resend''"
definition ActionGroupMessage :: Action where "ActionGroupMessage = ''message.group''"
definition ActionGroupNotify :: Action where "ActionGroupNotify = ''message.group.notify''"
definition ActionClientCustom :: Action where "ActionClientCustom = ''message.cli''"
definition ActionAuthenticate :: Action where "ActionAuthenticate = ''authenticate''"
definition ActionNotifyError :: Action where "ActionNotifyError = ''notify.error''"
definition ActionNotifySuccess :: Action where "ActionNotifySuccess = ''notify.success''"
definition ActionNotifyKickOut :: Action where "ActionNotifyKickOut = ''notify.kickout''"
definition ActionNotifyForbidden :: Action where "ActionNotifyForbidden = ''notify.forbidden''"
definition ActionNotifyUserState :: Action where "ActionNotifyUserState = ''notify.state''"
definition ActionAckRequest :: Action where "ActionAckRequest = ''ack.request''"
definition ActionAckGroupMsg :: Action where "ActionAckGroupMsg = ''ack.group.msg''"
definition ActionAckMessage :: Action where "ActionAckMessage = ''ack.message''"
definition ActionAckNotify :: Action where "ActionAckNotify = ''ack.notify''"
definition AckOffline :: Action where "AckOffline = ''ack.offline''"
definition ActionApiGroupMembers :: Action where "ActionApiGroupMembers = ''api.group.members''"
definition ActionApiSubUserState :: Action where "ActionApiSubUserState = ''api.state.sub''"
definition ActionInternalOnline :: Action where "ActionInternalOnline = ''internal.online''"
definition ActionInternalOffline :: Action where "ActionInternalOffline = ''internal.offline''"

definition IsInternal :: "Action \<Rightarrow> bool" where
  "IsInternal a = has_prefix a ''internal.''"

lemmas action_defs = ActionHello_def ActionHeartbeat_def ActionNotifyUnknownAction_def
  ActionChatMessage_def ActionChatMessageResend_def ActionGroupMessage_def ActionGroupNotify_def
  ActionClientCustom_def ActionAuthenticate_def ActionNotifyError_def ActionNotifySuccess_def
  ActionNotifyKickOut_def ActionNotifyForbidden_def ActionNotifyUserState_def
  ActionAckRequest_def ActionAckGroupMsg_def ActionAckMessage_def ActionAckNotify_def
  AckOffline_def ActionApiGroupMembers_def ActionApiSubUserState_def ActionInternalOnline_def
  ActionInternalOffline_def


section \<open>Messages and their data\<close>

definition messageVersion :: int where
  "messageVersion = 1"

record GlideMessage =
  Ver :: int
  Seq :: int
  Action :: string
  From :: string
  To :: string
  Data :: "iface option"
  Msg :: string
  Ticket :: string
  Sign :: string
  Extra :: "(string \<times> string) list"

definition NewData :: "iface \<Rightarrow> iface option" where
  "NewData d = Some d"

definition NewMessage :: "int \<Rightarrow> Action \<Rightarrow> iface \<Rightarrow> GlideMessage" where
  "NewMessage seq action d =
     \<lparr>Ver = messageVersion, Seq = seq, Action = action, From = '''', To = '''',
      Data = NewData d, Msg = '''', Ticket = '''', Sign = '''', Extra = []\<rparr>"

definition NewEmptyMessage :: GlideMessage where
  "NewEmptyMessage =
     \<lparr>Ver = messageVersion, Seq = 0, Action = '''', From = '''', To = '''',
      Data = None, Msg = '''', Ticket = '''', Sign = '''', Extra = []\<rparr>"

definition GetSeq :: "GlideMessage \<Rightarrow> int" where "GetSeq g = Seq g"

definition GetAction :: "GlideMessage \<Rightarrow> Action" where "GetAction g = Action g"

definition SetSeq :: "int \<Rightarrow> GlideMessage \<Rightarrow> GlideMessage" where "SetSeq seq g = g\<lparr>Seq := seq\<rparr>"

definition errDecode :: string where
  "errDecode = ''message decode error: ''"

definition IsDecodeError :: "go_error \<Rightarrow> bool" where
  "IsDecodeError err = (case err of None \<Rightarrow> False | Some m \<Rightarrow> has_prefix m errDecode)"

text \<open>\<^verbatim>\<open>jsonCodec.Decode\<close> and \<^verbatim>\<open>Encode\<close> over a JSON decoder or encoder.\<close>
definition JsonCodec_Decode :: "(bytes \<Rightarrow> string + 'a) \<Rightarrow> bytes \<Rightarrow> string + 'a" where
  "JsonCodec_Decode unmarshal d =
     (case unmarshal d of Inl e \<Rightarrow> Inl (errDecode @ e) | Inr x \<Rightarrow> Inr x)"

definition JsonCodec_Encode :: "('a \<Rightarrow> string + bytes) \<Rightarrow> 'a \<Rightarrow> string + bytes" where
  "JsonCodec_Encode marshal x = marshal x"

text \<open>\<^verbatim>\<open>Data.UnmarshalJSON\<close> keeps the bytes; \<^verbatim>\<open>Data.MarshalJSON\<close> gives them back.\<close>
definition Data_UnmarshalJSON :: "bytes \<Rightarrow> iface" where
  "Data_UnmarshalJSON b = IBytes b"

definition Data_MarshalJSON :: "(iface \<Rightarrow> string + bytes) \<Rightarrow> iface \<Rightarrow> string + bytes" where
  "Data_MarshalJSON marshal d =
     (case d of IBytes b \<Rightarrow> Inr b | _ \<Rightarrow> JsonCodec_Encode marshal d)"

text \<open>
  \<^verbatim>\<open>protobufCodec\<close>: \<open>as_proto\<close> is the type assertion to \<^verbatim>\<open>proto.Message\<close>, \<open>unmarshal\<close> and \<open>marshal\<close> are the
  functions of the protobuf package.
\<close>
definition errNotProto :: string where
  "errNotProto = ''illegal argument, not implement proto.GlideMessage''"

definition ProtoBuffCodec_Decode ::
    "('a \<Rightarrow> 'm option) \<Rightarrow> (bytes \<Rightarrow> 'm \<Rightarrow> go_error \<times> 'm) \<Rightarrow> bytes \<Rightarrow> 'a \<Rightarrow> go_error \<times> 'm option" where
  "ProtoBuffCodec_Decode as_proto unmarshal d i =
     (case as_proto i of
        None \<Rightarrow> (Some errNotProto, None)
      | Some message \<Rightarrow> (case unmarshal d message of (e, message') \<Rightarrow> (e, Some message')))"

definition ProtoBuffCodec_Encode ::
    "('a \<Rightarrow> 'm option) \<Rightarrow> ('m \<Rightarrow> string + bytes) \<Rightarrow> 'a \<Rightarrow> string + bytes" where
  "ProtoBuffCodec_Encode as_proto marshal i =
     (case as_proto i of None \<Rightarrow> Inl errNotProto | Some message \<Rightarrow> marshal message)"

definition GetData :: "iface \<Rightarrow> iface" where
  "GetData d = d"

text \<open>\<^verbatim>\<open>Data.String\<close>: the bytes, or the data as JSON; when it cannot be encoded, nothing.\<close>
definition Data_String :: "(iface \<Rightarrow> string + bytes) \<Rightarrow> iface \<Rightarrow> string" where
  "Data_String marshal d =
     (case d of
        IBytes b \<Rightarrow> string_of_bytes b
      | INil \<Rightarrow> ''<nil>''
      | _ \<Rightarrow> (case marshal d of Inl _ \<Rightarrow> '''' | Inr b \<Rightarrow> string_of_bytes b))"

text \<open>The verb \<^verbatim>\<open>%s\<close> prints a nil pointer as \<^verbatim>\<open><nil>\<close>.\<close>
definition Message_String :: "(iface \<Rightarrow> string + bytes) \<Rightarrow> GlideMessage option \<Rightarrow> string" where
  "Message_String marshal g =
     (case g of
        None \<Rightarrow> ''<nil>''
      | Some g \<Rightarrow>
          ''&Message{Ver:'' @ show_int (Ver g) @ '', Action:'' @ Action g @ '', Data:'' @
          (case Data g of None \<Rightarrow> ''<nil>'' | Some d \<Rightarrow> Data_String marshal d) @ ''}'')"

text \<open>
  \<^verbatim>\<open>Data.Deserialize(i)\<close> for a pointer \<open>i\<close> to a structure of type \<open>t\<close>; the result is the
  structure that \<open>i\<close> points to afterwards.
\<close>
definition Deserialize ::
    "(gotype \<Rightarrow> bytes \<Rightarrow> string + gostruct) \<Rightarrow> gotype \<Rightarrow> iface option \<Rightarrow> string + gostruct" where
  "Deserialize unmarshal t d =
     (case d of
        None \<Rightarrow> Inl ''data is nil''
      | Some (IBytes s) \<Rightarrow> JsonCodec_Decode (unmarshal t) s
      | Some (Ptr x) \<Rightarrow>
          (if type_of_struct x = t then Inr x else Inl ''deserialize message data failed'')
      | Some _ \<Rightarrow> Inl ''deserialize message data failed'')"

text \<open>The same with the structure taken out of \<open>gostruct\<close>.\<close>
definition Deserialize_Hello where
  "Deserialize_Hello js d =
     (case Deserialize js THello d of Inl e \<Rightarrow> Inl e | Inr (SHello x) \<Rightarrow> Inr x
      | Inr _ \<Rightarrow> Inl ''deserialize message data failed'')"

definition Deserialize_Chat where
  "Deserialize_Chat js d =
     (case Deserialize js TChat d of Inl e \<Rightarrow> Inl e | Inr (SChat x) \<Rightarrow> Inr x
      | Inr _ \<Rightarrow> Inl ''deserialize message data failed'')"

definition Deserialize_AckGroup where
  "Deserialize_AckGroup js d =
     (case Deserialize js TAckGroup d of Inl e \<Rightarrow> Inl e | Inr (SAckGroup x) \<Rightarrow> Inr x
      | Inr _ \<Rightarrow> Inl ''deserialize message data failed'')"

definition Deserialize_AckRequest where
  "Deserialize_AckRequest js d =
     (case Deserialize js TAckRequest d of Inl e \<Rightarrow> Inl e | Inr (SAckRequest x) \<Rightarrow> Inr x
      | Inr _ \<Rightarrow> Inl ''deserialize message data failed'')"

definition Deserialize_Credential where
  "Deserialize_Credential js d =
     (case Deserialize js TCredential d of Inl e \<Rightarrow> Inl e | Inr (SCredential x) \<Rightarrow> Inr x
      | Inr _ \<Rightarrow> Inl ''deserialize message data failed'')"

definition Deserialize_StateSub where
  "Deserialize_StateSub js d =
     (case Deserialize js TStateSub d of Inl e \<Rightarrow> Inl e | Inr (SStateSub x) \<Rightarrow> Inr x
      | Inr _ \<Rightarrow> Inl ''deserialize message data failed'')"


section \<open>Lemmas\<close>

lemma NewMessage_simps [simp]:
  "Ver (NewMessage s a d) = 1" "Seq (NewMessage s a d) = s" "Action (NewMessage s a d) = a"
  "Data (NewMessage s a d) = Some d" "From (NewMessage s a d) = ''''"
  "To (NewMessage s a d) = ''''" "Ticket (NewMessage s a d) = ''''"
  by (simp_all add: NewMessage_def messageVersion_def NewData_def)

lemma IsDecodeError_Decode:
  "JsonCodec_Decode js b = Inl e \<Longrightarrow> IsDecodeError (Some e)"
  by (auto simp: JsonCodec_Decode_def IsDecodeError_def split: sum.splits)

lemma Deserialize_Ptr [simp]:
  "type_of_struct x = t \<Longrightarrow> Deserialize js t (Some (Ptr x)) = Inr x"
  by (simp add: Deserialize_def)

lemma Deserialize_typed:
  assumes "Deserialize js t d = Inr x"
    and "\<And>b y. js t b = Inr y \<Longrightarrow> type_of_struct y = t"
  shows "type_of_struct x = t"
  using assms
  by (auto simp: Deserialize_def JsonCodec_Decode_def
      split: option.splits iface.splits sum.splits if_splits)

text \<open>
  \<open>Deserialize\<close> is exact about its errors: a failure carries the decode prefix (so the
  reader loop answers it instead of closing the connection) exactly when the data is raw bytes
  that the JSON decoder rejects; a nil data, a value that is not a pointer to the target type, and
  the pointer to a pointer that \<^verbatim>\<open>Channel.enqueue\<close> stores are rejected without it.
\<close>
theorem Deserialize_errors:
  "(case Deserialize js t d of
      Inr x \<Rightarrow> d = Some (Ptr x) \<and> type_of_struct x = t \<or> (\<exists>b. d = Some (IBytes b) \<and> js t b = Inr x)
    | Inl e \<Rightarrow> IsDecodeError (Some e) = (\<exists>b m. d = Some (IBytes b) \<and> js t b = Inl m))
   \<and> Deserialize js t (Some (PtrPtr y)) = Inl ''deserialize message data failed''"
  by (auto simp: Deserialize_def JsonCodec_Decode_def IsDecodeError_def errDecode_def
      has_prefix_def split: option.splits iface.splits sum.splits)

end
