(* ===== verification/Credentials.thy ===== *)
theory Credentials
  imports Prelude
begin

text \<open>
  The encryption of authentication credentials (\<^verbatim>\<open>AesCBCCrypto\<close> in
  \<^verbatim>\<open>pkg/gate/authenticator.go\<close>, the structures of \<^verbatim>\<open>pkg/gate/client.go\<close>).

  The block cipher is the pair of functions \<open>enc\<close>, \<open>dec\<close> (key, block); \<^verbatim>\<open>aes.NewCipher\<close> only
  checks the length of the key. CBC chaining, PKCS#7 padding, unpadded base64 and the layout of the
  token (initialisation vector first) are modelled in full; JSON is the pair \<open>marshal\<close>,
  \<open>unmarshal\<close>. Slicing beyond the length of a slice and a ciphertext that is not a whole number of
  blocks are panics, as in Go.

  The main result is that decrypting an encrypted credential gives the credential back.
\<close>

section \<open>Structures\<close>

record ClientSecrets =
  MessageDeliverSecret :: string
  OnlineStateSecret :: string

record ConnectionConfig =
  AllowMaxHeartbeatLost :: int
  HeartbeatDuration :: int
  cc_CloseImmediately :: bool

record RiskControl =
  MaxMessagesPeerSecond :: int

record ClientAuthCredentials =
  ca_Type :: int
  UserID :: string
  DeviceID :: string
  DeviceName :: string
  Secrets :: "ClientSecrets option"
  ca_RiskControl :: "RiskControl option"
  ca_ConnectionConfig :: "ConnectionConfig option"
  ConnectionID :: string
  Timestamp :: int

definition validate :: "ClientAuthCredentials \<Rightarrow> go_error" where
  "validate a = nil"


section \<open>Base64 without padding\<close>

definition b64_alphabet :: string where
  "b64_alphabet = ''ABCDEFGHIJKLMNOPQRSTUVWXYZabcdefghijklmnopqrstuvwxyz0123456789+/''"

definition b64_char :: "nat \<Rightarrow> byte" where
  "b64_char n = of_nat (of_char (b64_alphabet ! n))"

fun find_from :: "nat \<Rightarrow> byte list \<Rightarrow> byte \<Rightarrow> nat option" where
  "find_from n [] c = None"
| "find_from n (x # xs) c = (if x = c then Some n else find_from (Suc n) xs c)"

definition b64_index :: "byte \<Rightarrow> nat option" where
  "b64_index c = find_from 0 (bytes_of_string b64_alphabet) c"

text \<open>\<^verbatim>\<open>base64.RawStdEncoding.Encode\<close>.\<close>
fun b64_encode :: "bytes \<Rightarrow> bytes" where
  "b64_encode [] = []"
| "b64_encode [a] =
     (let n = unat a * 16 in [b64_char (n div 64), b64_char (n mod 64)])"
| "b64_encode [a, b] =
     (let n = (unat a * 256 + unat b) * 4
      in [b64_char (n div 4096), b64_char (n div 64 mod 64), b64_char (n mod 64)])"
| "b64_encode (a # b # c # r) =
     (let n = (unat a * 256 + unat b) * 256 + unat c
      in [b64_char (n div 262144), b64_char (n div 4096 mod 64), b64_char (n div 64 mod 64),
          b64_char (n mod 64)] @ b64_encode r)"

text \<open>The bytes of a list of six-bit groups; one left-over group is an error.\<close>
fun b64_groups :: "nat list \<Rightarrow> bytes option" where
  "b64_groups [] = Some []"
| "b64_groups [a] = None"
| "b64_groups [a, b] = Some [of_nat ((a * 64 + b) div 16)]"
| "b64_groups [a, b, c] =
     (let n = (a * 64 + b) * 64 + c in Some [of_nat (n div 1024), of_nat (n div 4 mod 256)])"
| "b64_groups (a # b # c # d # r) =
     (let n = ((a * 64 + b) * 64 + c) * 64 + d
      in map_option (\<lambda>t. [of_nat (n div 65536), of_nat (n div 256 mod 256), of_nat (n mod 256)] @ t)
           (b64_groups r))"

text \<open>
  \<^verbatim>\<open>base64.RawStdEncoding.Decode\<close>: carriage returns and newlines are skipped, any other character
  outside the alphabet is an error.
\<close>
definition b64_decode :: "bytes \<Rightarrow> bytes option" where
  "b64_decode src =
     (let s = filter (\<lambda>c. c \<noteq> 10 \<and> c \<noteq> 13) src
      in if list_all (\<lambda>c. b64_index c \<noteq> None) s
         then b64_groups (map (\<lambda>c. the (b64_index c)) s)
         else None)"

definition EncodedLen :: "nat \<Rightarrow> nat" where
  "EncodedLen n = (n * 8 + 5) div 6"

definition DecodedLen :: "nat \<Rightarrow> nat" where
  "DecodedLen n = n * 6 div 8"


section \<open>AES in CBC mode\<close>

definition BlockSize :: nat where
  "BlockSize = 16"

record AesCBCCrypto =
  Key :: bytes

definition NewAesCBCCrypto :: "bytes \<Rightarrow> AesCBCCrypto" where
  "NewAesCBCCrypto key =
     (let keyLen = length key;
          count = (if keyLen \<le> 16 then 16 - keyLen
                   else if keyLen \<le> 24 then 24 - keyLen
                   else if keyLen \<le> 32 then 32 - keyLen
                   else 0);
          key1 = (if keyLen \<le> 32 then key else take 32 key)
      in \<lparr>Key = (if count \<noteq> 0 then key1 @ replicate count 0 else key1)\<rparr>)"

definition cbcIVPending :: "bytes \<Rightarrow> nat \<Rightarrow> bytes" where
  "cbcIVPending iv blockSize =
     (let k = length iv
      in if k < blockSize then iv @ replicate (blockSize - k) 0
         else if k > blockSize then take blockSize iv
         else iv)"

text \<open>\<^verbatim>\<open>aes.NewCipher\<close> accepts keys of 16, 24 and 32 bytes.\<close>
definition NewCipher :: "bytes \<Rightarrow> go_error" where
  "NewCipher key =
     (if length key \<in> {16, 24, 32} then nil
      else Some (''crypto/aes: invalid key size '' @ show_nat (length key)))"

definition xor_bytes :: "bytes \<Rightarrow> bytes \<Rightarrow> bytes" where
  "xor_bytes a b = map2 (XOR) a b"

text \<open>\<^verbatim>\<open>CryptBlocks\<close> of the CBC modes, on a whole number of blocks.\<close>
function cbc_encrypt :: "(bytes \<Rightarrow> bytes) \<Rightarrow> bytes \<Rightarrow> bytes \<Rightarrow> bytes" where
  "cbc_encrypt e iv src =
     (if src = [] then []
      else let c = e (xor_bytes (take BlockSize src) iv)
           in c @ cbc_encrypt e c (drop BlockSize src))"
  by pat_completeness auto
termination
  by (relation "measure (\<lambda>(e, iv, src). length src)") (auto simp: BlockSize_def)

function cbc_decrypt :: "(bytes \<Rightarrow> bytes) \<Rightarrow> bytes \<Rightarrow> bytes \<Rightarrow> bytes" where
  "cbc_decrypt d iv src =
     (if src = [] then []
      else xor_bytes (d (take BlockSize src)) iv
             @ cbc_decrypt d (take BlockSize src) (drop BlockSize src))"
  by pat_completeness auto
termination
  by (relation "measure (\<lambda>(d, iv, src). length src)") (auto simp: BlockSize_def)

declare cbc_encrypt.simps [simp del] cbc_decrypt.simps [simp del]

definition CryptBlocks :: "(bytes \<Rightarrow> bytes \<Rightarrow> bytes) \<Rightarrow> bytes \<Rightarrow> bytes \<Rightarrow> bytes outcome" where
  "CryptBlocks mode iv src =
     (if length src mod BlockSize \<noteq> 0 then Panic ''crypto/cipher: input not full blocks''
      else Ret (mode iv src))"

definition Encrypt ::
    "(bytes \<Rightarrow> bytes \<Rightarrow> bytes) \<Rightarrow> AesCBCCrypto \<Rightarrow> bytes \<Rightarrow> bytes \<Rightarrow> (string + bytes) outcome" where
  "Encrypt enc a src iv =
     (case NewCipher (Key a) of
        Some e \<Rightarrow> Ret (Inl e)
      | None \<Rightarrow>
          let blockSize = BlockSize;
              padding = blockSize - length src mod blockSize;
              src1 = src @ replicate padding (of_nat padding);
              iv1 = (if length iv \<noteq> blockSize then cbcIVPending iv blockSize else iv)
          in bind_outcome (CryptBlocks (cbc_encrypt (enc (Key a))) iv1 src1) (\<lambda>d. Ret (Inr d)))"

definition Decrypt ::
    "(bytes \<Rightarrow> bytes \<Rightarrow> bytes) \<Rightarrow> AesCBCCrypto \<Rightarrow> bytes \<Rightarrow> bytes \<Rightarrow> (string + bytes) outcome" where
  "Decrypt dec a src iv =
     (case NewCipher (Key a) of
        Some e \<Rightarrow> Ret (Inl e)
      | None \<Rightarrow>
          let iv1 = (if length iv \<noteq> BlockSize then cbcIVPending iv BlockSize else iv)
          in bind_outcome (CryptBlocks (cbc_decrypt (dec (Key a))) iv1 src) (\<lambda>dst.
               if length dst = 0 then Ret (Inl ''unpadding'')
               else let unpadding = unat (last dst)
                    in if length dst < unpadding then Ret (Inl ''unpadding'')
                       else Ret (Inr (take (length dst - unpadding) dst))))"

text \<open>The second argument of \<open>rd\<close> is the error of \<^verbatim>\<open>rand.Read\<close>, the first what it left in \<open>iv\<close>.\<close>
definition EncryptCredentials ::
    "('c \<Rightarrow> string + bytes) \<Rightarrow> (bytes \<Rightarrow> bytes \<Rightarrow> bytes) \<Rightarrow> bytes \<times> go_error \<Rightarrow>
     AesCBCCrypto \<Rightarrow> 'c \<Rightarrow> (string + bytes) outcome" where
  "EncryptCredentials marshal enc rd a c =
     (case marshal c of
        Inl e \<Rightarrow> Ret (Inl e)
      | Inr jsonBytes \<Rightarrow>
          (case rd of
             (_, Some e) \<Rightarrow> Ret (Inl e)
           | (iv, None) \<Rightarrow>
               bind_outcome (Encrypt enc a jsonBytes iv) (\<lambda>r.
                 case r of
                   Inl e \<Rightarrow> Ret (Inl e)
                 | Inr encryptBody \<Rightarrow> Ret (Inr (b64_encode (iv @ encryptBody))))))"

definition CorruptInput :: string where
  "CorruptInput = ''illegal base64 data''"

definition DecryptCredentials ::
    "(bytes \<Rightarrow> string + 'c) \<Rightarrow> (bytes \<Rightarrow> bytes \<Rightarrow> bytes) \<Rightarrow> AesCBCCrypto \<Rightarrow> bytes \<Rightarrow>
     (string + 'c) outcome" where
  "DecryptCredentials unmarshal dec a src =
     (case b64_decode src of
        None \<Rightarrow> Ret (Inl CorruptInput)
      | Some d \<Rightarrow>
          let encrypt = d @ replicate (DecodedLen (length src) - length d) 0
          in if length encrypt < BlockSize then Panic ''slice bounds out of range''
             else bind_outcome (Decrypt dec a (drop BlockSize encrypt) (take BlockSize encrypt)) (\<lambda>r.
                    case r of
                      Inl e \<Rightarrow> Ret (Inl e)
                    | Inr jsonBytes \<Rightarrow> Ret (unmarshal jsonBytes)))"

text \<open>
  \<^verbatim>\<open>NewAuthenticator\<close> derives the key by \<^verbatim>\<open>sha512.New().Sum([]byte(key))\<close>, which appends the hash
  of the empty input to the key; \<open>empty_sum\<close> is that hash.
\<close>
definition authenticator_crypto :: "bytes \<Rightarrow> string \<Rightarrow> AesCBCCrypto" where
  "authenticator_crypto empty_sum key = NewAesCBCCrypto (bytes_of_string key @ empty_sum)"


section \<open>Base64 round trip\<close>

lemma find_from_nth:
  "distinct xs \<Longrightarrow> n < length xs \<Longrightarrow> find_from k xs (xs ! n) = Some (k + n)"
proof (induction xs arbitrary: n k)
  case (Cons x xs)
  then show ?case by (cases n) auto
qed simp

lemma inj_byte_of_char: "inj (\<lambda>c. of_nat (of_char c) :: byte)"
  by (rule injI) (metis of_char_eq_iff unat_of_char)

lemma length_b64_alphabet [simp]: "length b64_alphabet = 64"
  by (simp add: b64_alphabet_def)

lemma distinct_b64: "distinct (bytes_of_string b64_alphabet)"
proof -
  have "distinct b64_alphabet" by (simp add: b64_alphabet_def)
  then show ?thesis
    unfolding bytes_of_string_def distinct_map
    using inj_byte_of_char by (blast intro: inj_on_subset)
qed

lemma b64_char_nth: "n < 64 \<Longrightarrow> b64_char n = bytes_of_string b64_alphabet ! n"
  by (simp add: b64_char_def bytes_of_string_def)

lemma b64_index_char [simp]:
  assumes "n < 64" shows "b64_index (b64_char n) = Some n"
  using find_from_nth [OF distinct_b64, of n 0] assms
  by (simp add: b64_index_def b64_char_nth)

lemma b64_char_not_newline [simp]:
  assumes "n < 64" shows "b64_char n \<noteq> 10" "b64_char n \<noteq> 13"
proof -
  have in_set: "b64_alphabet ! n \<in> set b64_alphabet" using assms by simp
  have nl: "(10 :: byte) = of_nat (of_char (CHR 0x0A))" "(13 :: byte) = of_nat (of_char (CHR 0x0D))"
    by simp_all
  have "CHR 0x0A \<notin> set b64_alphabet" "CHR 0x0D \<notin> set b64_alphabet"
    by (simp_all add: b64_alphabet_def)
  then show "b64_char n \<noteq> 10" "b64_char n \<noteq> 13"
    unfolding b64_char_def nl using in_set injD [OF inj_byte_of_char] by metis+
qed

text \<open>The six-bit groups that \<open>b64_encode\<close> writes.\<close>
fun b64_sextets :: "bytes \<Rightarrow> nat list" where
  "b64_sextets [] = []"
| "b64_sextets [a] = (let n = unat a * 16 in [n div 64, n mod 64])"
| "b64_sextets [a, b] =
     (let n = (unat a * 256 + unat b) * 4 in [n div 4096, n div 64 mod 64, n mod 64])"
| "b64_sextets (a # b # c # r) =
     (let n = (unat a * 256 + unat b) * 256 + unat c
      in [n div 262144, n div 4096 mod 64, n div 64 mod 64, n mod 64] @ b64_sextets r)"

lemma byte_lt: "unat (b :: byte) < 256"
  using unsigned_less [of b, where ?'a = nat] by simp

lemma b64_encode_sextets: "b64_encode bs = map b64_char (b64_sextets bs)"
  by (induction bs rule: b64_encode.induct) (simp_all add: Let_def)

lemma b64_sextets_lt: "n \<in> set (b64_sextets bs) \<Longrightarrow> n < 64"
proof (induction bs rule: b64_sextets.induct)
  case (2 a)
  have "unat a * 16 < 64 * 64" using byte_lt [of a] by linarith
  then have "unat a * 16 div 64 < 64" by (rule less_mult_imp_div_less)
  then show ?case using 2 by (auto simp: Let_def simp del: div_mult_mult1 div_mult_mult2)
next
  case (3 a b)
  have "unat a \<le> 255" "unat b \<le> 255" using byte_lt [of a] byte_lt [of b] by simp_all
  then have "(unat a * 256 + unat b) * 4 < 64 * 4096" by simp
  then have "(unat a * 256 + unat b) * 4 div 4096 < 64" by (simp add: less_mult_imp_div_less)
  then show ?case using 3 by (auto simp: Let_def)
next
  case (4 a b c r)
  have "unat a \<le> 255" "unat b \<le> 255" "unat c \<le> 255"
    using byte_lt [of a] byte_lt [of b] byte_lt [of c] by simp_all
  then have "(unat a * 256 + unat b) * 256 + unat c < 64 * 262144" by simp
  then have "((unat a * 256 + unat b) * 256 + unat c) div 262144 < 64"
    by (simp add: less_mult_imp_div_less)
  then show ?case using 4 by (auto simp: Let_def)
qed simp

lemma sextet_step:
  fixes n :: nat
  shows "n div (m * 64) * 64 + n div m mod 64 = n div m"
  by (metis div_mult2_eq div_mult_mod_eq)

lemma byte_step:
  fixes x :: nat
  shows "(x * 256 + unat (c :: byte)) div 256 = x" "(x * 256 + unat c) mod 256 = unat c"
  using byte_lt [of c] by simp_all

lemma b64_groups_sextets: "b64_groups (b64_sextets bs) = Some bs"
proof (induction bs rule: b64_sextets.induct)
  case (2 a)
  have "(unat a * 16 div 64 * 64 + unat a * 16 mod 64) div 16 = unat a"
    unfolding div_mult_mod_eq by simp
  then show ?case unfolding b64_sextets.simps Let_def b64_groups.simps by simp
next
  case (3 a b)
  let ?n = "(unat a * 256 + unat b) * 4"
  have n: "(?n div 4096 * 64 + ?n div 64 mod 64) * 64 + ?n mod 64 = ?n"
    using sextet_step [of ?n 64] by (simp only: mult_numeral_left_semiring_numeral
        arith_simps div_mult_mod_eq numeral_times_numeral)
  have "?n div 1024 = ?n div 4 div 256" by (simp only: div_mult2_eq [symmetric]) simp
  then have d: "?n div 1024 = unat a" "?n div 4 mod 256 = unat b"
    using byte_lt [of b] by simp_all
  show ?case unfolding b64_sextets.simps Let_def b64_groups.simps n d by simp
next
  case (4 a b c r)
  let ?n = "(unat a * 256 + unat b) * 256 + unat c"
  have n: "((?n div 262144 * 64 + ?n div 4096 mod 64) * 64 + ?n div 64 mod 64) * 64 + ?n mod 64 = ?n"
    using sextet_step [of ?n 4096] sextet_step [of ?n 64]
    by (simp only: numeral_times_numeral arith_simps div_mult_mod_eq)
  have "?n div 65536 = ?n div 256 div 256" by (simp only: div_mult2_eq [symmetric]) simp
  then have d: "?n div 65536 = unat a" "?n div 256 mod 256 = unat b" "?n mod 256 = unat c"
    by (simp_all only: byte_step)
  show ?case
    unfolding b64_sextets.simps Let_def append_Cons append_Nil b64_groups.simps n d
    using 4 by simp
qed simp

lemma b64_roundtrip: "b64_decode (b64_encode bs) = Some bs"
proof -
  have f: "filter (\<lambda>c. c \<noteq> 10 \<and> c \<noteq> 13) (b64_encode bs) = b64_encode bs"
    by (auto simp: b64_encode_sextets filter_id_conv dest: b64_sextets_lt)
  have i: "list_all (\<lambda>c. b64_index c \<noteq> None) (b64_encode bs)"
    by (auto simp: b64_encode_sextets list_all_iff dest: b64_sextets_lt)
  have "map (\<lambda>c. the (b64_index c)) (b64_encode bs) = b64_sextets bs"
    by (auto simp: b64_encode_sextets intro!: map_idI dest: b64_sextets_lt)
  then show ?thesis 
    unfolding b64_decode_def f Let_def using i b64_groups_sextets by simp
qed

lemma length_b64_encode: "length (b64_encode bs) = EncodedLen (length bs)"
  by (induction bs rule: b64_encode.induct) (simp_all add: Let_def EncodedLen_def)

lemma DecodedLen_EncodedLen [simp]: "DecodedLen (EncodedLen n) = n"
  by (simp add: DecodedLen_def EncodedLen_def; presburger)


section \<open>CBC round trip\<close>

lemma length_xor_bytes [simp]: "length (xor_bytes a b) = min (length a) (length b)"
  by (simp add: xor_bytes_def)

lemma xor_bytes_cancel: "length a \<le> length b \<Longrightarrow> xor_bytes (xor_bytes a b) b = a"
  by (auto simp: xor_bytes_def intro!: nth_equalityI simp: xor.assoc)

lemma length_cbcIVPending [simp]: "length (cbcIVPending iv n) = n"
  by (auto simp: cbcIVPending_def Let_def)

lemma cbc_encrypt_Nil [simp]: "cbc_encrypt e iv [] = []"
  by (simp add: cbc_encrypt.simps)

lemma cbc_decrypt_Nil [simp]: "cbc_decrypt d iv [] = []"
  by (simp add: cbc_decrypt.simps)

text \<open>\<open>e\<close> and \<open>d\<close> are inverse on blocks.\<close>
definition block_inverse :: "(bytes \<Rightarrow> bytes) \<Rightarrow> (bytes \<Rightarrow> bytes) \<Rightarrow> bool" where
  "block_inverse e d =
     (\<forall>b. length b = BlockSize \<longrightarrow> length (e b) = BlockSize \<and> d (e b) = b)"

lemma block_inverseD:
  assumes "block_inverse e d" "length b = BlockSize"
  shows "length (e b) = BlockSize" "d (e b) = b"
  using assms by (auto simp: block_inverse_def)

lemma cbc_roundtrip:
  assumes "block_inverse e d"
  shows "length iv = BlockSize \<Longrightarrow> length src = n * BlockSize \<Longrightarrow>
    length (cbc_encrypt e iv src) = length src \<and> cbc_decrypt d iv (cbc_encrypt e iv src) = src"
proof (induction n arbitrary: iv src)
  case 0
  then show ?case by simp
next
  case (Suc n)
  define c where "c = e (xor_bytes (take BlockSize src) iv)"
  have ne: "src \<noteq> []" using Suc.prems by (auto simp: BlockSize_def)
  have x: "length (xor_bytes (take BlockSize src) iv) = BlockSize" using Suc.prems by simp
  have c: "length c = BlockSize" "d c = xor_bytes (take BlockSize src) iv"
    using block_inverseD [OF assms x] by (simp_all add: c_def)
  then have cne: "c \<noteq> []" by (auto simp: BlockSize_def)
  have enc: "cbc_encrypt e iv src = c @ cbc_encrypt e c (drop BlockSize src)"
    using ne by (subst cbc_encrypt.simps) (simp add: c_def Let_def)
  have IH: "length (cbc_encrypt e c (drop BlockSize src)) = n * BlockSize"
    "cbc_decrypt d c (cbc_encrypt e c (drop BlockSize src)) = drop BlockSize src"
    using Suc.IH [of c "drop BlockSize src"] Suc.prems c by simp_all
  have "cbc_decrypt d iv (cbc_encrypt e iv src) =
        xor_bytes (xor_bytes (take BlockSize src) iv) iv @ drop BlockSize src"
    unfolding enc using c cne IH by (subst cbc_decrypt.simps) simp
  then show ?case using enc IH c Suc.prems by (simp add: xor_bytes_cancel)
qed

lemma padded_length:
  fixes n :: nat
  shows "(n + (BlockSize - n mod BlockSize)) mod BlockSize = 0"
    "0 < BlockSize - n mod BlockSize" "BlockSize - n mod BlockSize \<le> 16"
  unfolding BlockSize_def by presburger+

lemma Encrypt_Decrypt:
  assumes key: "NewCipher (Key a) = nil" and inv: "block_inverse (enc (Key a)) (dec (Key a))"
    and iv: "length iv = BlockSize"
  obtains c where "Encrypt enc a src iv = Ret (Inr c)" "Decrypt dec a c iv = Ret (Inr src)"
proof -
  define p where "p = BlockSize - length src mod BlockSize"
  define src1 where "src1 = src @ replicate p (of_nat p)"
  define c where "c = cbc_encrypt (enc (Key a)) iv src1"
  have p: "0 < p" "p \<le> 16" "length src1 mod BlockSize = 0"
    using padded_length [of "length src"] by (simp_all add: p_def src1_def)
  then obtain n where n: "length src1 = n * BlockSize"
    by (metis mod_eq_0_iff_dvd dvd_def mult.commute)
  have rt: "length c = length src1" "cbc_decrypt (dec (Key a)) iv c = src1"
    using cbc_roundtrip [OF inv iv n] by (simp_all add: c_def)
  have "Encrypt enc a src iv = Ret (Inr c)"
    using p(3) key iv
    by (simp add: Encrypt_def CryptBlocks_def c_def src1_def p_def Let_def)
  moreover have "unat (last src1) = p" "length src1 - p = length src" "src1 \<noteq> []" "p \<le> length src1"
    using p by (simp_all add: src1_def last_append unat_of_nat)
  then have "Decrypt dec a c iv = Ret (Inr src)"
    using p(3) key iv rt by (simp add: Decrypt_def CryptBlocks_def Let_def src1_def)
  ultimately show ?thesis by (rule that)
qed

lemma NewAesCBCCrypto_key: "NewCipher (Key (NewAesCBCCrypto k)) = nil"
  by (auto simp: NewAesCBCCrypto_def NewCipher_def Let_def)

text \<open>
  Encrypting credentials and decrypting the token gives the credentials back, for any
  secret key (it is padded or cut to a length AES accepts) and any initialisation vector of a
  block. The block cipher is assumed to decrypt what it encrypts, and JSON to decode what it
  encodes for these credentials.
\<close>
theorem Credentials_roundtrip:
  assumes inv: "block_inverse (enc (Key a)) (dec (Key a))"
    and key: "a = NewAesCBCCrypto k"
    and json: "marshal c = Inr j" "unmarshal j = Inr c"
    and iv: "length iv = BlockSize"
  shows "\<exists>token. EncryptCredentials marshal enc (iv, nil) a c = Ret (Inr token) \<and>
    length token = EncodedLen (BlockSize + length j + (BlockSize - length j mod BlockSize)) \<and>
    DecryptCredentials unmarshal dec a token = Ret (Inr c)"
proof -
  have k: "NewCipher (Key a) = nil" by (simp add: key NewAesCBCCrypto_key)
  from Encrypt_Decrypt [where enc = enc and dec = dec, OF k inv iv] obtain b where
    b: "Encrypt enc a j iv = Ret (Inr b)" "Decrypt dec a b iv = Ret (Inr j)" .
  have len: "length b = length j + (BlockSize - length j mod BlockSize)"
  proof -
    let ?s = "j @ replicate (BlockSize - length j mod BlockSize)
                      (of_nat (BlockSize - length j mod BlockSize))"
    have m: "length ?s mod BlockSize = 0" using padded_length(1) by simp
    then obtain n where "length ?s = n * BlockSize" by (metis mod_eq_0_iff_dvd dvd_def mult.commute)
    then have "length (cbc_encrypt (enc (Key a)) iv ?s) = length ?s"
      using cbc_roundtrip [OF inv iv] by blast
    moreover have "b = cbc_encrypt (enc (Key a)) iv ?s"
      using b(1) k iv m by (simp add: Encrypt_def CryptBlocks_def Let_def)
    ultimately show ?thesis by simp
  qed
  have "EncryptCredentials marshal enc (iv, nil) a c = Ret (Inr (b64_encode (iv @ b)))"
    using json b by (simp add: EncryptCredentials_def)
  moreover have "DecryptCredentials unmarshal dec a (b64_encode (iv @ b)) = Ret (Inr c)"
    using b json iv
    by (simp add: DecryptCredentials_def b64_roundtrip length_b64_encode Let_def)
  moreover have "length (b64_encode (iv @ b)) =
      EncodedLen (BlockSize + length j + (BlockSize - length j mod BlockSize))"
    using len iv by (simp add: length_b64_encode add.assoc)
  ultimately show ?thesis by blast
qed


text \<open>A concrete cipher that satisfies \<open>block_inverse\<close>: exclusive or with the key.\<close>
lemma block_inverse_xor:
  assumes "length k \<ge> BlockSize"
  shows "block_inverse (\<lambda>b. xor_bytes b (take BlockSize k)) (\<lambda>b. xor_bytes b (take BlockSize k))"
  using assms by (simp add: block_inverse_def xor_bytes_cancel)

lemma length_Key_NewAesCBCCrypto: "length (Key (NewAesCBCCrypto k)) \<in> {16, 24, 32}"
  by (auto simp: NewAesCBCCrypto_def Let_def)

theorem Credentials_roundtrip_witness:
  "\<exists>token. EncryptCredentials Inr (\<lambda>k b. xor_bytes b (take BlockSize k)) (replicate 16 7, nil)
      (NewAesCBCCrypto [1, 2, 3]) [65, 66 :: byte] = Ret (Inr token) \<and>
    length token = EncodedLen (BlockSize + length [65, 66 :: byte] +
      (BlockSize - length [65, 66 :: byte] mod BlockSize)) \<and>
    DecryptCredentials Inr (\<lambda>k b. xor_bytes b (take BlockSize k)) (NewAesCBCCrypto [1, 2, 3]) token
      = Ret (Inr [65, 66])"
proof (rule Credentials_roundtrip)
  have "length (Key (NewAesCBCCrypto [1, 2, 3])) \<ge> BlockSize"
    using length_Key_NewAesCBCCrypto [of "[1, 2, 3]"] by (auto simp: BlockSize_def)
  then show "block_inverse (\<lambda>b. xor_bytes b (take BlockSize (Key (NewAesCBCCrypto [1, 2, 3]))))
      (\<lambda>b. xor_bytes b (take BlockSize (Key (NewAesCBCCrypto [1, 2, 3]))))"
    by (rule block_inverse_xor)
qed (simp_all add: BlockSize_def)

lemma length_cbc_decrypt:
  assumes "\<And>b. length b = BlockSize \<Longrightarrow> length (d b) = BlockSize"
  shows "length iv = BlockSize \<Longrightarrow> length src = n * BlockSize \<Longrightarrow>
    length (cbc_decrypt d iv src) = length src"
proof (induction n arbitrary: iv src)
  case (Suc n)
  then have "src \<noteq> []" by (auto simp: BlockSize_def)
  then show ?case
    using Suc.prems Suc.IH [of "take BlockSize src" "drop BlockSize src"] assms [of "take BlockSize src"]
    by (subst cbc_decrypt.simps) simp
qed simp

text \<open>
  The tokens on which \<open>DecryptCredentials\<close> panics are exactly those that are valid base64
  (here without line breaks) for a byte string shorter than a block or not a whole number of
  blocks. The only check made before the call is that the token has five characters.
\<close>
theorem DecryptCredentials_panics:
  assumes dec: "b64_decode src = Some d" and len: "length d = DecodedLen (length src)"
  shows "(\<exists>m. DecryptCredentials unmarshal (dec :: bytes \<Rightarrow> bytes \<Rightarrow> bytes) (NewAesCBCCrypto k) src = Panic m)
    = (length d < BlockSize \<or> length d mod BlockSize \<noteq> 0)"
proof -
  have k: "NewCipher (Key (NewAesCBCCrypto k)) = nil" by (rule NewAesCBCCrypto_key)
  have m: "BlockSize \<le> length d \<Longrightarrow> (length d - BlockSize) mod BlockSize = length d mod BlockSize"
    by (simp add: le_mod_geq)
  show ?thesis
  proof (cases "length d < BlockSize")
    case True
    then show ?thesis using dec len by (simp add: DecryptCredentials_def Let_def)
  next
    case False
    then show ?thesis
      using dec len k m
      by (simp add: DecryptCredentials_def Decrypt_def CryptBlocks_def Let_def split: sum.split)
  qed
qed

theorem DecryptCredentials_panics_witness:
  "(\<exists>m. DecryptCredentials (Inr :: bytes \<Rightarrow> string + bytes) (\<lambda>k b. b) (NewAesCBCCrypto [])
      (b64_encode [0, 0, 0, 0]) = Panic m)
   = (length [0, 0, 0, 0 :: byte] < BlockSize \<or> length [0, 0, 0, 0 :: byte] mod BlockSize \<noteq> 0)"
  by (rule DecryptCredentials_panics) (simp_all only: b64_roundtrip length_b64_encode DecodedLen_EncodedLen)

text \<open>
  The AES key of the gateway is the first 32 bytes of the configured secret followed by a
  constant; the secret is not hashed. Two secrets with the same first 32 characters are the same
  key.
\<close>
theorem authenticator_key_not_hashed:
  assumes "length empty_sum = 64"
  shows "Key (authenticator_crypto empty_sum key) = take 32 (bytes_of_string key @ empty_sum) \<and>
    (length p = 32 \<longrightarrow>
      authenticator_crypto empty_sum (p @ s) = authenticator_crypto empty_sum (p @ s'))"
  using assms
  by (auto simp: authenticator_crypto_def NewAesCBCCrypto_def Let_def bytes_of_string_def)

theorem authenticator_key_not_hashed_witness:
  "Key (authenticator_crypto (replicate 64 0) ''secret'') =
     take 32 (bytes_of_string ''secret'' @ replicate 64 0) \<and>
   authenticator_crypto (replicate 64 0) (replicate 32 CHR ''k'' @ ''1'') =
     authenticator_crypto (replicate 64 0) (replicate 32 CHR ''k'' @ ''2'')"
  using authenticator_key_not_hashed [of "replicate 64 0" "''secret''" "replicate 32 CHR ''k''" "''1''" "''2''"]
  by simp

end
