(* ===== verification/GateId.thy ===== *)
theory GateId
  imports Prelude
begin

text \<open>
  Client identifiers (\<^verbatim>\<open>pkg/gate/client.go\<close>, \<^verbatim>\<open>pkg/gate/id.go\<close>, \<^verbatim>\<open>pkg/gate/errors.go\<close>).

  An \<open>ID\<close> is a string of three parts joined by an underscore: gateway, user id, device. The
  methods with a pointer receiver that change the identifier return the new identifier beside
  their result. \<open>newUUID\<close> takes the outcome of reading sixteen random bytes as its argument.

  The lemmas show that the accessors invert the constructors, that \<open>SetGateway\<close> puts an
  identifier into a normal form (idempotent, keeps user and device), and that temporary
  identifiers are recognised as such.
\<close>

section \<open>Definitions\<close>

type_synonym ID = string

definition tempIdPrefix :: string where
  "tempIdPrefix = ''tmp@''"

definition idSeparator :: char where
  "idSeparator = CHR ''_''"

definition NewID2 :: "string \<Rightarrow> ID" where
  "NewID2 uid = join_with idSeparator ['''', uid, '''']"

definition NewID :: "string \<Rightarrow> string \<Rightarrow> string \<Rightarrow> ID" where
  "NewID gate uid device = join_with idSeparator [gate, uid, device]"

definition getPart :: "ID \<Rightarrow> nat \<Rightarrow> string" where
  "getPart i index =
     (let s = split_on idSeparator i
      in if index \<ge> length s then '''' else s ! index)"

definition Device :: "ID \<Rightarrow> string" where
  "Device i = getPart i 2"

definition UID :: "ID \<Rightarrow> string" where
  "UID i = getPart i 1"

definition Gateway :: "ID \<Rightarrow> string" where
  "Gateway i = getPart i 0"

definition SetGateway :: "ID \<Rightarrow> string \<Rightarrow> bool \<times> ID" where
  "SetGateway i gateway =
     (if has_prefix i gateway then (False, i)
      else let s = split_on idSeparator i
           in if length s \<noteq> 3 then (False, i)
              else (True, join_with idSeparator (s[0 := gateway])))"

definition SetDevice :: "ID \<Rightarrow> string \<Rightarrow> bool \<times> ID" where
  "SetDevice i device =
     (if has_suffix i device then (False, i)
      else let s = split_on idSeparator i
           in if length s \<noteq> 3 then (False, i)
              else (True, join_with idSeparator (s[2 := device])))"

definition IsTemp :: "ID \<Rightarrow> bool" where
  "IsTemp i = has_prefix (getPart i 1) tempIdPrefix"

definition Equals :: "ID \<Rightarrow> ID \<Rightarrow> bool" where
  "Equals i other = (UID i @ Device i = UID other @ Device other)"

text \<open>\<^verbatim>\<open>pkg/gate/errors.go\<close>.\<close>

definition errClientClosed :: string where
  "errClientClosed = ''client closed''"

definition errClientNotExist :: string where
  "errClientNotExist = ''client does not exist''"

definition errClientAlreadyExist :: string where
  "errClientAlreadyExist = ''id already exist''"

definition IsClientClosed :: "go_error \<Rightarrow> bool" where
  "IsClientClosed err = (err = Some errClientClosed)"

definition IsClientNotExist :: "go_error \<Rightarrow> bool" where
  "IsClientNotExist err = (err = Some errClientNotExist)"

definition IsIDAlreadyExist :: "go_error \<Rightarrow> bool" where
  "IsIDAlreadyExist err = (err = Some errClientAlreadyExist)"

text \<open>
  \<^verbatim>\<open>pkg/gate/id.go\<close>. The argument is what \<^verbatim>\<open>io.ReadFull\<close> left in the sixteen-byte array, and
  its error.
\<close>

definition newUUID :: "bytes \<times> go_error \<Rightarrow> string \<times> go_error" where
  "newUUID rd =
     (case rd of
        (_, Some e) \<Rightarrow> ('''', Some e)
      | (u, None) \<Rightarrow>
          let u1 = u[6 := ((u ! 6) AND 0x0f) OR 0x40];
              uuid = u1[8 := ((u1 ! 8) AND 0x3f) OR 0x80]
          in (hex_encode (take 4 uuid) @ ''-'' @
              hex_encode (take 2 (drop 4 uuid)) @ ''-'' @
              hex_encode (take 2 (drop 6 uuid)) @ ''-'' @
              hex_encode (take 2 (drop 8 uuid)) @ ''-'' @
              hex_encode (drop 10 uuid), None))"

definition GenTempID :: "bytes \<times> go_error \<Rightarrow> string \<Rightarrow> ID \<times> go_error" where
  "GenTempID rd gateID =
     (case newUUID rd of
        (_, Some e) \<Rightarrow> ('''', Some e)
      | (uuid, None) \<Rightarrow> (NewID gateID (tempIdPrefix @ uuid) '''', None))"


section \<open>Lemmas\<close>

lemmas id_defs = NewID_def NewID2_def getPart_def Gateway_def UID_def Device_def idSeparator_def

lemma NewID2_NewID: "NewID2 uid = NewID '''' uid ''''"
  by (simp add: NewID2_def NewID_def)

lemma split_NewID:
  assumes "CHR ''_'' \<notin> set g" "CHR ''_'' \<notin> set u" "CHR ''_'' \<notin> set d"
  shows "split_on CHR ''_'' (NewID g u d) = [g, u, d]"
  unfolding NewID_def idSeparator_def
  by (rule split_on_join_with) (use assms in auto)

lemma NewID_accessors [go_str]:
  assumes "CHR ''_'' \<notin> set g" "CHR ''_'' \<notin> set u" "CHR ''_'' \<notin> set d"
  shows "Gateway (NewID g u d) = g" "UID (NewID g u d) = u" "Device (NewID g u d) = d"
  using split_NewID [OF assms] by (simp_all add: id_defs)

lemma three_parts:
  assumes "length (split_on CHR ''_'' i) = 3"
  obtains g u d where "split_on CHR ''_'' i = [g, u, d]" "i = NewID g u d"
    "CHR ''_'' \<notin> set g" "CHR ''_'' \<notin> set u" "CHR ''_'' \<notin> set d"
proof -
  from assms obtain g u d where s: "split_on CHR ''_'' i = [g, u, d]"
    by (auto simp: length_Suc_conv numeral_3_eq_3)
  have "i = NewID g u d"
    using join_with_split_on [of "CHR ''_''" i] s by (simp add: NewID_def idSeparator_def)
  moreover have "CHR ''_'' \<notin> set g" "CHR ''_'' \<notin> set u" "CHR ''_'' \<notin> set d"
    using split_on_parts_no_sep [of _ "CHR ''_''" i] s by auto
  ultimately show ?thesis using s that by blast
qed

lemma has_prefix_NewID [simp]: "has_prefix (NewID g u d) g"
  by (simp add: NewID_def)

lemma SetGateway_NewID:
  assumes "CHR ''_'' \<notin> set g" "CHR ''_'' \<notin> set u" "CHR ''_'' \<notin> set d"
  shows "SetGateway (NewID g u d) g' =
           (if has_prefix (NewID g u d) g' then (False, NewID g u d) else (True, NewID g' u d))"
  by (simp add: SetGateway_def split_NewID [OF assms] idSeparator_def NewID_def [of g']
      del: join_with.simps)

lemma SetGateway_cases:
  "SetGateway i g = (False, i) \<or>
   (\<exists>g0 u d. i = NewID g0 u d \<and> CHR ''_'' \<notin> set u \<and> CHR ''_'' \<notin> set d \<and>
      SetGateway i g = (True, NewID g u d))"
proof (cases "has_prefix i g \<or> length (split_on CHR ''_'' i) \<noteq> 3")
  case True
  then show ?thesis by (auto simp: SetGateway_def idSeparator_def)
next
  case False
  then obtain g0 u d where p: "split_on CHR ''_'' i = [g0, u, d]" "i = NewID g0 u d"
    "CHR ''_'' \<notin> set g0" "CHR ''_'' \<notin> set u" "CHR ''_'' \<notin> set d"
    by (blast elim: three_parts)
  then show ?thesis
    using False SetGateway_NewID [of g0 u d g] by auto
qed

lemma SetGateway_idem_aux: "SetGateway (snd (SetGateway i g)) g = (False, snd (SetGateway i g))"
proof -
  have "SetGateway (NewID g u d) g = (False, NewID g u d)" for u d
    by (simp add: SetGateway_def)
  then show ?thesis using SetGateway_cases [of i g] by auto
qed

text \<open>\<open>normID g i\<close> is the key under which the gateway \<open>g\<close> files the identifier \<open>i\<close>.\<close>

abbreviation normID :: "string \<Rightarrow> ID \<Rightarrow> ID" where
  "normID g i \<equiv> snd (SetGateway i g)"

lemma normID_idem [simp]: "normID g (normID g i) = normID g i"
  by (simp add: SetGateway_idem_aux)

lemma normID_own [simp]: "normID g (NewID g u d) = NewID g u d"
  by (simp add: SetGateway_def)

lemma hex_encode_no_sep: "CHR ''_'' \<notin> set (hex_encode bs)"
  using hex_encode_chars [of "CHR ''_''" bs] by auto

lemma newUUID_no_sep: "newUUID (u, None) = (s, None) \<Longrightarrow> CHR ''_'' \<notin> set s"
  by (auto simp: newUUID_def Let_def hex_encode_no_sep)

lemma IsTemp_UID: "IsTemp i = has_prefix (UID i) tempIdPrefix"
  by (simp add: IsTemp_def UID_def)

lemma fst_GenTempID:
  "GenTempID rd g = (i, None) \<Longrightarrow>
     \<exists>uuid. i = NewID g (tempIdPrefix @ uuid) '''' \<and> CHR ''_'' \<notin> set uuid"
  by (cases rd; cases "snd rd")
     (auto simp: GenTempID_def newUUID_def Let_def hex_encode_no_sep
           split: option.splits prod.splits)


lemma unat_high_nibble: "unat (drop_bit 4 (w :: byte)) = unat w div 16"
  by (simp only: unat_drop_bit_eq) (simp add: drop_bit_eq_div)

lemma version_nibble: "unat ((b AND 0x0f) OR 0x40 :: byte) div 16 = 4"
proof -
  have "drop_bit 4 ((b AND 0x0f) OR 0x40 :: byte) = 4"
    by (simp only: drop_bit_or drop_bit_and) simp
  then show ?thesis by (simp flip: unat_high_nibble)
qed

lemma variant_nibble: "unat ((b AND 0x3f) OR 0x80 :: byte) div 16 \<in> {8, 9, 10, 11}"
proof -
  let ?c = "drop_bit 4 b AND 3"
  have 1: "drop_bit 4 ((b AND 0x3f) OR 0x80 :: byte) = ?c OR 8"
    by (simp only: drop_bit_or drop_bit_and) simp
  have "unat ?c \<le> unat (3 :: byte)"
    by (rule word_and_le1 [THEN word_le_nat_alt [THEN iffD1]])
  then have "unat ?c \<in> {0,1,2,3}" by auto
  then have "?c \<in> of_nat ` {0, 1, 2, 3 :: nat}"
    by (intro image_eqI [of _ _ "unat ?c"]) simp_all
  then have "?c \<in> {0, 1, 2, 3}" by simp
  then have "unat (?c OR 8) \<in> {8, 9, 10, 11}" by auto
  then show ?thesis unfolding unat_high_nibble [symmetric] 1 .
qed

lemma length_16E:
  assumes "length u = 16"
  obtains b0 b1 b2 b3 b4 b5 b6 b7 b8 b9 b10 b11 b12 b13 b14 b15 where
    "u = [b0, b1, b2, b3, b4, b5, b6, b7, b8, b9, b10, b11, b12, b13, b14, b15]"
  using assms by (auto simp: eval_nat_numeral length_Suc_conv)

lemma newUUID_shape:
  assumes "length u = 16" "newUUID (u, None) = (uuid, err)"
  shows "err = None \<and> length uuid = 36 \<and>
            uuid ! 8 = CHR ''-'' \<and> uuid ! 13 = CHR ''-'' \<and> uuid ! 18 = CHR ''-'' \<and>
            uuid ! 23 = CHR ''-'' \<and> uuid ! 14 = CHR ''4'' \<and> uuid ! 19 \<in> set ''89ab''"
proof -
  have v: "hex_digit n \<in> set ''89ab''" if "n \<in> {8, 9, 10, 11}" for n
    using that by (auto simp: hex_digit_def)
  obtain b0 b1 b2 b3 b4 b5 b6 b7 b8 b9 b10 b11 b12 b13 b14 b15 where
    u: "u = [b0, b1, b2, b3, b4, b5, b6, b7, b8, b9, b10, b11, b12, b13, b14, b15]"
    using assms(1) by (rule length_16E)
  have uuid: "uuid = hex_encode [b0, b1, b2, b3] @ ''-'' @ hex_encode [b4, b5] @ ''-'' @
      hex_encode [(b6 AND 0x0f) OR 0x40, b7] @ ''-'' @
      hex_encode [(b8 AND 0x3f) OR 0x80, b9] @ ''-'' @ hex_encode [b10, b11, b12, b13, b14, b15]"
    "err = None"
    using assms(2) by (simp_all add: u newUUID_def)
  show ?thesis
    using v [OF variant_nibble [of b8]]
    unfolding uuid hex_encode_def hex_byte_def
    by (simp add: version_nibble hex_digit_def [of 4])
qed


section \<open>Properties\<close>



text \<open>
  \<open>SetGateway\<close> on an identifier of three parts whose text does not begin with the
  gateway's name replaces the gateway part and keeps the user and the device; applied again
  it changes nothing.
\<close>
theorem SetGateway_normalises:
  assumes "length (split_on idSeparator i) = 3" "\<not> has_prefix i g" "CHR ''_'' \<notin> set g"
    "SetGateway i g = (b, j)"
  shows "b \<and> Gateway j = g \<and> UID j = UID i \<and> Device j = Device i \<and>
         SetGateway j g = (False, j)"
proof -
  obtain g0 u d where p: "i = NewID g0 u d" "CHR ''_'' \<notin> set g0" "CHR ''_'' \<notin> set u"
    "CHR ''_'' \<notin> set d"
    using assms(1) by (auto simp: idSeparator_def elim: three_parts)
  have j: "b" "j = NewID g u d"
    using assms(2,4) SetGateway_NewID [OF p(2-4), of g] p(1) by auto
  show ?thesis
    using j p assms(3) SetGateway_idem_aux [of i g] assms(4) by (simp add: NewID_accessors)
qed

theorem SetGateway_normalises_witness:
  "SetGateway ''_empty-uid_'' ''gateway'' = (True, ''gateway_empty-uid_'') \<and>
   Gateway ''gateway_empty-uid_'' = ''gateway'' \<and> UID ''gateway_empty-uid_'' = UID ''_empty-uid_'' \<and>
   SetGateway ''gateway_empty-uid_'' ''gateway'' = (False, ''gateway_empty-uid_'')"
proof -
  have s: "SetGateway ''_empty-uid_'' ''gateway'' = (True, ''gateway_empty-uid_'')"
    by (simp add: SetGateway_def has_prefix_def idSeparator_def)
  show ?thesis
    using SetGateway_normalises [OF _ _ _ s] s by (simp add: idSeparator_def has_prefix_def)
qed

text \<open>
  An identifier made by \<open>GenTempID\<close> is temporary, has the given gateway and no device, and
  its user id is the prefix followed by a version 4 UUID of 36 characters (dashes at 8, 13, 18
  and 23, version digit 4, variant digit one of 8, 9, a, b).
\<close>
theorem GenTempID_temp:
  assumes "length u = 16" "CHR ''_'' \<notin> set g" "GenTempID (u, None) g = (i, err)"
  shows "err = None \<and> IsTemp i \<and> Gateway i = g \<and> Device i = '''' \<and>
         (\<exists>uuid. UID i = tempIdPrefix @ uuid \<and> length uuid = 36 \<and>
            uuid ! 8 = CHR ''-'' \<and> uuid ! 13 = CHR ''-'' \<and> uuid ! 18 = CHR ''-'' \<and>
            uuid ! 23 = CHR ''-'' \<and> uuid ! 14 = CHR ''4'' \<and> uuid ! 19 \<in> set ''89ab'')"
proof -
  obtain uuid e where n: "newUUID (u, None) = (uuid, e)" by fastforce
  note sh = newUUID_shape [OF assms(1) n]
  then have "CHR ''_'' \<notin> set uuid" using n newUUID_no_sep by blast
  then have ns: "CHR ''_'' \<notin> set (tempIdPrefix @ uuid)" by (simp add: tempIdPrefix_def)
  have i: "i = NewID g (tempIdPrefix @ uuid) ''''" "err = None"
    using assms(3) n sh by (simp_all add: GenTempID_def)
  note acc = NewID_accessors [OF assms(2) ns, of "''''", simplified]
  then have "IsTemp i" using i by (simp add: IsTemp_UID)
  then show ?thesis using sh i acc by auto
qed

theorem GenTempID_temp_witness:
  "\<exists>i. GenTempID (replicate 16 255, None) ''g'' = (i, None) \<and> IsTemp i \<and> Gateway i = ''g''"
proof -
  obtain i err where g: "GenTempID (replicate 16 255, None) ''g'' = (i, err)" by fastforce
  then show ?thesis using GenTempID_temp [OF _ _ g] by simp
qed

text \<open>
  \<open>SetGateway\<close> does not always set the gateway: an identifier of gateway \<open>g @ x\<close> begins with
  \<open>g\<close>, so it is taken to have gateway \<open>g\<close> already and keeps its own.
\<close>
theorem SetGateway_prefix_confusion:
  assumes "CHR ''_'' \<notin> set (g @ x)" "CHR ''_'' \<notin> set u" "CHR ''_'' \<notin> set d"
  shows "SetGateway (NewID (g @ x) u d) g = (False, NewID (g @ x) u d) \<and>
         Gateway (snd (SetGateway (NewID (g @ x) u d) g)) = g @ x"
proof -
  have "has_prefix (NewID (g @ x) u d) g" by (simp add: NewID_def)
  then have "SetGateway (NewID (g @ x) u d) g = (False, NewID (g @ x) u d)"
    by (simp add: SetGateway_def)
  then show ?thesis using NewID_accessors(1) [OF assms] by simp
qed

theorem SetGateway_prefix_confusion_witness:
  "SetGateway (NewID ''gate10'' ''7'' ''1'') ''gate1'' = (False, NewID ''gate10'' ''7'' ''1'') \<and>
   Gateway (snd (SetGateway (NewID ''gate10'' ''7'' ''1'') ''gate1'')) = ''gate10''"
  using SetGateway_prefix_confusion [of "''gate1''" "''0''" "''7''" "''1''"] by auto

end
