(* ===== verification/Client.thy ===== *)
theory Client
  imports Messages Credentials GateId "HOL-Library.Multiset"
begin

text \<open>
  The connection of one client: \<^verbatim>\<open>UserClient\<close> of \<^verbatim>\<open>pkg/gate/client_impl.go\<close> and the message
  reader of \<^verbatim>\<open>pkg/gate/reader.go\<close>.

  The fields of the record are those of the structure. The connection is represented by the bytes
  written to it and whether it is closed; \<open>io\<close> carries what the environment decides: the JSON
  encoding of a message and the error of a write. \<open>closeReadCh\<close> and \<open>closeWriteCh\<close> only ever get
  closed, so they are flags, and a \<^verbatim>\<open>sync.Once\<close> is the flag that it has run. A heartbeat timer is
  the duration it was last armed with, \<open>None\<close> once cancelled. The handler chain is \<open>BaseHandler\<close>
  (the handler given to the constructor) under the interceptors added by the gateway.

  \<open>Exit\<close> calls the gateway, which calls \<open>Exit\<close> again; the two are in the theory of the gateway.
  Here are the operations that touch the client only, the parts of \<open>Exit\<close>, and a step relation
  for the goroutines of a client with the interleavings the code allows.
\<close>

section \<open>State\<close>

text \<open>Durations are nanoseconds.\<close>
definition second :: int where "second = 1000000000"

definition defaultServerHeartbeatDuration :: int where
  "defaultServerHeartbeatDuration = 30 * second"
definition defaultHeartbeatDuration :: int where
  "defaultHeartbeatDuration = 20 * second"
definition defaultHeartbeatLostLimit :: int where
  "defaultHeartbeatLostLimit = 3"

definition stateRunning :: nat where "stateRunning = 1"
definition stateClosed :: nat where "stateClosed = 2"

record ClientConfig =
  ClientHeartbeatDuration :: int
  ServerHeartbeatDuration :: int
  HeartbeatLostLimit :: int
  CloseImmediately :: bool

record Info =
  info_ID :: ID
  ConnectionId :: string
  Version :: string
  AliveAt :: int
  ConnectionAt :: int
  info_Gateway :: string
  CliAddr :: string

datatype handler = BaseHandler | Intercepted handler

record UserClient =
  conn_out :: "bytes list"
  conn_closed :: bool
  state :: nat
  queuedMessage :: int
  messages :: "GlideMessage gochan"
  closeReadCh :: bool
  closeWriteCh :: bool
  closeWriteOnce :: bool
  closeReadOnce :: bool
  hbC :: "int option"
  hbS :: "int option"
  hbLost :: int
  info :: Info
  credentials :: "ClientAuthCredentials option"
  mgr :: bool
  msgHandler :: handler
  config :: ClientConfig

record client_io =
  io_encode :: "GlideMessage option \<Rightarrow> string + bytes"
  io_write :: "bytes \<Rightarrow> go_error"


section \<open>Operations\<close>

definition default_config :: ClientConfig where
  "default_config =
     \<lparr>ClientHeartbeatDuration = defaultHeartbeatDuration,
      ServerHeartbeatDuration = defaultServerHeartbeatDuration,
      HeartbeatLostLimit = defaultHeartbeatLostLimit,
      CloseImmediately = False\<rparr>"

text \<open>\<open>now\<close> is the current time in milliseconds, \<open>addr\<close> the address of the connection.\<close>
definition NewClientWithConfig :: "int \<Rightarrow> string \<Rightarrow> bool \<Rightarrow> ClientConfig option \<Rightarrow> UserClient" where
  "NewClientWithConfig now addr hasMgr conf =
     (let config' = (case conf of None \<Rightarrow> default_config | Some c \<Rightarrow> c)
      in \<lparr>conn_out = [], conn_closed = False, state = 0, queuedMessage = 0,
          messages = make_chan 100,
          closeReadCh = False, closeWriteCh = False,
          closeWriteOnce = False, closeReadOnce = False,
          hbC = Some (ClientHeartbeatDuration config'),
          hbS = Some (ServerHeartbeatDuration config'),
          hbLost = 0,
          info = \<lparr>info_ID = '''', ConnectionId = '''', Version = '''', AliveAt = 0,
                  ConnectionAt = now, info_Gateway = '''', CliAddr = addr\<rparr>,
          credentials = None, mgr = hasMgr, msgHandler = BaseHandler, config = config'\<rparr>)"

text \<open>\<^verbatim>\<open>NewClient\<close>: the default configuration.\<close>
definition NewClient_default :: "int \<Rightarrow> string \<Rightarrow> bool \<Rightarrow> UserClient" where
  "NewClient_default now addr hasMgr = NewClientWithConfig now addr hasMgr None"

definition SetCredentials :: "ClientAuthCredentials \<Rightarrow> UserClient \<Rightarrow> UserClient" where
  "SetCredentials cr c =
     (let c1 = c\<lparr>credentials := Some cr, info := (info c)\<lparr>ConnectionId := ConnectionID cr\<rparr>\<rparr>
      in case ca_ConnectionConfig cr of
           None \<Rightarrow> c1
         | Some cc \<Rightarrow>
             c1\<lparr>config := (config c1)
                 \<lparr>HeartbeatLostLimit := AllowMaxHeartbeatLost cc,
                  CloseImmediately := cc_CloseImmediately cc,
                  ClientHeartbeatDuration := HeartbeatDuration cc * second\<rparr>\<rparr>)"

definition GetCredentials :: "UserClient \<Rightarrow> ClientAuthCredentials option" where
  "GetCredentials c = credentials c"

definition AddMessageInterceptor :: "UserClient \<Rightarrow> UserClient" where
  "AddMessageInterceptor c = c\<lparr>msgHandler := Intercepted (msgHandler c)\<rparr>"

definition GetInfo :: "UserClient \<Rightarrow> Info" where
  "GetInfo c = info c"

definition SetID :: "ID \<Rightarrow> UserClient \<Rightarrow> UserClient" where
  "SetID i c = c\<lparr>info := (info c)\<lparr>info_ID := i\<rparr>\<rparr>"

definition IsRunning :: "UserClient \<Rightarrow> bool" where
  "IsRunning c = (state c = stateRunning)"

definition isClosed :: "UserClient \<Rightarrow> bool" where
  "isClosed c = (state c = stateClosed)"

text \<open>The \<^verbatim>\<open>select\<close> of \<open>EnqueueMessage\<close>, after the check of the state.\<close>
definition enqueue_send :: "GlideMessage \<Rightarrow> UserClient \<Rightarrow> UserClient outcome" where
  "enqueue_send msg c =
     bind_outcome (try_send (messages c) msg) (\<lambda>r.
       case r of
         Some ch \<Rightarrow> Ret (c\<lparr>messages := ch, queuedMessage := queuedMessage c + 1\<rparr>)
       | None \<Rightarrow> Ret c)"

definition EnqueueMessage :: "GlideMessage \<Rightarrow> UserClient \<Rightarrow> (go_error \<times> UserClient) outcome" where
  "EnqueueMessage msg c =
     (if state c = stateClosed then Ret (errors_New ''client has closed'', c)
      else bind_outcome (enqueue_send msg c) (\<lambda>c'. Ret (nil, c')))"

definition stopReadWrite :: "UserClient \<Rightarrow> UserClient" where
  "stopReadWrite c =
     (let c1 = (if closeWriteOnce c then c else c\<lparr>closeWriteOnce := True, closeWriteCh := True\<rparr>)
      in if closeReadOnce c1 then c1 else c1\<lparr>closeReadOnce := True, closeReadCh := True\<rparr>)"

text \<open>\<^verbatim>\<open>write2Conn(m)\<close>; \<open>m\<close> is \<open>None\<close> for the nil received from a closed channel.\<close>
definition write2Conn :: "client_io \<Rightarrow> GlideMessage option \<Rightarrow> UserClient \<Rightarrow> UserClient" where
  "write2Conn io m c =
     (case io_encode io m of
        Inl e \<Rightarrow> c
      | Inr b \<Rightarrow>
          let c1 = c\<lparr>queuedMessage := queuedMessage c - 1\<rparr>
          in case io_write io b of
               None \<Rightarrow> c1\<lparr>conn_out := conn_out c1 @ [b]\<rparr>
             | Some e \<Rightarrow>
                 (if closeWriteOnce c1 then c1
                  else c1\<lparr>closeWriteOnce := True, closeWriteCh := True\<rparr>))"

text \<open>\<^verbatim>\<open>close()\<close>.\<close>
definition close_client :: "UserClient \<Rightarrow> UserClient outcome" where
  "close_client c =
     bind_outcome (close_chan (messages c)) (\<lambda>ch. Ret (c\<lparr>messages := ch, conn_closed := True\<rparr>))"

text \<open>
  The goroutine that \<open>Exit\<close> starts, run without interruption: it writes what is queued and closes
  the client. On a channel that is already closed it would write nil forever, which is \<open>None\<close>.
\<close>
fun drain_queue :: "client_io \<Rightarrow> GlideMessage list \<Rightarrow> UserClient \<Rightarrow> UserClient" where
  "drain_queue io [] c = c"
| "drain_queue io (m # ms) c =
     drain_queue io ms (write2Conn io (Some m) (c\<lparr>messages := (messages c)\<lparr>buf := ms\<rparr>\<rparr>))"

definition exit_drain :: "client_io \<Rightarrow> UserClient \<Rightarrow> UserClient outcome option" where
  "exit_drain io c =
     (if closed (messages c) then None
      else Some (close_client (drain_queue io (buf (messages c)) c)))"

definition Run :: "UserClient \<Rightarrow> UserClient" where
  "Run c = c\<lparr>state := stateRunning, closeWriteOnce := False, closeReadOnce := False\<rparr>"

text \<open>The part of \<open>Exit\<close> between the check of the state and the call of the gateway.\<close>
definition exit_mark :: "UserClient \<Rightarrow> UserClient" where
  "exit_mark c = c\<lparr>state := stateClosed\<rparr>"

text \<open>The part after the call of the gateway, up to the choice of how to close.\<close>
definition exit_stop :: "UserClient \<Rightarrow> UserClient" where
  "exit_stop c = stopReadWrite ((SetID '''' c)\<lparr>mgr := False\<rparr>)"

definition handleHello ::
    "(gotype \<Rightarrow> bytes \<Rightarrow> string + gostruct) \<Rightarrow> GlideMessage \<Rightarrow> UserClient \<Rightarrow> UserClient outcome" where
  "handleHello js m c =
     (case Deserialize_Hello js (Data m) of
        Inl e \<Rightarrow>
          bind_outcome
            (EnqueueMessage (NewMessage 0 ActionNotifyError (IString ''invalid handleHello message'')) c)
            (\<lambda>(_, c'). Ret c')
      | Inr h \<Rightarrow> Ret (c\<lparr>info := (info c)\<lparr>Version := ClientVersion h\<rparr>\<rparr>))"

section \<open>The reader\<close>

record readerRes =
  rr_err :: go_error
  rr_m :: "GlideMessage option"

text \<open>\<^verbatim>\<open>defaultReader.Read\<close> on what \<^verbatim>\<open>conn.Read\<close> returned.\<close>
definition reader_Read :: "(bytes \<Rightarrow> string + GlideMessage) \<Rightarrow> string + bytes \<Rightarrow> string + GlideMessage" where
  "reader_Read unmarshal rd =
     (case rd of
        Inl e \<Rightarrow> Inl e
      | Inr b \<Rightarrow> JsonCodec_Decode unmarshal b)"

text \<open>One round of the loop of \<^verbatim>\<open>ReadCh\<close>: what is sent, and whether the loop goes on.\<close>
definition reader_round :: "(bytes \<Rightarrow> string + GlideMessage) \<Rightarrow> string + bytes \<Rightarrow> readerRes \<times> bool" where
  "reader_round unmarshal rd =
     (case reader_Read unmarshal rd of
        Inl e \<Rightarrow> (\<lparr>rr_err = Some e, rr_m = None\<rparr>, IsDecodeError (Some e))
      | Inr m \<Rightarrow> (\<lparr>rr_err = None, rr_m = Some m\<rparr>, True))"

text \<open>The results put on the channel for a sequence of reads; the flag tells that it was closed.\<close>
fun reader_loop :: "(bytes \<Rightarrow> string + GlideMessage) \<Rightarrow> (string + bytes) list \<Rightarrow> readerRes list \<times> bool" where
  "reader_loop unmarshal [] = ([], False)"
| "reader_loop unmarshal (rd # rds) =
     (case reader_round unmarshal rd of
        (res, True) \<Rightarrow> (case reader_loop unmarshal rds of (rs, b) \<Rightarrow> (res # rs, b))
      | (res, False) \<Rightarrow> ([res], True))"

text \<open>\<^verbatim>\<open>readerRes.Recycle\<close>: what is put back into the pool.\<close>
definition Recycle :: "readerRes \<Rightarrow> readerRes" where
  "Recycle r = r\<lparr>rr_m := None, rr_err := nil\<rparr>"

section \<open>The goroutines of a client\<close>

text \<open>
  The shared state of a client with the goroutines that work on it: calls of \<open>EnqueueMessage\<close>
  past their check (\<open>sends\<close>), calls of \<open>Exit\<close> past their check (\<open>exits\<close>), goroutines at
  the head of the loop of \<open>Exit\<close> (\<open>drains\<close>) or holding a message they received there (\<open>dhold\<close>),
  goroutines about to call \<^verbatim>\<open>close\<close> (\<open>closings\<close>), and the message held by \<open>runWrite\<close> (\<open>whold\<close>). \<open>crashed\<close> records a
  panic in a goroutine without \<^verbatim>\<open>recover\<close>. The last three fields are history: the messages that
  entered the queue, left it, and were passed to \<open>write2Conn\<close>.
\<close>
record cli_sys =
  cli :: UserClient
  sends :: "GlideMessage list"
  exits :: nat
  drains :: nat
  dhold :: "GlideMessage list"
  closings :: nat
  whold :: "GlideMessage option"
  crashed :: bool
  accepted :: "GlideMessage list"
  taken :: "GlideMessage list"
  written :: "GlideMessage list"

definition start_sys :: "UserClient \<Rightarrow> cli_sys" where
  "start_sys c = \<lparr>cli = c, sends = [], exits = 0, drains = 0, dhold = [], closings = 0,
     whold = None, crashed = False, accepted = [], taken = [], written = []\<rparr>"

text \<open>
  One step of one goroutine. With \<open>excl\<close> a call of \<open>Exit\<close> passes its check only when no other
  call is between its check and its store; the code does not enforce this.
\<close>
inductive cstep :: "bool \<Rightarrow> client_io \<Rightarrow> cli_sys \<Rightarrow> cli_sys \<Rightarrow> bool" for excl io where
  enq_check: "state (cli s) \<noteq> stateClosed \<Longrightarrow> cstep excl io s (s\<lparr>sends := m # sends s\<rparr>)"
| enq_send: "sends s = xs @ m # ys \<Longrightarrow> enqueue_send m (cli s) = Ret c \<Longrightarrow>
    cstep excl io s (s\<lparr>cli := c, sends := xs @ ys,
      accepted := (if c = cli s then accepted s else accepted s @ [m])\<rparr>)"
| enq_panic: "sends s = xs @ m # ys \<Longrightarrow> enqueue_send m (cli s) = Panic e \<Longrightarrow>
    cstep excl io s (s\<lparr>sends := xs @ ys\<rparr>)"
| exit_check: "state (cli s) \<noteq> stateClosed \<Longrightarrow> (excl \<Longrightarrow> exits s = 0) \<Longrightarrow>
    cstep excl io s (s\<lparr>exits := exits s + 1\<rparr>)"
| exit_go: "exits s = Suc n \<Longrightarrow> \<not> CloseImmediately (config (cli s)) \<Longrightarrow>
    cstep excl io s (s\<lparr>cli := exit_stop (exit_mark (cli s)), exits := n, drains := drains s + 1\<rparr>)"
| exit_now: "exits s = Suc n \<Longrightarrow> CloseImmediately (config (cli s)) \<Longrightarrow>
    cstep excl io s (s\<lparr>cli := exit_stop (exit_mark (cli s)), exits := n, closings := closings s + 1\<rparr>)"
| drain_recv: "drains s = Suc n \<Longrightarrow> try_recv (messages (cli s)) = Received m ch \<Longrightarrow>
    cstep excl io s (s\<lparr>cli := (cli s)\<lparr>messages := ch\<rparr>, drains := n, dhold := m # dhold s, taken := taken s @ [m]\<rparr>)"
| drain_write: "dhold s = xs @ m # ys \<Longrightarrow>
    cstep excl io s (s\<lparr>cli := write2Conn io (Some m) (cli s), drains := drains s + 1, dhold := xs @ ys,
      written := written s @ [m]\<rparr>)"
| drain_spin: "drains s > 0 \<Longrightarrow> try_recv (messages (cli s)) = Drained \<Longrightarrow>
    cstep excl io s (s\<lparr>cli := write2Conn io None (cli s)\<rparr>)"
| drain_end: "drains s = Suc n \<Longrightarrow> try_recv (messages (cli s)) = Blocked \<Longrightarrow>
    cstep excl io s (s\<lparr>drains := n, closings := closings s + 1\<rparr>)"
| close_ok: "closings s = Suc n \<Longrightarrow> close_client (cli s) = Ret c \<Longrightarrow>
    cstep excl io s (s\<lparr>cli := c, closings := n\<rparr>)"
| close_panic: "closings s = Suc n \<Longrightarrow> close_client (cli s) = Panic e \<Longrightarrow>
    cstep excl io s (s\<lparr>closings := n, crashed := True\<rparr>)"
| write_recv: "whold s = None \<Longrightarrow> try_recv (messages (cli s)) = Received m ch \<Longrightarrow>
    cstep excl io s (s\<lparr>cli := (cli s)\<lparr>messages := ch\<rparr>, whold := Some m, taken := taken s @ [m]\<rparr>)"
| write_conn: "whold s = Some m \<Longrightarrow>
    cstep excl io s (s\<lparr>cli := write2Conn io (Some m) (cli s), whold := None, written := written s @ [m]\<rparr>)"

inductive creach :: "bool \<Rightarrow> client_io \<Rightarrow> cli_sys \<Rightarrow> cli_sys \<Rightarrow> bool" for excl io s where
  creach_refl: "creach excl io s s"
| creach_step: "creach excl io s t \<Longrightarrow> cstep excl io t u \<Longrightarrow> creach excl io s u"


section \<open>Lemmas\<close>

lemmas client_defs = EnqueueMessage_def enqueue_send_def stopReadWrite_def exit_mark_def
  exit_stop_def SetID_def

text \<open>What the operations leave alone.\<close>

lemma write2Conn_simps [simp]:
  "messages (write2Conn io m c) = messages c" "state (write2Conn io m c) = state c"
  "config (write2Conn io m c) = config c" "info (write2Conn io m c) = info c"
  by (auto simp: write2Conn_def Let_def split: sum.split option.split)

lemma exit_stop_mark [simp]:
  "messages (exit_stop (exit_mark c)) = messages c"
  "state (exit_stop (exit_mark c)) = stateClosed"
  "closeReadOnce (exit_stop (exit_mark c))" "closeWriteOnce (exit_stop (exit_mark c))"
  "info_ID (info (exit_stop (exit_mark c))) = ''''" "\<not> mgr (exit_stop (exit_mark c))"
  "config (exit_stop (exit_mark c)) = config c"
  by (simp_all add: client_defs Let_def)

lemma enqueue_send_cases:
  "enqueue_send m c = Ret c' \<Longrightarrow>
     \<not> closed (messages c) \<and> state c' = state c \<and> config c' = config c \<and>
     (c' = c \<and> length (buf (messages c)) \<ge> cap (messages c) \<or>
      c' \<noteq> c \<and> length (buf (messages c)) < cap (messages c) \<and>
      messages c' = (messages c)\<lparr>buf := buf (messages c) @ [m]\<rparr>)"
  by (auto simp: enqueue_send_def try_send_def bind_outcome_eq_Ret split: if_splits)
     (metis UserClient.select_convs(4) UserClient.surjective UserClient.update_convs(4)
       add_cancel_right_right zero_neq_one)

lemma enqueue_send_panic: "enqueue_send m c = Panic e \<Longrightarrow> closed (messages c)"
  by (auto simp: enqueue_send_def try_send_def split: if_splits)

lemma close_client_cases:
  "close_client c = Ret c' \<Longrightarrow>
     \<not> closed (messages c) \<and> messages c' = (messages c)\<lparr>closed := True\<rparr> \<and>
     state c' = state c \<and> config c' = config c \<and> conn_closed c'"
  by (auto simp: close_client_def close_chan_def bind_outcome_eq_Ret split: if_splits)

lemma close_client_panic: "close_client c = Panic e \<Longrightarrow> closed (messages c)"
  by (auto simp: close_client_def close_chan_def split: if_splits)

lemma try_recv_Blocked: "try_recv ch = Blocked \<longleftrightarrow> buf ch = [] \<and> \<not> closed ch"
  by (auto simp: try_recv_def split: list.split)

lemma try_recv_Drained: "try_recv ch = Drained \<longleftrightarrow> buf ch = [] \<and> closed ch"
  by (auto simp: try_recv_def split: list.split)

subsection \<open>Draining\<close>

text \<open>The bytes of the messages of a queue.\<close>
definition encoded :: "client_io \<Rightarrow> GlideMessage list \<Rightarrow> bytes list" where
  "encoded io ms = map (\<lambda>m. projr (io_encode io (Some m))) ms"

text \<open>Every message of the queue can be encoded and written.\<close>
definition writable :: "client_io \<Rightarrow> GlideMessage list \<Rightarrow> bool" where
  "writable io ms = list_all (\<lambda>m. \<not> isl (io_encode io (Some m)) \<and>
     io_write io (projr (io_encode io (Some m))) = nil) ms"

lemma drain_queue_writes:
  assumes "writable io ms" "buf (messages c) = ms"
  shows "conn_out (drain_queue io ms c) = conn_out c @ encoded io ms \<and>
    buf (messages (drain_queue io ms c)) = [] \<and>
    closed (messages (drain_queue io ms c)) = closed (messages c) \<and>
    queuedMessage (drain_queue io ms c) = queuedMessage c - int (length ms)"
  using assms
proof (induction ms arbitrary: c)
  case Nil
  then show ?case by (simp add: encoded_def)
next
  case (Cons m ms)
  let ?c = "write2Conn io (Some m) (c\<lparr>messages := (messages c)\<lparr>buf := ms\<rparr>\<rparr>)"
  have w: "writable io ms" "\<not> isl (io_encode io (Some m))"
    "io_write io (projr (io_encode io (Some m))) = nil"
    using Cons.prems by (simp_all add: writable_def)
  then have "conn_out ?c = conn_out c @ [projr (io_encode io (Some m))]"
    "queuedMessage ?c = queuedMessage c - 1"
    by (cases "io_encode io (Some m)"; simp add: write2Conn_def)+
  then show ?case using Cons.IH [OF w(1), of ?c] by (simp add: encoded_def)
qed


definition demo_io :: client_io where
  "demo_io = \<lparr>io_encode = (\<lambda>m. Inr [1]), io_write = (\<lambda>b. nil)\<rparr>"

definition demo_client :: UserClient where
  "demo_client = Run (NewClientWithConfig 0 ''addr'' True None)"



subsection \<open>Enqueueing\<close>

text \<open>
  \<open>EnqueueMessage\<close> on every branch. It never panics on a client whose queue is open; a closed
  client refuses with an error; otherwise the message is appended and counted, or silently dropped
  with a nil error when the 100 places of the queue are taken.
\<close>
theorem EnqueueMessage_cases:
  assumes "closed (messages c) \<Longrightarrow> state c = stateClosed"
  shows "EnqueueMessage m c =
    (if state c = stateClosed then Ret (Some ''client has closed'', c)
     else if length (buf (messages c)) < cap (messages c)
     then Ret (nil, c\<lparr>messages := (messages c)\<lparr>buf := buf (messages c) @ [m]\<rparr>,
                      queuedMessage := queuedMessage c + 1\<rparr>)
     else Ret (nil, c))"
  using assms by (auto simp: EnqueueMessage_def enqueue_send_def try_send_def)

theorem EnqueueMessage_cases_witness:
  "EnqueueMessage NewEmptyMessage demo_client =
     Ret (nil, demo_client\<lparr>messages := (messages demo_client)\<lparr>buf := [NewEmptyMessage]\<rparr>,
                           queuedMessage := 1\<rparr>)"
  using EnqueueMessage_cases [of demo_client NewEmptyMessage]
  by (simp add: demo_client_def Run_def NewClientWithConfig_def make_chan_def stateRunning_def
      stateClosed_def)

subsection \<open>Interleavings\<close>

lemma try_recv_Received_simp:
  "try_recv ch = Received m ch' \<longleftrightarrow> (\<exists>xs. buf ch = m # xs \<and> ch' = ch\<lparr>buf := xs\<rparr>)"
  by (rule try_recv_Received)

lemmas cstep_facts = try_recv_Received_simp try_recv_Blocked try_recv_Drained

text \<open>The messages in the hands of the writing goroutines.\<close>
definition in_flight :: "cli_sys \<Rightarrow> GlideMessage multiset" where
  "in_flight s = mset (dhold s) + (case whold s of None \<Rightarrow> {#} | Some m \<Rightarrow> {#m#})"

definition queue_inv :: "cli_sys \<Rightarrow> bool" where
  "queue_inv s =
     (accepted s = taken s @ buf (messages (cli s)) \<and>
      mset (taken s) = mset (written s) + in_flight s \<and>
      chan_wf (messages (cli s)))"

text \<open>The goroutines that will close the queue, and the queue when it is closed.\<close>
definition closers :: "cli_sys \<Rightarrow> nat" where
  "closers s = drains s + length (dhold s) + closings s + of_bool (closed (messages (cli s)))"

definition exit_inv :: "cli_sys \<Rightarrow> bool" where
  "exit_inv s =
     (\<not> crashed s \<and> exits s \<le> 1 \<and>
      (if state (cli s) = stateClosed then exits s = 0 \<and> closers s \<le> 1
       else closers s = 0 \<and> taken s = written s @ (case whold s of None \<Rightarrow> [] | Some m \<Rightarrow> [m])))"

lemma cstep_queue_inv:
  assumes "cstep excl io s t" "queue_inv s" shows "queue_inv t"
  using assms
proof (cases rule: cstep.cases)
  case (enq_send xs m ys c)
  then show ?thesis using enqueue_send_cases [OF enq_send(3)] assms(2)
    by (auto simp: queue_inv_def in_flight_def chan_wf_def)
next
  case (close_ok n c)
  then show ?thesis using close_client_cases [OF close_ok(3)] assms(2)
    by (auto simp: queue_inv_def in_flight_def chan_wf_def)
qed (use assms(2) in \<open>auto simp: queue_inv_def in_flight_def chan_wf_def cstep_facts\<close>)

lemma cstep_exit_inv:
  assumes "cstep True io s t" "exit_inv s" shows "exit_inv t"
  using assms
proof (cases rule: cstep.cases)
  case (enq_send xs m ys c)
  then show ?thesis using enqueue_send_cases [OF enq_send(3)] assms(2)
    by (auto simp: exit_inv_def closers_def split: if_splits)
next
  case (close_ok n c)
  then show ?thesis using close_client_cases [OF close_ok(3)] assms(2)
    by (auto simp: exit_inv_def closers_def split: if_splits)
next
  case (close_panic n e)
  then show ?thesis using close_client_panic [OF close_panic(3)] assms(2)
    by (auto simp: exit_inv_def closers_def split: if_splits)
qed (use assms(2) in \<open>auto simp: exit_inv_def closers_def cstep_facts split: if_splits\<close>)

lemma creach_queue_inv: "creach excl io s t \<Longrightarrow> queue_inv s \<Longrightarrow> queue_inv t"
  by (induction rule: creach.induct) (auto intro: cstep_queue_inv)

lemma creach_exit_inv: "creach True io s t \<Longrightarrow> exit_inv s \<Longrightarrow> exit_inv t"
  by (induction rule: creach.induct) (auto intro: cstep_exit_inv)

text \<open>A client as \<open>Run\<close> leaves it.\<close>
definition fresh_client :: "UserClient \<Rightarrow> bool" where
  "fresh_client c = (state c = stateRunning \<and> messages c = make_chan 100)"

lemma start_invs: "fresh_client c \<Longrightarrow> queue_inv (start_sys c) \<and> exit_inv (start_sys c)"
  by (simp add: fresh_client_def queue_inv_def exit_inv_def closers_def in_flight_def start_sys_def
      make_chan_def chan_wf_def stateRunning_def stateClosed_def)

lemma fresh_demo: "fresh_client demo_client"
  by (simp add: fresh_client_def demo_client_def Run_def NewClientWithConfig_def Let_def)

lemma take_append_prefix: "a = b @ c \<Longrightarrow> take (length b) a = b"
  by simp



text \<open>The two calls of \<open>Exit\<close> that pass the check one after the other.\<close>
definition race_state :: "cli_sys" where
  "race_state = (start_sys demo_client)\<lparr>exits := 2\<rparr>"

lemma creach_race: "creach False io (start_sys demo_client) race_state"
proof -
  have r: "state (cli (start_sys demo_client)) \<noteq> stateClosed"
    using fresh_demo by (simp add: start_sys_def fresh_client_def stateRunning_def stateClosed_def)
  have "creach False io (start_sys demo_client) ((start_sys demo_client)\<lparr>exits := 1\<rparr>)"
    using creach_step [OF creach_refl exit_check [OF r, of False]] by (simp add: start_sys_def)
  then show ?thesis
    using creach_step [OF _ exit_check [of "(start_sys demo_client)\<lparr>exits := 1\<rparr>" False]] r
    by (fastforce simp: race_state_def start_sys_def numeral_2_eq_2)
qed

lemma creach_trans: "creach e io s t \<Longrightarrow> creach e io t u \<Longrightarrow> creach e io s u"
  by (rotate_tac, induction rule: creach.induct) (auto intro: creach_step)

lemma exit_twice:
  fixes s :: cli_sys
  assumes "exits s = 2" "\<not> CloseImmediately (config (cli s))" "buf (messages (cli s)) = []"
    "\<not> closed (messages (cli s))"
  shows "\<exists>t. creach False io s t \<and> closings t = drains s + closings s + 2 \<and>
    messages (cli t) = messages (cli s)"
proof -
  let ?c = "exit_stop (exit_mark (cli s))"
  let ?s1 = "s\<lparr>cli := ?c, exits := 1, drains := drains s + 1\<rparr>"
  let ?s2 = "?s1\<lparr>cli := exit_stop (exit_mark ?c), exits := 0, drains := drains s + 2\<rparr>"
  have 1: "cstep False io s ?s1" using exit_go [of s 1] assms by simp
  have 2: "cstep False io ?s1 ?s2" using exit_go [of ?s1 0] assms by simp
  have ends: "drains t = n + k \<Longrightarrow> buf (messages (cli t)) = [] \<Longrightarrow> \<not> closed (messages (cli t)) \<Longrightarrow>
      creach False io t (t\<lparr>drains := n, closings := closings t + k\<rparr>)" for t n k
  proof (induction k arbitrary: t)
    case 0
    then show ?case using creach_refl by (metis add.right_neutral cli_sys.surjective
          cli_sys.update_convs(4) cli_sys.update_convs(6))
  next
    case (Suc k)
    let ?t = "t\<lparr>drains := n + k, closings := closings t + 1\<rparr>"
    have "cstep False io t ?t"
      using drain_end [of t "n + k"] Suc.prems by (simp add: try_recv_Blocked)
    then have "creach False io t ?t" by (rule creach_step [OF creach_refl])
    moreover have "creach False io ?t (t\<lparr>drains := n, closings := closings t + Suc k\<rparr>)"
      using Suc.IH [of ?t] Suc.prems by simp
    ultimately show ?case by (rule creach_trans)
  qed
  have "creach False io ?s2 (?s2\<lparr>drains := 0, closings := closings s + (drains s + 2)\<rparr>)"
    using ends [of ?s2 0 "drains s + 2"] assms by simp
  then have "creach False io s (?s2\<lparr>drains := 0, closings := closings s + (drains s + 2)\<rparr>)"
    using creach_step [OF creach_step [OF creach_refl 1] 2] creach_trans by blast
  moreover have "messages (cli (?s2\<lparr>drains := 0, closings := closings s + (drains s + 2)\<rparr>)) =
      messages (cli s)" by simp
  moreover have "closings (?s2\<lparr>drains := 0, closings := closings s + (drains s + 2)\<rparr>) =
      drains s + closings s + 2" by simp
  ultimately show ?thesis by blast
qed

text \<open>
  Without that proviso the process can crash: two calls of \<open>Exit\<close> that both find the client
  open (for instance a read error and a kick from the gateway) start two goroutines, both see the
  queue empty, and the second close of the queue panics outside any \<^verbatim>\<open>recover\<close>.
\<close>
theorem exit_race_crashes:
  "\<exists>s. creach False io (start_sys demo_client) s \<and> crashed s"
proof -
  have "\<not> CloseImmediately (config (cli race_state))" "messages (cli race_state) = make_chan 100"
    by (simp_all add: race_state_def start_sys_def demo_client_def Run_def NewClientWithConfig_def
        default_config_def)
  then obtain t where t: "creach False io race_state t" "closings t = 2"
      "messages (cli t) = make_chan 100"
    using exit_twice [of race_state io]
    by (auto simp: race_state_def make_chan_def start_sys_def)
  then obtain c where c: "close_client (cli t) = Ret c"
    by (simp add: close_client_def close_chan_def make_chan_def)
  let ?t1 = "t\<lparr>cli := c, closings := 1\<rparr>"
  have 1: "cstep False io t ?t1" using close_ok [of t 1 c] t c by simp
  obtain e where "close_client c = Panic e"
    using close_client_cases [OF c] by (simp add: close_client_def close_chan_def)
  then have 2: "cstep False io ?t1 (?t1\<lparr>closings := 0, crashed := True\<rparr>)"
    using close_panic [of ?t1 0 e] by simp
  have "creach False io (start_sys demo_client) (?t1\<lparr>closings := 0, crashed := True\<rparr>)"
    using creach_step [OF creach_step [OF creach_trans [OF creach_race t(1)] 1] 2] .
  moreover have "crashed (?t1\<lparr>closings := 0, crashed := True\<rparr>)" by simp
  ultimately show ?thesis by blast
qed

end
