(* ===== verification/Gateway.thy ===== *)
theory Gateway
  imports Client MurmurHash
begin

text \<open>
  The gateway: \<^verbatim>\<open>Impl\<close> and \<^verbatim>\<open>WebsocketGatewayServer\<close> of \<^verbatim>\<open>pkg/gate/gateway.go\<close>, the
  \<^verbatim>\<open>Authenticator\<close> of \<^verbatim>\<open>pkg/gate/authenticator.go\<close>, and the operations of
  \<^verbatim>\<open>pkg/gate/client_impl.go\<close> that call back into the gateway (\<open>Exit\<close>, \<open>runRead\<close>, \<open>runWrite\<close>).

  Clients are heap objects addressed by numbers; \<open>clients\<close> is the map of the gateway from
  identifiers to them. The write lock \<open>mu\<close> is a flag: taking it, or the read lock, while it is held
  by the same goroutine never returns, which is the outcome \<open>deadlock\<close>. A call of the message
  handler is an entry of \<open>events\<close>, because the handler only submits the message to its own pool; the
  first component is a copy of the client's information or, from \<open>runRead\<close>, the client itself whose
  information is read later. A function submitted to the pool of the gateway is an entry of
  \<open>pool\<close>, refused when \<open>pool_cap\<close> functions are pending.
\<close>

section \<open>State\<close>

datatype info_ref = Copy Info | Live nat

record gateway =
  gw_id :: string
  clients :: "ID \<Rightarrow> nat option"
  heap :: "nat \<Rightarrow> UserClient"
  next_ref :: nat
  mu :: bool
  events :: "(info_ref \<times> GlideMessage) list"
  pool :: "(nat \<times> GlideMessage) list"
  pool_cap :: nat
  authenticator :: bool
  draining :: "nat list"

definition deadlock :: "'a outcome" where
  "deadlock = Panic ''deadlock''"

definition mu_Lock :: "gateway \<Rightarrow> gateway outcome" where
  "mu_Lock g = (if mu g then deadlock else Ret (g\<lparr>mu := True\<rparr>))"

definition mu_Unlock :: "gateway \<Rightarrow> gateway" where
  "mu_Unlock g = g\<lparr>mu := False\<rparr>"

definition upd :: "nat \<Rightarrow> (UserClient \<Rightarrow> UserClient) \<Rightarrow> gateway \<Rightarrow> gateway" where
  "upd r f g = g\<lparr>heap := (heap g)(r := f (heap g r))\<rparr>"

definition call_msgHandler :: "info_ref \<Rightarrow> GlideMessage \<Rightarrow> gateway \<Rightarrow> gateway" where
  "call_msgHandler i m g = g\<lparr>events := events g @ [(i, m)]\<rparr>"


section \<open>Gateway operations\<close>

definition NewServer :: "string \<Rightarrow> string \<Rightarrow> nat \<Rightarrow> gateway" where
  "NewServer ident secretKey maxConcurrency =
     \<lparr>gw_id = ident, clients = (\<lambda>_. None),
      heap = (\<lambda>_. NewClientWithConfig 0 '''' False None), next_ref = 0, mu = False,
      events = [], pool = [], pool_cap = maxConcurrency,
      authenticator = (secretKey \<noteq> ''''), draining = []\<rparr>"

text \<open>\<open>GetClient\<close> does not complete the identifier.\<close>
definition Impl_GetClient :: "ID \<Rightarrow> gateway \<Rightarrow> nat option" where
  "Impl_GetClient i g = clients g i"

definition Impl_GetAll :: "gateway \<Rightarrow> ID \<Rightarrow> Info option" where
  "Impl_GetAll g = (\<lambda>i. map_option (\<lambda>r. GetInfo (heap g r)) (clients g i))"

definition Impl_UpdateClient :: "ID \<Rightarrow> ClientSecrets \<Rightarrow> gateway \<Rightarrow> (go_error \<times> gateway) outcome" where
  "Impl_UpdateClient i sec g =
     bind_outcome (mu_Lock g) (\<lambda>g1.
       case clients g1 (normID (gw_id g1) i) of
         None \<Rightarrow> Ret (Some errClientNotExist, mu_Unlock g1)
       | Some r \<Rightarrow>
           (case GetCredentials (heap g1 r) of
              None \<Rightarrow> nil_dereference
            | Some cr \<Rightarrow> Ret (nil, mu_Unlock (upd r (SetCredentials (cr\<lparr>Secrets := Some sec\<rparr>)) g1))))"

definition Impl_AddClient :: "nat \<Rightarrow> gateway \<Rightarrow> gateway outcome" where
  "Impl_AddClient r g =
     bind_outcome (mu_Lock g) (\<lambda>g1.
       let i = normID (gw_id g1) (info_ID (GetInfo (heap g1 r)));
           g2 = upd r AddMessageInterceptor g1;
           g3 = g2\<lparr>clients := (clients g2)(i := Some r)\<rparr>
       in Ret (mu_Unlock (call_msgHandler (Copy (GetInfo (heap g3 r)))
                 (NewMessage 0 ActionInternalOnline (IID i)) g3)))"

definition Impl_SetClientID :: "ID \<Rightarrow> ID \<Rightarrow> gateway \<Rightarrow> (go_error \<times> gateway) outcome" where
  "Impl_SetClientID old new g =
     bind_outcome (mu_Lock g) (\<lambda>g1.
       let oldID = normID (gw_id g1) old;
           newID = normID (gw_id g1) new
       in case clients g1 oldID of
            None \<Rightarrow> Ret (Some errClientNotExist, mu_Unlock g1)
          | Some r \<Rightarrow>
              (case clients g1 newID of
                 Some _ \<Rightarrow> Ret (Some errClientAlreadyExist, mu_Unlock g1)
               | None \<Rightarrow>
                   let oldInfo = GetInfo (heap g1 r);
                       g2 = upd r (SetID newID) g1;
                       newInfo = GetInfo (heap g2 r);
                       g3 = g2\<lparr>clients := (clients g2)(oldID := None)\<rparr>;
                       g4 = call_msgHandler (Copy oldInfo)
                              (NewMessage 0 ActionInternalOffline (IID oldID)) g3;
                       g5 = call_msgHandler (Copy newInfo)
                              (NewMessage 0 ActionInternalOnline (IID newID)) g4
                   in Ret (nil, mu_Unlock (g5\<lparr>clients := (clients g5)(newID := Some r)\<rparr>))))"

text \<open>The end of \<open>Exit\<close>: stop the loops, then close at once or start the emptying goroutine.\<close>
definition exit_tail :: "nat \<Rightarrow> gateway \<Rightarrow> gateway outcome" where
  "exit_tail r g2 =
     (let g3 = upd r exit_stop g2
      in if CloseImmediately (config (heap g3 r))
         then bind_outcome (close_client (heap g3 r)) (\<lambda>c. Ret (upd r (\<lambda>_. c) g3))
         else Ret (g3\<lparr>draining := draining g3 @ [r]\<rparr>))"

text \<open>\<open>Exit\<close> of the client \<open>r\<close> and \<open>ExitClient\<close> of the gateway, which call each other.\<close>
function (sequential) Exit :: "nat \<Rightarrow> gateway \<Rightarrow> gateway outcome"
  and Impl_ExitClient :: "ID \<Rightarrow> gateway \<Rightarrow> (go_error \<times> gateway) outcome" where
  "Exit r g =
     (if state (heap g r) = stateClosed then Ret g
      else let g1 = upd r exit_mark g;
               i = info_ID (info (heap g1 r))
           in bind_outcome
                (if mgr (heap g1 r) \<and> i \<noteq> ''''
                 then bind_outcome (Impl_ExitClient i g1) (\<lambda>(_, g2). Ret g2)
                 else Ret g1)
                (exit_tail r))"
| "Impl_ExitClient i g =
     (if mu g then deadlock
      else let g1 = g\<lparr>mu := True\<rparr>;
               k = normID (gw_id g1) i
           in case clients g1 k of
                None \<Rightarrow> Ret (Some errClientNotExist, mu_Unlock g1)
              | Some r \<Rightarrow>
                  let inf = GetInfo (heap g1 r);
                      g2 = upd r (SetID '''') g1;
                      g3 = g2\<lparr>clients := (clients g2)(k := None)\<rparr>;
                      g4 = call_msgHandler (Copy inf)
                             (NewMessage 0 ActionInternalOffline (IID k)) g3
                  in bind_outcome (Exit r g4) (\<lambda>g5. Ret (nil, mu_Unlock g5)))"
  by pat_completeness auto
termination
  by (relation "measure (\<lambda>x. case x of Inl (r, g) \<Rightarrow> (if mu g then 1 else 3 :: nat)
                                    | Inr (i, g) \<Rightarrow> (if mu g then 0 else 2))")
     (auto simp: upd_def call_msgHandler_def)

declare Exit.simps [simp del] Impl_ExitClient.simps [simp del]

definition Impl_enqueueMessage :: "nat \<Rightarrow> GlideMessage \<Rightarrow> gateway \<Rightarrow> go_error \<times> gateway" where
  "Impl_enqueueMessage r m g =
     (if \<not> IsRunning (heap g r) then (Some errClientClosed, g)
      else if length (pool g) < pool_cap g then (nil, g\<lparr>pool := pool g @ [(r, m)]\<rparr>)
      else (Some ''enqueue message to client failed'', g))"

definition Impl_EnqueueMessage :: "ID \<Rightarrow> GlideMessage \<Rightarrow> gateway \<Rightarrow> (go_error \<times> gateway) outcome" where
  "Impl_EnqueueMessage i m g =
     (if mu g then deadlock
      else case clients g (normID (gw_id g) i) of
             None \<Rightarrow> Ret (Some errClientNotExist, g)
           | Some r \<Rightarrow> Ret (Impl_enqueueMessage r m g))"

text \<open>
  A worker of the pool runs the function that was submitted first; the pool recovers from its
  panics.
\<close>
definition pool_run :: "gateway \<Rightarrow> gateway" where
  "pool_run g =
     (case pool g of
        [] \<Rightarrow> g
      | (r, m) # ts \<Rightarrow>
          (case EnqueueMessage m (heap g r) of
             Ret (_, c) \<Rightarrow> (upd r (\<lambda>_. c) g)\<lparr>pool := ts\<rparr>
           | Panic _ \<Rightarrow> g\<lparr>pool := ts\<rparr>))"


section \<open>Authentication\<close>

text \<open>
  What the authenticator takes from its environment: the JSON decoder, the decryption of tokens,
  the current time in milliseconds, the random bytes of temporary identifiers, and SHA-1.
\<close>
record auth_env =
  ae_json :: "gotype \<Rightarrow> bytes \<Rightarrow> string + gostruct"
  ae_decrypt :: "bytes \<Rightarrow> (string + ClientAuthCredentials) outcome"
  ae_now :: int
  ae_random :: "bytes \<times> go_error"
  ae_sha1 :: "bytes \<Rightarrow> bytes"

definition auth_gateway_enqueue :: "ID \<Rightarrow> GlideMessage \<Rightarrow> gateway \<Rightarrow> gateway outcome" where
  "auth_gateway_enqueue i m g =
     (if \<not> authenticator g then nil_dereference
      else bind_outcome (Impl_EnqueueMessage i m g) (\<lambda>(_, g'). Ret g'))"

text \<open>The ticket a client needs to send a message to \<open>to\<close>.\<close>
definition expectTicket :: "(bytes \<Rightarrow> bytes) \<Rightarrow> string \<Rightarrow> string \<Rightarrow> string \<Rightarrow> string" where
  "expectTicket sha1 secret uid to = SHA1 sha1 (secret @ uid @ SHA1 sha1 (secret @ to))"

definition forbid :: "nat \<Rightarrow> GlideMessage \<Rightarrow> string \<Rightarrow> gateway \<Rightarrow> (bool \<times> gateway) outcome" where
  "forbid r m why g =
     bind_outcome (auth_gateway_enqueue (info_ID (GetInfo (heap g r)))
       (NewMessage (GetSeq m) ActionNotifyForbidden (IString why)) g) (\<lambda>g'. Ret (True, g'))"

definition MessageInterceptor :: "auth_env \<Rightarrow> nat \<Rightarrow> GlideMessage \<Rightarrow> gateway \<Rightarrow> (bool \<times> gateway) outcome" where
  "MessageInterceptor env r m g =
     (case GetCredentials (heap g r) of
        None \<Rightarrow> Ret (False, g)
      | Some cr \<Rightarrow>
          if Action m \<notin> {ActionGroupMessage, ActionChatMessage, ActionChatMessageResend}
          then Ret (False, g)
          else case Secrets cr of
                 None \<Rightarrow> forbid r m ''no credentials'' g
               | Some sec \<Rightarrow>
                   let secret = MessageDeliverSecret sec
                   in if secret = '''' then forbid r m ''no message deliver secret'' g
                      else if length (Ticket m) \<noteq> 40 then forbid r m ''invalid ticket'' g
                      else let expected = expectTicket (ae_sha1 env) secret
                                 (UID (info_ID (GetInfo (heap g r)))) (To m)
                           in if to_upper (Ticket m) \<noteq> to_upper expected
                              then forbid r m ''ticket expired'' g
                              else Ret (False, g))"

text \<open>\<open>updateClient\<close>: an error beside the identifier, and the state.\<close>
definition updateClient ::
    "auth_env \<Rightarrow> nat \<Rightarrow> ClientAuthCredentials \<Rightarrow> gateway \<Rightarrow> (ID \<times> go_error \<times> gateway) outcome" where
  "updateClient env r cr g =
     (let g1 = upd r (SetCredentials cr) g;
          oldID = info_ID (GetInfo (heap g1 r));
          newID = NewID2 (UserID cr)
      in bind_outcome (Impl_SetClientID oldID newID g1) (\<lambda>(err, g2).
         if IsIDAlreadyExist err then
           (if Equals newID oldID then Ret (newID, nil, g2)
            else let tempID = fst (GenTempID (ae_random env) '''')
                 in bind_outcome (Impl_SetClientID newID tempID g2) (\<lambda>(err3, g3).
                    if err3 \<noteq> nil then Ret ('''', err3, g3)
                    else let kickOut = NewMessage 0 ActionNotifyKickOut
                               (Ptr (SKickOut \<lparr>ko_DeviceId = DeviceID cr, ko_DeviceName = DeviceName cr\<rparr>))
                         in bind_outcome (Impl_EnqueueMessage tempID kickOut g3) (\<lambda>(_, g4).
                            bind_outcome (Impl_SetClientID oldID newID g4) (\<lambda>(err5, g5).
                            if err5 \<noteq> nil then Ret ('''', err5, g5) else Ret (newID, err5, g5)))))
         else Ret (newID, err, g2)))"

text \<open>What follows the label \<^verbatim>\<open>DONE\<close>.\<close>
definition auth_done ::
    "nat \<Rightarrow> GlideMessage \<Rightarrow> ID \<Rightarrow> go_error \<Rightarrow> string \<Rightarrow> gateway \<Rightarrow> (bool \<times> gateway) outcome" where
  "auth_done r m newId err errMsg g =
     bind_outcome
       (if err \<noteq> nil \<or> errMsg \<noteq> ''''
        then auth_gateway_enqueue (info_ID (GetInfo (heap g r)))
               (NewMessage (GetSeq m) ActionNotifyError (IString errMsg)) g
        else auth_gateway_enqueue newId (NewMessage (GetSeq m) ActionNotifySuccess INil) g)
       (\<lambda>g'. Ret (True, g'))"

definition ClientAuthMessageInterceptor ::
    "auth_env \<Rightarrow> nat \<Rightarrow> GlideMessage \<Rightarrow> gateway \<Rightarrow> (bool \<times> gateway) outcome" where
  "ClientAuthMessageInterceptor env r m g =
     (if Action m \<noteq> ActionAuthenticate then Ret (False, g)
      else case Deserialize_Credential (ae_json env) (Data m) of
             Inl e \<Rightarrow> auth_done r m '''' (Some e) ''invalid authenticate message'' g
           | Inr credential \<Rightarrow>
               if length (ec_Credential credential) < 5
               then auth_done r m '''' nil ''invalid authenticate message'' g
               else bind_outcome (ae_decrypt env (bytes_of_string (ec_Credential credential))) (\<lambda>d.
                 case d of
                   Inl e \<Rightarrow> auth_done r m '''' (Some e) ''invalid authenticate message'' g
                 | Inr cr \<Rightarrow>
                     if sint (of_int (ae_now env - Timestamp cr) :: i64) > 1500 * 1000
                     then auth_done r m '''' nil ''credential expired'' g
                     else bind_outcome (updateClient env r cr g) (\<lambda>(newId, err, g').
                            auth_done r m newId err '''' g')))"

definition interceptClientMessage ::
    "auth_env \<Rightarrow> nat \<Rightarrow> GlideMessage \<Rightarrow> gateway \<Rightarrow> (bool \<times> gateway) outcome" where
  "interceptClientMessage env r m g =
     (if Action m = ActionAuthenticate \<and> authenticator g
      then ClientAuthMessageInterceptor env r m g
      else MessageInterceptor env r m g)"


section \<open>The read and write loops\<close>

text \<open>The handler of a client: its interceptors, the outermost first, then the base handler.\<close>
fun run_handler :: "auth_env \<Rightarrow> handler \<Rightarrow> nat \<Rightarrow> GlideMessage \<Rightarrow> gateway \<Rightarrow> gateway outcome" where
  "run_handler env BaseHandler r m g = Ret (call_msgHandler (Live r) m g)"
| "run_handler env (Intercepted h) r m g =
     bind_outcome (interceptClientMessage env r m g) (\<lambda>(stop, g').
       if stop then Ret g' else run_handler env h r m g')"

text \<open>\<^verbatim>\<open>_ = c.EnqueueMessage(m)\<close>.\<close>
definition self_enqueue :: "nat \<Rightarrow> GlideMessage \<Rightarrow> gateway \<Rightarrow> gateway outcome" where
  "self_enqueue r m g =
     bind_outcome (EnqueueMessage m (heap g r)) (\<lambda>(_, c). Ret (upd r (\<lambda>_. c) g))"

definition rearm_hbC :: "nat \<Rightarrow> gateway \<Rightarrow> gateway" where
  "rearm_hbC r g = upd r (\<lambda>c. c\<lparr>hbC := Some (ClientHeartbeatDuration (config c))\<rparr>) g"

definition rearm_hbS :: "nat \<Rightarrow> gateway \<Rightarrow> gateway" where
  "rearm_hbS r g = upd r (\<lambda>c. c\<lparr>hbS := Some (ServerHeartbeatDuration (config c))\<rparr>) g"

text \<open>
  The cases of the \<^verbatim>\<open>select\<close> in \<open>runRead\<close>; the flag tells that the loop ends.
\<close>
definition runRead_closed :: "nat \<Rightarrow> gateway \<Rightarrow> bool \<times> gateway" where
  "runRead_closed r g = (True, upd r (\<lambda>c. c\<lparr>hbC := None\<rparr>) g)"

definition runRead_heartbeat :: "nat \<Rightarrow> gateway \<Rightarrow> (bool \<times> gateway) outcome" where
  "runRead_heartbeat r g =
     (if \<not> IsRunning (heap g r) then Ret (True, upd r (\<lambda>c. c\<lparr>hbC := None\<rparr>) g)
      else let g1 = upd r (\<lambda>c. c\<lparr>hbLost := hbLost c + 1\<rparr>) g
           in bind_outcome
                (if hbLost (heap g1 r) > HeartbeatLostLimit (config (heap g1 r))
                 then Exit r g1 else Ret g1)
                (\<lambda>g2. bind_outcome
                   (self_enqueue r (NewMessage 0 ActionHeartbeat INil) (rearm_hbC r g2))
                   (\<lambda>g3. Ret (False, g3))))"

definition runRead_message ::
    "auth_env \<Rightarrow> nat \<Rightarrow> readerRes option \<Rightarrow> gateway \<Rightarrow> (bool \<times> gateway) outcome" where
  "runRead_message env r res g =
     bind_outcome
       (case res of
          None \<Rightarrow> Exit r g
        | Some msg \<Rightarrow>
            (case rr_err msg of
               Some e \<Rightarrow>
                 if IsDecodeError (Some e)
                 then self_enqueue r (NewMessage 0 ActionNotifyError (IString e)) g
                 else Exit r g
             | None \<Rightarrow>
                 if info_ID (info (heap g r)) = '''' then Exit r g
                 else let g1 = rearm_hbC r (upd r (\<lambda>c. c\<lparr>hbLost := 0\<rparr>) g)
                      in case rr_m msg of
                           None \<Rightarrow> nil_dereference
                         | Some m \<Rightarrow>
                             if GetAction m = ActionHello
                             then bind_outcome (handleHello (ae_json env) m (heap g1 r))
                                    (\<lambda>c. Ret (upd r (\<lambda>_. c) g1))
                             else run_handler env (msgHandler (heap g1 r)) r m g1))
       (\<lambda>g'. Ret (False, g'))"

text \<open>
  The deferred function of \<open>runRead\<close>: a panic ends the loop and the client. What panics are the
  interceptors, before they change anything, so the state is the one in which the handler was called.
\<close>
definition read_state :: "nat \<Rightarrow> readerRes option \<Rightarrow> gateway \<Rightarrow> gateway" where
  "read_state r res g =
     (case res of
        None \<Rightarrow> g
      | Some msg \<Rightarrow>
          if rr_err msg = nil \<and> info_ID (info (heap g r)) \<noteq> ''''
          then rearm_hbC r (upd r (\<lambda>c. c\<lparr>hbLost := 0\<rparr>) g) else g)"

definition runRead_recover ::
    "auth_env \<Rightarrow> nat \<Rightarrow> readerRes option \<Rightarrow> gateway \<Rightarrow> (bool \<times> gateway) outcome" where
  "runRead_recover env r res g =
     (case runRead_message env r res g of
        Ret x \<Rightarrow> Ret x
      | Panic m \<Rightarrow>
          if m = ''deadlock'' then deadlock
          else bind_outcome (Exit r (read_state r res g)) (\<lambda>g'. Ret (True, g')))"

text \<open>The cases of the \<^verbatim>\<open>select\<close> in \<open>runWrite\<close>.\<close>
definition runWrite_closed :: "nat \<Rightarrow> gateway \<Rightarrow> bool \<times> gateway" where
  "runWrite_closed r g = (True, upd r (\<lambda>c. c\<lparr>hbS := None\<rparr>) g)"

definition runWrite_heartbeat :: "nat \<Rightarrow> gateway \<Rightarrow> (bool \<times> gateway) outcome" where
  "runWrite_heartbeat r g =
     (if \<not> IsRunning (heap g r) then Ret (True, upd r (\<lambda>c. c\<lparr>hbS := None\<rparr>) g)
      else bind_outcome (self_enqueue r (NewMessage 0 ActionHeartbeat INil) g)
             (\<lambda>g1. Ret (False, rearm_hbS r g1)))"

definition runWrite_message ::
    "client_io \<Rightarrow> nat \<Rightarrow> GlideMessage option \<Rightarrow> gateway \<Rightarrow> (bool \<times> gateway) outcome" where
  "runWrite_message io r m g =
     (case m of
        None \<Rightarrow> bind_outcome (Exit r g) (\<lambda>g'. Ret (False, g'))
      | Some _ \<Rightarrow> Ret (False, rearm_hbS r (upd r (write2Conn io m) g)))"


section \<open>The WebSocket server\<close>

definition NewWebsocketServer :: "string \<Rightarrow> string \<Rightarrow> gateway" where
  "NewWebsocketServer gateId secretKey = NewServer gateId secretKey 300000"

definition ws_config :: ClientConfig where
  "ws_config = \<lparr>ClientHeartbeatDuration = 30 * second, ServerHeartbeatDuration = 30 * second,
                HeartbeatLostLimit = 3, CloseImmediately = False\<rparr>"

text \<open>\<open>rd\<close> is the random input of the temporary identifier, \<open>now\<close> the time, \<open>addr\<close> the peer.\<close>
definition HandleConnection ::
    "bytes \<times> go_error \<Rightarrow> int \<Rightarrow> string \<Rightarrow> gateway \<Rightarrow> (ID \<times> gateway) outcome" where
  "HandleConnection rd now addr g =
     (case GenTempID rd (gw_id g) of
        (_, Some e) \<Rightarrow> Ret ('''', g)
      | (i, None) \<Rightarrow>
          let r = next_ref g;
              g1 = upd r (\<lambda>_. SetID i (NewClientWithConfig now addr True (Some ws_config)))
                     (g\<lparr>next_ref := r + 1\<rparr>)
          in bind_outcome (Impl_AddClient r g1) (\<lambda>g2.
             let g3 = upd r Run g2;
                 hello = \<lparr>sh_ServerVersion = '''', sh_TempID = UID i, sh_HeartbeatInterval = 30,
                          sh_Protocols = []\<rparr>
             in bind_outcome (self_enqueue r (NewMessage 0 ActionHello (Val (SServerHello hello))) g3)
                  (\<lambda>g4. Ret (i, g4))))"

section \<open>Lemmas\<close>

named_theorems gw \<open>definitions of the gateway operations\<close>

lemma upd_simps [simp]:
  "gw_id (upd r f g) = gw_id g" "clients (upd r f g) = clients g"
  "heap (upd r f g) = (heap g)(r := f (heap g r))" "next_ref (upd r f g) = next_ref g"
  "mu (upd r f g) = mu g" "events (upd r f g) = events g" "pool (upd r f g) = pool g"
  "pool_cap (upd r f g) = pool_cap g" "authenticator (upd r f g) = authenticator g"
  "draining (upd r f g) = draining g"
  by (simp_all add: upd_def)

lemma call_msgHandler_simps [simp]:
  "gw_id (call_msgHandler i m g) = gw_id g" "clients (call_msgHandler i m g) = clients g"
  "heap (call_msgHandler i m g) = heap g" "next_ref (call_msgHandler i m g) = next_ref g"
  "mu (call_msgHandler i m g) = mu g" "events (call_msgHandler i m g) = events g @ [(i, m)]"
  "pool (call_msgHandler i m g) = pool g" "pool_cap (call_msgHandler i m g) = pool_cap g"
  "authenticator (call_msgHandler i m g) = authenticator g"
  "draining (call_msgHandler i m g) = draining g"
  by (simp_all add: call_msgHandler_def)

lemma mu_Unlock_simps [simp]:
  "gw_id (mu_Unlock g) = gw_id g" "clients (mu_Unlock g) = clients g" "heap (mu_Unlock g) = heap g"
  "next_ref (mu_Unlock g) = next_ref g" "\<not> mu (mu_Unlock g)" "events (mu_Unlock g) = events g"
  "pool (mu_Unlock g) = pool g" "pool_cap (mu_Unlock g) = pool_cap g"
  "authenticator (mu_Unlock g) = authenticator g" "draining (mu_Unlock g) = draining g"
  by (simp_all add: mu_Unlock_def)

lemma mu_Lock_free [simp]: "\<not> mu g \<Longrightarrow> mu_Lock g = Ret (g\<lparr>mu := True\<rparr>)"
  by (simp add: mu_Lock_def)

lemma SetID_simps [simp]:
  "info_ID (info (SetID i c)) = i" "state (SetID i c) = state c" "mgr (SetID i c) = mgr c"
  "messages (SetID i c) = messages c" "credentials (SetID i c) = credentials c"
  "config (SetID i c) = config c" "msgHandler (SetID i c) = msgHandler c"
  by (simp_all add: SetID_def)

lemma AddMessageInterceptor_simps [simp]:
  "info (AddMessageInterceptor c) = info c" "state (AddMessageInterceptor c) = state c"
  "messages (AddMessageInterceptor c) = messages c" "mgr (AddMessageInterceptor c) = mgr c"
  "credentials (AddMessageInterceptor c) = credentials c"
  by (simp_all add: AddMessageInterceptor_def)

lemma SetCredentials_simps [simp]:
  "info_ID (info (SetCredentials cr c)) = info_ID (info c)" "state (SetCredentials cr c) = state c"
  "messages (SetCredentials cr c) = messages c" "mgr (SetCredentials cr c) = mgr c"
  "credentials (SetCredentials cr c) = Some cr"
  by (simp_all add: SetCredentials_def Let_def split: option.split)

lemma exit_mark_simps [simp]:
  "info (exit_mark c) = info c" "mgr (exit_mark c) = mgr c" "messages (exit_mark c) = messages c"
  "state (exit_mark c) = stateClosed" "config (exit_mark c) = config c"
  by (simp_all add: exit_mark_def)

lemma exit_stop_simps [simp]:
  "info_ID (info (exit_stop c)) = ''''" "\<not> mgr (exit_stop c)" "state (exit_stop c) = state c"
  "messages (exit_stop c) = messages c" "config (exit_stop c) = config c"
  by (simp_all add: exit_stop_def stopReadWrite_def SetID_def Let_def)

lemma Run_simps [simp]:
  "info (Run c) = info c" "state (Run c) = stateRunning" "messages (Run c) = messages c"
  "mgr (Run c) = mgr c" "credentials (Run c) = credentials c"
  by (simp_all add: Run_def)

lemma GetInfo_simp [simp]: "GetInfo c = info c"
  by (simp add: GetInfo_def)

lemma state_neq [simp]: "stateRunning \<noteq> stateClosed" "stateClosed \<noteq> stateRunning"
  by (simp_all add: stateRunning_def stateClosed_def)

subsection \<open>The invariant\<close>

text \<open>
  Clients and identifiers correspond: a registered client carries a non-empty identifier that
  completes to the key it is registered under, a client with a non-empty identifier is registered
  under it, only closed clients have a closed queue, clients that are not closed know the gateway, and only
  closed clients are being emptied.
\<close>
definition gw_inv :: "gateway \<Rightarrow> bool" where
  "gw_inv g =
     ((\<forall>k r. clients g k = Some r \<longrightarrow>
         r < next_ref g \<and> info_ID (info (heap g r)) \<noteq> '''' \<and>
         k = normID (gw_id g) (info_ID (info (heap g r)))) \<and>
      (\<forall>r < next_ref g. info_ID (info (heap g r)) \<noteq> '''' \<longrightarrow>
         clients g (normID (gw_id g) (info_ID (info (heap g r)))) = Some r) \<and>
      (\<forall>r. closed (messages (heap g r)) \<longrightarrow> state (heap g r) = stateClosed) \<and>
      (\<forall>r < next_ref g. state (heap g r) \<noteq> stateClosed \<longrightarrow> mgr (heap g r)) \<and>
      (\<forall>r \<in> set (draining g). r < next_ref g \<and> state (heap g r) = stateClosed))"

lemma gw_invI:
  assumes "\<And>k r. clients g k = Some r \<Longrightarrow> r < next_ref g \<and> info_ID (info (heap g r)) \<noteq> '''' \<and>
      k = normID (gw_id g) (info_ID (info (heap g r)))"
    and "\<And>r. r < next_ref g \<Longrightarrow> info_ID (info (heap g r)) \<noteq> '''' \<Longrightarrow>
      clients g (normID (gw_id g) (info_ID (info (heap g r)))) = Some r"
    and "\<And>r. closed (messages (heap g r)) \<Longrightarrow> state (heap g r) = stateClosed"
    and "\<And>r. r < next_ref g \<Longrightarrow> state (heap g r) \<noteq> stateClosed \<Longrightarrow> mgr (heap g r)"
    and "\<And>r. r \<in> set (draining g) \<Longrightarrow> r < next_ref g \<and> state (heap g r) = stateClosed"
  shows "gw_inv g"
  unfolding gw_inv_def using assms by blast

lemma gw_invD:
  assumes "gw_inv g"
  shows "clients g k = Some r \<Longrightarrow> r < next_ref g"
    and "clients g k = Some r \<Longrightarrow> info_ID (info (heap g r)) \<noteq> ''''"
    and "clients g k = Some r \<Longrightarrow> normID (gw_id g) (info_ID (info (heap g r))) = k"
    and "r < next_ref g \<Longrightarrow> info_ID (info (heap g r)) \<noteq> '''' \<Longrightarrow>
      clients g (normID (gw_id g) (info_ID (info (heap g r)))) = Some r"
    and "closed (messages (heap g r)) \<Longrightarrow> state (heap g r) = stateClosed"
    and "r < next_ref g \<Longrightarrow> state (heap g r) \<noteq> stateClosed \<Longrightarrow> mgr (heap g r)"
    and "r \<in> set (draining g) \<Longrightarrow> r < next_ref g \<and> state (heap g r) = stateClosed"
  using assms unfolding gw_inv_def by blast+

lemma gw_inv_cong:
  assumes "gw_inv g" "clients h = clients g" "next_ref h = next_ref g" "gw_id h = gw_id g"
    and "\<And>r. info_ID (info (heap h r)) = info_ID (info (heap g r))"
    and "\<And>r. closed (messages (heap h r)) \<Longrightarrow> state (heap h r) = stateClosed"
    and "\<And>r. state (heap h r) = stateClosed \<or>
      state (heap h r) = state (heap g r) \<and> mgr (heap h r) = mgr (heap g r)"
    and "\<And>r. r \<in> set (draining h) \<Longrightarrow> r \<in> set (draining g) \<or> r < next_ref g \<and> state (heap h r) = stateClosed"
  shows "gw_inv h"
proof (rule gw_invI)
  note D = gw_invD [OF assms(1)]
  show "clients h k = Some r \<Longrightarrow> r < next_ref h \<and> info_ID (info (heap h r)) \<noteq> '''' \<and>
      k = normID (gw_id h) (info_ID (info (heap h r)))" for k r
    using D(1-3) assms(2-5) by auto
  show "r < next_ref h \<Longrightarrow> info_ID (info (heap h r)) \<noteq> '''' \<Longrightarrow>
      clients h (normID (gw_id h) (info_ID (info (heap h r)))) = Some r" for r
    using D(4) assms(2-5) by auto
  show "r < next_ref h \<Longrightarrow> state (heap h r) \<noteq> stateClosed \<Longrightarrow> mgr (heap h r)" for r
    using D(6) [of r] assms(3) assms(7) [of r] by auto
  show "r \<in> set (draining h) \<Longrightarrow> r < next_ref h \<and> state (heap h r) = stateClosed" for r
    using D(7) [of r] assms(3) assms(7) [of r] assms(8) [of r] by auto
qed (rule assms(6))

lemma gw_inv_inj: "gw_inv g \<Longrightarrow> clients g k = Some r \<Longrightarrow> clients g k' = Some r \<Longrightarrow> k = k'"
  by (metis gw_invD(3))

lemma normID_key: "gw_inv g \<Longrightarrow> clients g k = Some r \<Longrightarrow> normID (gw_id g) k = k"
  by (metis gw_invD(3) normID_idem)

lemma gw_inv_mu [simp]: "gw_inv (g\<lparr>mu := b\<rparr>) = gw_inv g" "gw_inv (mu_Unlock g) = gw_inv g"
  by (simp_all add: gw_inv_def mu_Unlock_def)

lemma gw_inv_event [simp]: "gw_inv (call_msgHandler i m g) = gw_inv g"
  by (simp add: gw_inv_def)

lemma gw_inv_pool [simp]: "gw_inv (g\<lparr>pool := p\<rparr>) = gw_inv g"
  by (simp add: gw_inv_def)

lemma normID_nonempty: "i \<noteq> '''' \<Longrightarrow> normID g i \<noteq> ''''"
  using SetGateway_cases [of i g] by (auto simp: NewID_def)

lemma NewServer_inv: "gw_inv (NewServer ident key n)"
  by (simp add: gw_inv_def NewServer_def NewClientWithConfig_def make_chan_def)

text \<open>Changes of one client that keep its identifier.\<close>
lemma gw_inv_upd:
  assumes "gw_inv g" "info_ID (info (f (heap g r))) = info_ID (info (heap g r))"
    and "closed (messages (f (heap g r))) \<Longrightarrow> state (f (heap g r)) = stateClosed"
    and "state (f (heap g r)) = stateClosed \<or>
      state (f (heap g r)) = state (heap g r) \<and> mgr (f (heap g r)) = mgr (heap g r)"
  shows "gw_inv (upd r f g)"
  by (rule gw_inv_cong [OF assms(1)]) (use assms gw_invD(5) [OF assms(1)] in auto)

subsection \<open>Operations keep the invariant\<close>

lemma Impl_EnqueueMessage_eq:
  "\<not> mu g \<Longrightarrow> Impl_EnqueueMessage i m g =
     (case clients g (normID (gw_id g) i) of
        None \<Rightarrow> Ret (Some errClientNotExist, g)
      | Some r \<Rightarrow> Ret (Impl_enqueueMessage r m g))"
  by (simp add: Impl_EnqueueMessage_def)

text \<open>The state after an enqueue differs in the pool only.\<close>
lemma Impl_enqueueMessage_frame:
  "Impl_enqueueMessage r m g = (e, g') \<Longrightarrow> \<exists>p. g' = g\<lparr>pool := p\<rparr>"
  by (auto simp: Impl_enqueueMessage_def split: if_splits) (metis gateway.surjective gateway.update_convs(7))+

lemma Impl_EnqueueMessage_frame:
  assumes "Impl_EnqueueMessage i m g = Ret (e, g')" shows "\<exists>p. g' = g\<lparr>pool := p\<rparr>"
proof -
  have "\<exists>p. g = g\<lparr>pool := p\<rparr>" by (metis gateway.surjective gateway.update_convs(7))
  then show ?thesis using assms Impl_enqueueMessage_frame
    by (auto simp: Impl_EnqueueMessage_def deadlock_def split: if_splits option.splits)
qed

lemma Impl_EnqueueMessage_returns:
  "\<not> mu g \<Longrightarrow> \<exists>e g'. Impl_EnqueueMessage i m g = Ret (e, g') \<and> \<not> mu g'"
  by (auto simp: Impl_EnqueueMessage_def Impl_enqueueMessage_def split: option.split)

lemma SetClientID_cases:
  assumes "\<not> mu g"
  shows "Impl_SetClientID old new g =
    (let o' = normID (gw_id g) old; n' = normID (gw_id g) new
     in case clients g o' of
          None \<Rightarrow> Ret (Some errClientNotExist, g)
        | Some r \<Rightarrow>
            if clients g n' \<noteq> None then Ret (Some errClientAlreadyExist, g)
            else Ret (nil, g\<lparr>clients := (clients g)(o' := None, n' := Some r),
                   heap := (heap g)(r := SetID n' (heap g r)),
                   events := events g @
                     [(Copy (info (heap g r)), NewMessage 0 ActionInternalOffline (IID o')),
                      (Copy (info (SetID n' (heap g r))), NewMessage 0 ActionInternalOnline (IID n'))]\<rparr>))"
proof -
  have "mu_Unlock (g\<lparr>mu := True\<rparr>) = g" using assms by (simp add: mu_Unlock_def)
  then show ?thesis
    using assms
    by (auto simp: Impl_SetClientID_def Let_def call_msgHandler_def upd_def mu_Unlock_def
        split: option.split)
qed

lemma SetClientID_inv:
  assumes "gw_inv g" "\<not> mu g" "new \<noteq> ''''" "Impl_SetClientID old new g = Ret (e, g')"
  shows "gw_inv g' \<and> \<not> mu g'"
proof (cases "e = nil")
  case False
  then show ?thesis using assms
    by (auto simp: SetClientID_cases Let_def split: option.splits if_splits)
next
  case True
  define o' n' where "o' = normID (gw_id g) old" and "n' = normID (gw_id g) new"
  from True assms obtain r where r: "clients g o' = Some r" "clients g n' = None"
    and g': "g' = g\<lparr>clients := (clients g)(o' := None, n' := Some r),
                   heap := (heap g)(r := SetID n' (heap g r)),
                   events := events g @
                     [(Copy (info (heap g r)), NewMessage 0 ActionInternalOffline (IID o')),
                      (Copy (info (SetID n' (heap g r))), NewMessage 0 ActionInternalOnline (IID n'))]\<rparr>"
    by (auto simp: SetClientID_cases Let_def o'_def n'_def split: option.splits if_splits)
  have n': "n' \<noteq> ''''" "normID (gw_id g) n' = n'"
    using assms(3) by (simp_all add: n'_def normID_nonempty)
  note D = gw_invD [OF assms(1)] and inj = gw_inv_inj [OF assms(1)]
  have "gw_inv g'"
  proof (rule gw_invI)
    fix k q assume "clients g' k = Some q"
    then show "q < next_ref g' \<and> info_ID (info (heap g' q)) \<noteq> '''' \<and>
        k = normID (gw_id g') (info_ID (info (heap g' q)))"
      using r n' D(1-3) inj by (auto simp: g' split: if_splits)
  next
    fix q assume "q < next_ref g'" "info_ID (info (heap g' q)) \<noteq> ''''"
    then show "clients g' (normID (gw_id g') (info_ID (info (heap g' q)))) = Some q"
      using r n' D(4) by (auto simp: g')
  next
    fix q assume "closed (messages (heap g' q))"
    then show "state (heap g' q) = stateClosed" using D(5) by (auto simp: g' split: if_splits)
  next
    fix q assume "q < next_ref g'" "state (heap g' q) \<noteq> stateClosed"
    then show "mgr (heap g' q)" using D(6) by (auto simp: g' split: if_splits)
  next
    fix q assume "q \<in> set (draining g')"
    then show "q < next_ref g' \<and> state (heap g' q) = stateClosed" using D(7) by (auto simp: g')
  qed
  then show ?thesis using assms(2) by (simp add: g')
qed

lemma UpdateClient_inv:
  assumes "gw_inv g" "\<not> mu g" "Impl_UpdateClient i sec g = Ret (e, g')"
  shows "gw_inv g' \<and> \<not> mu g'"
proof -
  have "gw_inv (upd r (SetCredentials cr) (g\<lparr>mu := True\<rparr>))" for r cr
    using assms(1) gw_invD(5) [OF assms(1)] by (intro gw_inv_upd) simp_all
  then show ?thesis using assms
    by (auto simp: Impl_UpdateClient_def nil_dereference_def GetCredentials_def split: option.splits)
qed

lemma pool_run_inv: "gw_inv g \<Longrightarrow> gw_inv (pool_run g)"
proof -
  assume g: "gw_inv g"
  have "gw_inv (upd r (\<lambda>_. c) g)" if "EnqueueMessage m (heap g r) = Ret (e, c)" for r m e c
    using that gw_invD(5) [OF g]
    by (intro gw_inv_upd [OF g])
       (auto simp: EnqueueMessage_def enqueue_send_def try_send_def bind_outcome_eq_Ret
         split: if_splits option.splits)
  with g show ?thesis
    by (auto simp: pool_run_def split: list.split prod.split outcome.split)
qed

subsection \<open>Exit\<close>

text \<open>What \<open>Exit\<close> does after the call of the gateway, as a total function.\<close>
definition exit_final :: "nat \<Rightarrow> gateway \<Rightarrow> gateway" where
  "exit_final r g =
     (let c = exit_stop (heap g r)
      in if CloseImmediately (config c)
         then upd r (\<lambda>_. c\<lparr>messages := (messages c)\<lparr>closed := True\<rparr>, conn_closed := True\<rparr>) g
         else (upd r (\<lambda>_. c) g)\<lparr>draining := draining g @ [r]\<rparr>)"

text \<open>What \<open>ExitClient\<close> does before it calls \<open>Exit\<close>.\<close>
definition unregister :: "ID \<Rightarrow> nat \<Rightarrow> gateway \<Rightarrow> gateway" where
  "unregister k r g =
     call_msgHandler (Copy (info (heap g r))) (NewMessage 0 ActionInternalOffline (IID k))
       ((upd r (SetID '''') g)\<lparr>clients := (clients g)(k := None)\<rparr>)"

lemma upd_upd [simp]: "upd r f (upd r h g) = upd r (f \<circ> h) g"
  by (simp add: upd_def)

lemma exit_final_eq:
  assumes "\<not> closed (messages (heap g r))"
  shows "exit_tail r g = Ret (exit_final r g)"
  using assms
  by (simp add: exit_tail_def exit_final_def Let_def close_client_def close_chan_def upd_def)

lemma exit_final_simps [simp]:
  "clients (exit_final r g) = clients g" "mu (exit_final r g) = mu g"
  "gw_id (exit_final r g) = gw_id g" "next_ref (exit_final r g) = next_ref g"
  "events (exit_final r g) = events g" "q \<noteq> r \<Longrightarrow> heap (exit_final r g) q = heap g q"
  "info_ID (info (heap (exit_final r g) r)) = ''''"
  "state (heap (exit_final r g) r) = state (heap g r)"
  "mgr (heap (exit_final r g) r) = False"
  by (simp_all add: exit_final_def Let_def)

lemma unregister_simps [simp]:
  "clients (unregister k r g) = (clients g)(k := None)" "mu (unregister k r g) = mu g"
  "gw_id (unregister k r g) = gw_id g" "next_ref (unregister k r g) = next_ref g"
  "heap (unregister k r g) = (heap g)(r := SetID '''' (heap g r))"
  "events (unregister k r g) =
     events g @ [(Copy (info (heap g r)), NewMessage 0 ActionInternalOffline (IID k))]"
  by (simp_all add: unregister_def)

lemma Exit_closed: "state (heap g r) = stateClosed \<Longrightarrow> Exit r g = Ret g"
  by (simp add: Exit.simps)

lemma Exit_unmanaged:
  assumes "state (heap g r) \<noteq> stateClosed" "\<not> closed (messages (heap g r))"
    and "\<not> mgr (heap g r) \<or> info_ID (info (heap g r)) = ''''"
  shows "Exit r g = Ret (exit_final r (upd r exit_mark g))"
proof -
  have "\<not> closed (messages (heap (upd r exit_mark g) r))" using assms by simp
  from exit_final_eq [OF this] show ?thesis using assms
    by (subst Exit.simps) (auto simp: Let_def)
qed

definition exited :: "nat \<Rightarrow> gateway \<Rightarrow> gateway" where
  "exited r g = (if state (heap g r) = stateClosed then g else exit_final r (upd r exit_mark g))"

lemma ExitClient_eq:
  assumes "\<not> mu g" "clients g (normID (gw_id g) i) = Some r"
    and "closed (messages (heap g r)) \<Longrightarrow> state (heap g r) = stateClosed"
  shows "Impl_ExitClient i g = Ret (nil, mu_Unlock (exited r (unregister (normID (gw_id g) i) r (g\<lparr>mu := True\<rparr>))))"
proof -
  let ?g = "unregister (normID (gw_id g) i) r (g\<lparr>mu := True\<rparr>)"
  have "Exit r ?g = Ret (exited r ?g)"
    using assms by (auto simp: exited_def Exit_closed intro!: Exit_unmanaged)
  moreover have "?g = call_msgHandler (Copy (GetInfo (heap (g\<lparr>mu := True\<rparr>) r)))
      (NewMessage 0 ActionInternalOffline (IID (normID (gw_id (g\<lparr>mu := True\<rparr>)) i)))
      ((upd r (SetID '''') (g\<lparr>mu := True\<rparr>))\<lparr>clients := (clients (upd r (SetID '''') (g\<lparr>mu := True\<rparr>)))
        (normID (gw_id (g\<lparr>mu := True\<rparr>)) i := None)\<rparr>)"
    by (simp add: unregister_def)
  ultimately show ?thesis using assms(1,2) by (subst Impl_ExitClient.simps) (simp add: Let_def)
qed

lemma ExitClient_missing:
  assumes "\<not> mu g" "clients g (normID (gw_id g) i) = None"
  shows "Impl_ExitClient i g = Ret (Some errClientNotExist, g)"
  using assms by (subst Impl_ExitClient.simps) (simp add: Let_def mu_Unlock_def)

lemma Exit_managed:
  assumes "gw_inv g" "\<not> mu g" "state (heap g r) \<noteq> stateClosed" "r < next_ref g"
    and "mgr (heap g r)" "info_ID (info (heap g r)) \<noteq> ''''"
  shows "Exit r g = Ret (exit_final r (unregister (normID (gw_id g) (info_ID (info (heap g r)))) r
                           (upd r exit_mark g)))"
proof -
  let ?k = "normID (gw_id g) (info_ID (info (heap g r)))"
  let ?g1 = "upd r exit_mark g"
  have cl: "clients g ?k = Some r" by (rule gw_invD(4) [OF assms(1,4,6)])
  have "Impl_ExitClient (info_ID (info (heap g r))) ?g1 =
      Ret (nil, mu_Unlock (unregister ?k r (?g1\<lparr>mu := True\<rparr>)))"
    using ExitClient_eq [of ?g1 "info_ID (info (heap g r))" r] assms(2) cl
    by (simp add: exited_def)
  also have "mu_Unlock (unregister ?k r (?g1\<lparr>mu := True\<rparr>)) = unregister ?k r ?g1"
    using assms(2) by (simp add: unregister_def call_msgHandler_def mu_Unlock_def upd_def)
  finally have ec: "Impl_ExitClient (info_ID (info (heap g r))) ?g1 = Ret (nil, unregister ?k r ?g1)" .
  have nc: "\<not> closed (messages (heap (unregister ?k r ?g1) r))"
    using gw_invD(5) [OF assms(1)] assms(3) by auto
  show ?thesis using assms ec exit_final_eq [OF nc]
    by (subst Exit.simps) (simp add: Let_def)
qed

lemma exit_final_inv:
  assumes "gw_inv g" "info_ID (info (heap g r)) = ''''" "state (heap g r) = stateClosed"
    "r < next_ref g"
  shows "gw_inv (exit_final r g)"
  by (rule gw_inv_cong [OF assms(1)])
     (use assms gw_invD(5) [OF assms(1)] in \<open>auto simp: exit_final_def Let_def split: if_splits\<close>)

lemma unregister_inv:
  assumes "gw_inv g" "clients g k = Some r"
  shows "gw_inv (unregister k r g)"
proof (rule gw_invI)
  note D = gw_invD [OF assms(1)] and inj = gw_inv_inj [OF assms(1,2)]
  fix j q assume "clients (unregister k r g) j = Some q"
  then show "q < next_ref (unregister k r g) \<and> info_ID (info (heap (unregister k r g) q)) \<noteq> '''' \<and>
      j = normID (gw_id (unregister k r g)) (info_ID (info (heap (unregister k r g) q)))"
    using D(1-3) inj by (auto split: if_splits)
next
  note D = gw_invD [OF assms(1)]
  fix q assume "q < next_ref (unregister k r g)" "info_ID (info (heap (unregister k r g) q)) \<noteq> ''''"
  then have q: "q \<noteq> r" "clients g (normID (gw_id g) (info_ID (info (heap g q)))) = Some q"
    using D(4) by (auto split: if_splits)
  then show "clients (unregister k r g) (normID (gw_id (unregister k r g))
      (info_ID (info (heap (unregister k r g) q)))) = Some q"
    using assms(2) by auto
next
  fix q assume "closed (messages (heap (unregister k r g) q))"
  then show "state (heap (unregister k r g) q) = stateClosed"
    using gw_invD(5) [OF assms(1)] by (auto split: if_splits)
next
  fix q assume "q < next_ref (unregister k r g)" "state (heap (unregister k r g) q) \<noteq> stateClosed"
  then show "mgr (heap (unregister k r g) q)"
    using gw_invD(6) [OF assms(1)] by (auto split: if_splits)
next
  fix q assume "q \<in> set (draining (unregister k r g))"
  then show "q < next_ref (unregister k r g) \<and> state (heap (unregister k r g) q) = stateClosed"
    using gw_invD(7) [OF assms(1)] by (auto simp: unregister_def)
qed

lemma gw_inv_mark: "gw_inv g \<Longrightarrow> gw_inv (upd r exit_mark g)"
  by (rule gw_inv_upd) auto

lemma exited_inv:
  assumes "gw_inv g" "info_ID (info (heap g r)) = ''''" "r < next_ref g"
  shows "gw_inv (exited r g)"
  using assms by (auto simp: exited_def intro!: exit_final_inv gw_inv_mark)

lemma ExitClient_inv:
  assumes "gw_inv g" "\<not> mu g"
  shows "\<exists>e g'. Impl_ExitClient i g = Ret (e, g') \<and> gw_inv g' \<and> \<not> mu g' \<and>
    clients g' = (clients g)(normID (gw_id g) i := None)"
proof (cases "clients g (normID (gw_id g) i)")
  case None
  then show ?thesis using assms by (auto simp: ExitClient_missing)
next
  case (Some r)
  let ?g = "unregister (normID (gw_id g) i) r (g\<lparr>mu := True\<rparr>)"
  have "gw_inv (exited r ?g)"
    using assms Some gw_invD(1) [OF assms(1) Some] by (intro exited_inv unregister_inv) simp_all
  then show ?thesis
    using ExitClient_eq [OF assms(2) Some gw_invD(5) [OF assms(1)]]
    by (simp add: exited_def)
qed

lemma Exit_inv:
  assumes "gw_inv g" "\<not> mu g" "r < next_ref g"
  shows "\<exists>g'. Exit r g = Ret g' \<and> gw_inv g' \<and> \<not> mu g' \<and> state (heap g' r) = stateClosed \<and>
    next_ref g' = next_ref g \<and> gw_id g' = gw_id g \<and>
    (state (heap g r) \<noteq> stateClosed \<longrightarrow> (\<forall>k. clients g' k \<noteq> Some r))"
proof -
  let ?k = "normID (gw_id g) (info_ID (info (heap g r)))"
  consider (closed) "state (heap g r) = stateClosed"
    | (named) "state (heap g r) \<noteq> stateClosed" "info_ID (info (heap g r)) \<noteq> ''''"
    | (nameless) "state (heap g r) \<noteq> stateClosed" "info_ID (info (heap g r)) = ''''"
    by blast
  then show ?thesis
  proof cases
    case closed
    then show ?thesis using assms by (simp add: Exit_closed)
  next
    case named
    let ?g = "unregister ?k r (upd r exit_mark g)"
    have k: "clients g ?k = Some r" by (rule gw_invD(4) [OF assms(1,3) named(2)])
    have "gw_inv ?g" using unregister_inv [OF gw_inv_mark [OF assms(1)]] k by simp
    then have "gw_inv (exit_final r ?g)" by (rule exit_final_inv) (use assms(3) in simp_all)
    moreover have "\<forall>j. clients (exit_final r ?g) j \<noteq> Some r"
      using gw_inv_inj [OF assms(1) k] by auto
    ultimately show ?thesis
      using Exit_managed [OF assms(1,2) named(1) assms(3) gw_invD(6) [OF assms(1,3) named(1)] named(2)]
        assms(2) by simp
  next
    case nameless
    let ?g = "upd r exit_mark g"
    have "Exit r g = Ret (exit_final r ?g)"
      using nameless gw_invD(5) [OF assms(1)] by (intro Exit_unmanaged) auto
    moreover have "gw_inv (exit_final r ?g)"
      using nameless assms(3) by (intro exit_final_inv gw_inv_mark assms(1)) simp_all
    moreover have "\<forall>j. clients g j \<noteq> Some r" using gw_invD(2) [OF assms(1)] nameless(2) by blast
    ultimately show ?thesis using assms(2) by simp
  qed
qed

subsection \<open>Well-formed clients\<close>

text \<open>
  The queue of a client holds at most its hundred messages, and a \<^verbatim>\<open>sync.Once\<close> that has run has closed its
  channel. A client is running and has an identifier, or it is closed: then it has neither an identifier
  nor a manager, and both loops have been told to stop.
\<close>
definition cli_base :: "UserClient \<Rightarrow> bool" where
  "cli_base c = (chan_wf (messages c) \<and> cap (messages c) = 100 \<and>
     (closeReadOnce c \<longrightarrow> closeReadCh c) \<and> (closeWriteOnce c \<longrightarrow> closeWriteCh c))"

definition cli_wf :: "UserClient \<Rightarrow> bool" where
  "cli_wf c = (cli_base c \<and>
     (state c = stateRunning \<and> info_ID (info c) \<noteq> '''' \<or>
      state c = stateClosed \<and> info_ID (info c) = '''' \<and> \<not> mgr c \<and> closeReadCh c \<and> closeWriteCh c))"

definition wf_clients :: "gateway \<Rightarrow> bool" where
  "wf_clients g = (\<forall>r < next_ref g. cli_wf (heap g r))"

lemma cli_wf_fields [simp]:
  "cli_wf (c\<lparr>hbC := x\<rparr>) = cli_wf c" "cli_wf (c\<lparr>hbS := x\<rparr>) = cli_wf c" "cli_wf (c\<lparr>hbLost := n\<rparr>) = cli_wf c"
  "cli_wf (c\<lparr>info := (info c)\<lparr>Version := v\<rparr>\<rparr>) = cli_wf c" "cli_wf (SetCredentials cr c) = cli_wf c"
  by (simp_all add: cli_wf_def cli_base_def SetCredentials_def Let_def split: option.split)

lemma cli_wf_write2Conn [simp]: "cli_wf c \<Longrightarrow> cli_wf (write2Conn io m c)"
  by (auto simp: cli_wf_def cli_base_def write2Conn_def Let_def split: sum.split option.split)

lemma cli_wf_EnqueueMessage: "EnqueueMessage m c = Ret (e, c') \<Longrightarrow> cli_wf c \<Longrightarrow> cli_wf c'"
  by (auto simp: cli_wf_def cli_base_def EnqueueMessage_def enqueue_send_def try_send_def chan_wf_def bind_outcome_eq_Ret
      split: if_splits option.splits)

lemma wf_clients_upd:
  "wf_clients g \<Longrightarrow> (cli_wf (heap g r) \<Longrightarrow> cli_wf (f (heap g r))) \<Longrightarrow> wf_clients (upd r f g)"
  by (auto simp: wf_clients_def)

lemma wf_clients_cong: "next_ref h = next_ref g \<Longrightarrow> heap h = heap g \<Longrightarrow> wf_clients h = wf_clients g"
  by (simp add: wf_clients_def)

lemma cli_wf_base: "cli_wf c \<Longrightarrow> cli_base c"
  by (simp add: cli_wf_def)

lemma cli_base_keeps [simp]: "cli_base (SetID i c) = cli_base c" "cli_base (exit_mark c) = cli_base c"
  by (simp_all add: cli_base_def SetID_def exit_mark_def)

lemma cli_wf_exit_stop: "cli_base c \<Longrightarrow> state c = stateClosed \<Longrightarrow> cli_wf (exit_stop c)"
  by (auto simp: cli_wf_def cli_base_def exit_stop_def stopReadWrite_def SetID_def Let_def)

lemma cli_wf_close: "cli_wf c \<Longrightarrow> cli_wf (c\<lparr>messages := (messages c)\<lparr>closed := b\<rparr>, conn_closed := d\<rparr>)"
  by (auto simp: cli_wf_def cli_base_def chan_wf_def)

lemma exit_final_wf:
  assumes "wf_clients g \<or> (\<forall>q < next_ref g. q \<noteq> r \<longrightarrow> cli_wf (heap g q))" "cli_base (heap g r)" "state (heap g r) = stateClosed"
  shows "wf_clients (exit_final r g)"
  using assms cli_wf_exit_stop [OF assms(2,3)] cli_wf_close [OF cli_wf_exit_stop [OF assms(2,3)]]
  by (auto simp: wf_clients_def exit_final_def Let_def)

lemma Exit_wf:
  assumes "gw_inv g" "\<not> mu g" "wf_clients g" "r < next_ref g" "Exit r g = Ret g'"
  shows "wf_clients g'"
proof (cases "state (heap g r) = stateClosed")
  case True
  then show ?thesis using assms by (simp add: Exit_closed)
next
  case False
  have w: "cli_wf (heap g r)" using assms(3,4) by (simp add: wf_clients_def)
  then have "info_ID (info (heap g r)) \<noteq> ''''" using False by (simp add: cli_wf_def)
  from Exit_managed [OF assms(1,2) False assms(4) gw_invD(6) [OF assms(1,4) False] this] assms(5)
  have "g' = exit_final r (unregister (normID (gw_id g) (info_ID (info (heap g r)))) r (upd r exit_mark g))" by simp
  moreover have "wf_clients \<dots>"
    using assms(3) by (intro exit_final_wf) (auto simp: wf_clients_def cli_wf_base [OF w])
  ultimately show ?thesis by simp
qed

lemma ExitClient_wf:
  assumes "gw_inv g" "\<not> mu g" "wf_clients g" "Impl_ExitClient i g = Ret (e, g')"
  shows "wf_clients g'"
proof (cases "clients g (normID (gw_id g) i)")
  case None
  then show ?thesis using assms by (simp add: ExitClient_missing)
next
  case (Some r)
  let ?g = "unregister (normID (gw_id g) i) r (g\<lparr>mu := True\<rparr>)"
  have w: "cli_wf (heap g r)" using assms(3) gw_invD(1) [OF assms(1) Some] by (simp add: wf_clients_def)
  then have s: "state (heap g r) \<noteq> stateClosed" using gw_invD(2) [OF assms(1) Some] by (auto simp: cli_wf_def)
  then have "g' = mu_Unlock (exit_final r (upd r exit_mark ?g))"
    using ExitClient_eq [OF assms(2) Some] gw_invD(5) [OF assms(1)] assms(4) by (simp add: exited_def)
  moreover have "wf_clients (exit_final r (upd r exit_mark ?g))"
    using assms(3) by (intro exit_final_wf) (auto simp: wf_clients_def cli_wf_base [OF w])
  ultimately show ?thesis by (simp add: wf_clients_def)
qed

lemma SetClientID_wf:
  assumes "gw_inv g" "\<not> mu g" "wf_clients g" "new \<noteq> ''''" "Impl_SetClientID old new g = Ret (e, g')"
  shows "wf_clients g'"
proof -
  have "cli_wf (SetID (normID (gw_id g) new) (heap g r))" if "clients g k = Some r" for k r
  proof -
    have "cli_wf (heap g r)" "info_ID (info (heap g r)) \<noteq> ''''"
      using assms(3) gw_invD(1,2) [OF assms(1) that] by (simp_all add: wf_clients_def)
    then show ?thesis using normID_nonempty [OF assms(4)] by (simp add: cli_wf_def)
  qed
  then show ?thesis using assms by (auto simp: SetClientID_cases Let_def wf_clients_def split: option.splits if_splits)
qed

subsection \<open>Handlers keep the invariant and never block\<close>

definition good :: "gateway \<Rightarrow> bool" where
  "good g = (gw_inv g \<and> \<not> mu g \<and> wf_clients g)"

lemma good_simps [simp]:
  "good (call_msgHandler i m g) = good g" "good (g\<lparr>pool := p\<rparr>) = good g"
  by (simp_all add: good_def wf_clients_def)

text \<open>
  The outcome of an operation started in \<open>g\<close>: a state that is good again, or a panic other than
  the deadlock.
\<close>
definition safe_from :: "gateway \<Rightarrow> ('a \<Rightarrow> gateway) \<Rightarrow> 'a outcome \<Rightarrow> bool" where
  "safe_from g f x =
     (case x of
        Ret y \<Rightarrow> good (f y) \<and> next_ref (f y) = next_ref g \<and> gw_id (f y) = gw_id g
      | Panic m \<Rightarrow> m \<noteq> ''deadlock'')"

lemma safe_Ret [simp]:
  "safe_from g f (Ret y) = (good (f y) \<and> next_ref (f y) = next_ref g \<and> gw_id (f y) = gw_id g)"
  by (simp add: safe_from_def)

lemma safe_cong:
  "next_ref g = next_ref h \<Longrightarrow> gw_id g = gw_id h \<Longrightarrow> safe_from g f x \<Longrightarrow> safe_from h f x"
  by (simp add: safe_from_def split: outcome.splits)

lemma safe_upd: "safe_from (upd r c g) = safe_from g"
  by (intro ext iffI; erule safe_cong [rotated 2]; simp)

lemma safe_nil_dereference [simp]: "safe_from g f nil_dereference"
  by (simp add: safe_from_def nil_dereference_def)

lemma safe_bind:
  assumes "safe_from g f x"
    and "\<And>y. x = Ret y \<Longrightarrow> good (f y) \<Longrightarrow> next_ref (f y) = next_ref g \<Longrightarrow> gw_id (f y) = gw_id g \<Longrightarrow>
      safe_from (f y) h (k y)"
  shows "safe_from g h (bind_outcome x k)"
proof (cases x)
  case (Ret y)
  with assms have "safe_from (f y) h (k y)" "next_ref (f y) = next_ref g" "gw_id (f y) = gw_id g"
    by simp_all
  then show ?thesis using Ret by (cases "k y") (simp_all add: safe_from_def)
next
  case (Panic m)
  then show ?thesis using assms(1) by (simp add: safe_from_def)
qed

lemma good_upd:
  assumes "good g" "info_ID (info (f (heap g r))) = info_ID (info (heap g r))"
    and "messages (f (heap g r)) = messages (heap g r)" "state (f (heap g r)) = state (heap g r)"
    and "mgr (f (heap g r)) = mgr (heap g r)" "cli_wf (heap g r) \<Longrightarrow> cli_wf (f (heap g r))"
  shows "good (upd r f g)"
  using assms gw_invD(5) by (auto simp: good_def intro!: gw_inv_upd wf_clients_upd)

lemma safe_EnqueueMessage: "good g \<Longrightarrow> safe_from g snd (Impl_EnqueueMessage i m g)"
  using Impl_EnqueueMessage_returns [of g i m] Impl_EnqueueMessage_frame [of i m g]
  by (fastforce simp: good_def wf_clients_def)

lemma safe_SetClientID:
  assumes "good g" "new \<noteq> ''''" shows "safe_from g snd (Impl_SetClientID old new g)"
proof -
  have "\<exists>e g'. Impl_SetClientID old new g = Ret (e, g') \<and> next_ref g' = next_ref g \<and> gw_id g' = gw_id g"
    using assms by (simp add: good_def SetClientID_cases Let_def split: option.split)
  then obtain e g' where r: "Impl_SetClientID old new g = Ret (e, g')" "next_ref g' = next_ref g"
      "gw_id g' = gw_id g" by blast
  then show ?thesis using SetClientID_inv [OF _ _ assms(2) r(1)] SetClientID_wf [OF _ _ _ assms(2) r(1)] assms(1)
    by (simp add: good_def)
qed

lemma safe_Exit:
  "good g \<Longrightarrow> r < next_ref g \<Longrightarrow> safe_from g (\<lambda>x. x) (Exit r g)"
  using Exit_inv [of g r] Exit_wf [of g r] by (auto simp: good_def)

lemma safe_ExitClient:
  assumes "good g" shows "safe_from g snd (Impl_ExitClient i g)"
proof (cases "clients g (normID (gw_id g) i)")
  case None
  then show ?thesis using assms by (simp add: good_def ExitClient_missing)
next
  case (Some r)
  then show ?thesis
    using assms ExitClient_inv [of g i] ExitClient_eq [of g i r] gw_invD(5) [of g r] ExitClient_wf [of g i]
    by (auto simp: good_def exited_def)
qed

lemma safe_UpdateClient:
  assumes "good g" shows "safe_from g snd (Impl_UpdateClient i sec g)"
proof (cases "Impl_UpdateClient i sec g")
  case (Ret x)
  then have "next_ref (snd x) = next_ref g \<and> gw_id (snd x) = gw_id g" using assms
    by (auto simp: good_def Impl_UpdateClient_def nil_dereference_def GetCredentials_def
        split: option.splits)
  moreover have "wf_clients (snd x)"
    using Ret assms by (auto simp: good_def Impl_UpdateClient_def nil_dereference_def GetCredentials_def wf_clients_def
        split: option.splits)
  ultimately show ?thesis
    using UpdateClient_inv [of g i sec "fst x" "snd x"] Ret assms by (simp add: good_def)
next
  case (Panic m)
  then show ?thesis using assms
    by (auto simp: good_def Impl_UpdateClient_def nil_dereference_def safe_from_def
        split: option.splits)
qed

lemma safe_auth_enqueue: "good g \<Longrightarrow> safe_from g (\<lambda>x. x) (auth_gateway_enqueue i m g)"
  unfolding auth_gateway_enqueue_def
  by (auto intro!: safe_bind [OF safe_EnqueueMessage])

lemma safe_forbid: "good g \<Longrightarrow> safe_from g snd (forbid r m why g)"
  unfolding forbid_def by (rule safe_bind [OF safe_auth_enqueue]) auto

lemma safe_MessageInterceptor: "good g \<Longrightarrow> safe_from g snd (MessageInterceptor env r m g)"
  by (auto simp: MessageInterceptor_def Let_def safe_forbid split: option.split)

lemma NewID2_nonempty: "NewID2 u \<noteq> ''''"
  by (simp add: NewID2_def idSeparator_def)

lemma GenTempID_nonempty: "snd rd = nil \<Longrightarrow> fst (GenTempID rd g) \<noteq> ''''"
  by (cases rd) (auto simp: GenTempID_def newUUID_def NewID_def Let_def)

lemma safe_updateClient:
  assumes "good g" "snd (ae_random env) = nil"
  shows "safe_from g (snd \<circ> snd) (updateClient env r cr g)"
proof -
  have g1: "good (upd r (SetCredentials cr) g)" by (rule good_upd [OF assms(1)]) simp_all
  note [intro!] = safe_bind [OF safe_SetClientID] safe_bind [OF safe_EnqueueMessage]
    NewID2_nonempty GenTempID_nonempty [OF assms(2)]
  have "safe_from (upd r (SetCredentials cr) g) (snd \<circ> snd) (updateClient env r cr g)"
    unfolding updateClient_def Let_def using g1 by auto
  then show ?thesis by (simp only: safe_upd)
qed

lemma safe_auth_done: "good g \<Longrightarrow> safe_from g snd (auth_done r m i e msg g)"
  unfolding auth_done_def by (auto intro!: safe_bind [OF safe_auth_enqueue])

definition env_ok :: "auth_env \<Rightarrow> bool" where
  "env_ok env = (snd (ae_random env) = nil \<and> (\<forall>b m. ae_decrypt env b = Panic m \<longrightarrow> m \<noteq> ''deadlock''))"

lemma safe_decrypt:
  "good g \<Longrightarrow> env_ok env \<Longrightarrow> safe_from g (\<lambda>_. g) (ae_decrypt env b)"
  by (cases "ae_decrypt env b") (auto simp: env_ok_def safe_from_def)

lemma safe_ClientAuth:
  assumes "good g" "env_ok env"
  shows "safe_from g snd (ClientAuthMessageInterceptor env r m g)"
proof -
  have r: "snd (ae_random env) = nil" using assms(2) by (simp add: env_ok_def)
  show ?thesis
    unfolding ClientAuthMessageInterceptor_def
    using assms safe_auth_done safe_decrypt [OF assms]
    by (auto split: sum.split intro!: safe_bind [OF safe_decrypt [OF assms]]
        safe_bind [OF safe_updateClient [OF _ r]])
qed

lemma safe_intercept:
  "good g \<Longrightarrow> env_ok env \<Longrightarrow> safe_from g snd (interceptClientMessage env r m g)"
  by (simp add: interceptClientMessage_def safe_ClientAuth safe_MessageInterceptor)

lemma safe_run_handler:
  "good g \<Longrightarrow> env_ok env \<Longrightarrow> safe_from g (\<lambda>x. x) (run_handler env h r m g)"
proof (induction h arbitrary: g)
  case BaseHandler
  then show ?case by simp
next
  case (Intercepted h)
  then show ?case
    by (auto intro!: safe_bind [OF safe_intercept])
qed

lemma EnqueueMessage_keeps:
  "EnqueueMessage m c = Ret (e, c') \<Longrightarrow> info c' = info c \<and> state c' = state c \<and> mgr c' = mgr c \<and>
     closed (messages c') = closed (messages c) \<and> config c' = config c \<and> hbLost c' = hbLost c"
  by (auto simp: EnqueueMessage_def enqueue_send_def try_send_def bind_outcome_eq_Ret
      split: if_splits option.splits)

lemma EnqueueMessage_returns:
  "gw_inv g \<Longrightarrow> \<exists>e c. EnqueueMessage m (heap g r) = Ret (e, c)"
  using gw_invD(5) [of g r]
  by (auto simp: EnqueueMessage_def enqueue_send_def try_send_def)

lemma safe_self_enqueue: "good g \<Longrightarrow> safe_from g (\<lambda>x. x) (self_enqueue r m g)"
proof -
  assume g: "good g"
  then obtain e c where c: "EnqueueMessage m (heap g r) = Ret (e, c)"
    using EnqueueMessage_returns [of g m r] by (auto simp: good_def)
  have "gw_inv (upd r (\<lambda>_. c) g)"
    using g EnqueueMessage_keeps [OF c] gw_invD(5) [of g r]
    by (intro gw_inv_upd) (auto simp: good_def)
  moreover have "wf_clients (upd r (\<lambda>_. c) g)"
    using g cli_wf_EnqueueMessage [OF c] by (intro wf_clients_upd) (auto simp: good_def)
  ultimately show ?thesis using g c by (simp add: self_enqueue_def good_def)
qed

lemma good_rearm: "good g \<Longrightarrow> good (rearm_hbC r g)" "good g \<Longrightarrow> good (rearm_hbS r g)"
  unfolding rearm_hbC_def rearm_hbS_def by (rule good_upd; simp)+

lemma rearm_simps [simp]:
  "next_ref (rearm_hbC r g) = next_ref g" "gw_id (rearm_hbC r g) = gw_id g"
  "next_ref (rearm_hbS r g) = next_ref g" "gw_id (rearm_hbS r g) = gw_id g"
  "clients (rearm_hbC r g) = clients g"
  by (simp_all add: rearm_hbC_def rearm_hbS_def)

lemma good_upd' : "good g \<Longrightarrow> info (f (heap g r)) = info (heap g r) \<Longrightarrow>
    messages (f (heap g r)) = messages (heap g r) \<Longrightarrow> state (f (heap g r)) = state (heap g r) \<Longrightarrow>
    mgr (f (heap g r)) = mgr (heap g r) \<Longrightarrow> (cli_wf (heap g r) \<Longrightarrow> cli_wf (f (heap g r))) \<Longrightarrow> good (upd r f g)"
  by (rule good_upd) simp_all

lemma safe_enqueue_end:
  assumes "good g" "next_ref g = next_ref h" "gw_id g = gw_id h"
  shows "safe_from h snd (bind_outcome (self_enqueue r m g) (\<lambda>g3. Ret (False, g3)))"
  using safe_self_enqueue [OF assms(1), of r m] assms(2,3)
  by (cases "self_enqueue r m g") (auto simp: safe_from_def)

lemma safe_runRead_heartbeat:
  assumes "good g" "r < next_ref g" shows "safe_from g snd (runRead_heartbeat r g)"
proof -
  let ?g = "upd r (\<lambda>c. c\<lparr>hbLost := hbLost c + 1\<rparr>) g"
  have g1: "good ?g" by (rule good_upd' [OF assms(1)]) simp_all
  have "safe_from ?g (\<lambda>x. x) (if c then Exit r ?g else Ret ?g)" for c
    using safe_Exit [OF g1] g1 assms(2) by simp
  then have "safe_from ?g snd (bind_outcome (if c then Exit r ?g else Ret ?g)
      (\<lambda>g2. bind_outcome (self_enqueue r m (rearm_hbC r g2)) (\<lambda>g3. Ret (False, g3))))" for c m
    by (rule safe_bind) (auto intro!: safe_enqueue_end good_rearm)
  then have run: "safe_from g snd (bind_outcome (if c then Exit r ?g else Ret ?g)
      (\<lambda>g2. bind_outcome (self_enqueue r m (rearm_hbC r g2)) (\<lambda>g3. Ret (False, g3))))" for c m
    unfolding safe_upd .
  have "good (upd r (\<lambda>c. c\<lparr>hbC := None\<rparr>) g)" by (rule good_upd' [OF assms(1)]) simp_all
  then show ?thesis using run unfolding runRead_heartbeat_def Let_def by simp
qed

lemma safe_handleHello:
  assumes "good g"
  shows "safe_from g (\<lambda>x. x) (bind_outcome (handleHello js m (heap g r)) (\<lambda>c. Ret (upd r (\<lambda>_. c) g)))"
proof (cases "Deserialize_Hello js (Data m)")
  case (Inl e)
  then show ?thesis
    using safe_self_enqueue [OF assms, of r
        "NewMessage 0 ActionNotifyError (IString ''invalid handleHello message'')"]
    by (simp add: handleHello_def self_enqueue_def bind_outcome_assoc case_prod_unfold)
next
  case (Inr h)
  have "good (upd r (\<lambda>_. (heap g r)\<lparr>info := (info (heap g r))\<lparr>Version := ClientVersion h\<rparr>\<rparr>) g)"
    by (rule good_upd [OF assms]) simp_all
  then show ?thesis using Inr by (simp add: handleHello_def)
qed

lemma safe_runRead_message:
  assumes "good g" "r < next_ref g" "env_ok env"
  shows "safe_from g snd (runRead_message env r res g)"
proof -
  let ?g = "rearm_hbC r (upd r (\<lambda>c. c\<lparr>hbLost := 0\<rparr>) g)"
  have g1: "good ?g" by (intro good_rearm good_upd' [OF assms(1)]) simp_all
  have h: "safe_from g (\<lambda>x. x) (run_handler env h r m ?g)" for h m
    by (rule safe_cong [OF _ _ safe_run_handler [OF g1 assms(3)]]) simp_all
  have hello: "safe_from g (\<lambda>x. x)
      (bind_outcome (handleHello (ae_json env) m (heap ?g r)) (\<lambda>c. Ret (upd r (\<lambda>_. c) ?g)))" for m
    by (rule safe_cong [OF _ _ safe_handleHello [OF g1]]) simp_all
  show ?thesis
    unfolding runRead_message_def Let_def
    using safe_Exit [OF assms(1,2)] safe_self_enqueue [OF assms(1)] h hello
    by (auto split: option.split intro!: safe_bind [where f = "\<lambda>x. x"])
qed

lemma safe_runRead_recover:
  assumes "good g" "r < next_ref g" "env_ok env"
  shows "safe_from g snd (runRead_recover env r res g)"
proof -
  have s: "good (read_state r res g)" "next_ref (read_state r res g) = next_ref g"
    "gw_id (read_state r res g) = gw_id g"
    using assms(1) by (auto simp: read_state_def intro!: good_rearm good_upd' split: option.split)
  have "safe_from g (\<lambda>x. x) (Exit r (read_state r res g))"
    using safe_Exit [OF s(1)] assms(2) s by (intro safe_cong [of "read_state r res g" g]) simp_all
  then have "safe_from g snd (bind_outcome (Exit r (read_state r res g)) (\<lambda>g'. Ret (True, g')))"
    by (intro safe_bind [where f = "\<lambda>x. x"]) simp_all
  then show ?thesis
    using safe_runRead_message [OF assms, of res]
    by (auto simp: runRead_recover_def safe_from_def split: outcome.splits)
qed

lemma safe_runWrite:
  assumes "good g" "r < next_ref g"
  shows "safe_from g snd (runWrite_heartbeat r g)" "safe_from g snd (runWrite_message io r m g)"
proof -
  have n: "good (upd r (\<lambda>c. c\<lparr>hbS := None\<rparr>) g)" by (rule good_upd' [OF assms(1)]) simp_all
  have w: "good (rearm_hbS r (upd r (write2Conn io m) g))"
    by (intro good_rearm good_upd' [OF assms(1)] cli_wf_write2Conn)
       (auto simp: write2Conn_def Let_def split: sum.split option.split)
  show "safe_from g snd (runWrite_heartbeat r g)"
    using n assms(1)
    by (auto simp: runWrite_heartbeat_def intro!: safe_bind [OF safe_self_enqueue] good_rearm)
  show "safe_from g snd (runWrite_message io r m g)"
    using w assms
    by (auto simp: runWrite_message_def split: option.split intro!: safe_bind [OF safe_Exit])
qed

text \<open>\<open>info_ID\<close> and the lock survive the goroutine that empties the queue of a closed client.\<close>
lemma drain_queue_keeps:
  "info (drain_queue io ms c) = info c \<and> state (drain_queue io ms c) = state c \<and>
   mgr (drain_queue io ms c) = mgr c"
proof (induction ms arbitrary: c)
  case (Cons m ms)
  then show ?case
    by (auto simp: write2Conn_def Let_def split: sum.split option.split)
qed simp

definition drain_run :: "client_io \<Rightarrow> gateway \<Rightarrow> gateway" where
  "drain_run io g =
     (case draining g of
        [] \<Rightarrow> g
      | r # rs \<Rightarrow>
          (case exit_drain io (heap g r) of
             Some (Ret c) \<Rightarrow> (upd r (\<lambda>_. c) g)\<lparr>draining := rs\<rparr>
           | _ \<Rightarrow> g\<lparr>draining := rs\<rparr>))"

lemma cli_wf_drain_queue: "cli_wf c \<Longrightarrow> length ms \<le> 100 \<Longrightarrow> cli_wf (drain_queue io ms c)"
proof (induction ms arbitrary: c)
  case (Cons m ms)
  have "cli_wf (c\<lparr>messages := (messages c)\<lparr>buf := ms\<rparr>\<rparr>)" using Cons.prems by (simp add: cli_wf_def cli_base_def chan_wf_def)
  then show ?case using Cons by simp
qed simp

lemma drain_run_wf:
  assumes "wf_clients g" shows "wf_clients (drain_run io g)"
proof -
  have "cli_wf c" if "exit_drain io (heap g r) = Some (Ret c)" "r < next_ref g" for r c
  proof -
    have w: "cli_wf (heap g r)" using assms that(2) by (simp add: wf_clients_def)
    then have "cli_wf (drain_queue io (buf (messages (heap g r))) (heap g r))"
      by (intro cli_wf_drain_queue) (auto simp: cli_wf_def cli_base_def chan_wf_def)
    then show ?thesis using that(1) cli_wf_close
      by (auto simp: exit_drain_def close_client_def close_chan_def bind_outcome_eq_Ret split: if_splits)
  qed
  then show ?thesis using assms
    by (auto simp: drain_run_def wf_clients_def split: list.split option.split outcome.split)
qed

lemma drain_run_inv:
  assumes "good g" shows "good (drain_run io g)"
proof -
  have inv: "gw_inv g" using assms by (simp add: good_def)
  have logs: "gw_inv (h\<lparr>draining := rs\<rparr>)" if "gw_inv h" "draining h = r # rs" for h r rs
    by (rule gw_inv_cong [OF that(1)]) (use that gw_invD(5) [OF that(1)] in auto)
  have "gw_inv (upd r (\<lambda>_. c) g)"
    if d: "draining g = r # rs" and c: "exit_drain io (heap g r) = Some (Ret c)" for r rs c
  proof (rule gw_inv_upd)
    let ?d = "drain_queue io (buf (messages (heap g r))) (heap g r)"
    have "close_client ?d = Ret c" using c by (auto simp: exit_drain_def split: if_splits)
    then have "info c = info ?d" "state c = state ?d"
      by (auto simp: close_client_def bind_outcome_eq_Ret)
    then show "info_ID (info c) = info_ID (info (heap g r))" "state c = stateClosed \<or>
        state c = state (heap g r) \<and> mgr c = mgr (heap g r)" "state c = stateClosed"
      using drain_queue_keeps [of io "buf (messages (heap g r))" "heap g r"] gw_invD(7) [OF inv, of r] d by auto
  qed (rule inv)
  moreover have "wf_clients (drain_run io g)" using assms by (simp add: good_def drain_run_wf)
  ultimately show ?thesis using assms(1) logs
    by (auto simp: drain_run_def good_def split: list.split option.split outcome.split)
qed

text \<open>A new connection whose random identifier is not in use.\<close>
lemma HandleConnection_eq:
  assumes "\<not> mu g" "GenTempID rd (gw_id g) = (i, nil)"
  shows "\<exists>c e. HandleConnection rd now addr g =
      Ret (i, g\<lparr>next_ref := next_ref g + 1, heap := (heap g)(next_ref g := c),
              clients := (clients g)(i := Some (next_ref g)), events := events g @ [e]\<rparr>) \<and>
    info_ID (info c) = i \<and> state c = stateRunning \<and> mgr c \<and> \<not> closed (messages c) \<and>
    credentials c = None \<and> map Action (buf (messages c)) = [ActionHello] \<and>
    Action (snd e) = ActionInternalOnline \<and> hbLost c = 0 \<and> config c = ws_config \<and>
    msgHandler c = Intercepted BaseHandler \<and> cli_base c"
proof -
  obtain u where i: "i = NewID (gw_id g) u ''''"
    using fst_GenTempID [OF assms(2)] by blast
  let ?c = "AddMessageInterceptor (SetID i (NewClientWithConfig now addr True (Some ws_config)))"
  let ?m = "NewMessage 0 ActionHello (Val (SServerHello \<lparr>sh_ServerVersion = '''', sh_TempID = UID i,
              sh_HeartbeatInterval = 30, sh_Protocols = []\<rparr>))"
  show ?thesis using assms
    by (intro exI [of _ "(Run ?c)\<lparr>messages := (make_chan 100)\<lparr>buf := [?m]\<rparr>, queuedMessage := 1\<rparr>"]
        exI [of _ "(Copy (info ?c), NewMessage 0 ActionInternalOnline (IID i))"])
       (simp add: HandleConnection_def Impl_AddClient_def Let_def i self_enqueue_def
        EnqueueMessage_def enqueue_send_def try_send_def NewClientWithConfig_def make_chan_def
        SetID_def Run_def AddMessageInterceptor_def upd_def call_msgHandler_def mu_Unlock_def cli_base_def chan_wf_def)
qed

lemma GenTempID_normID:
  assumes "GenTempID rd g = (i, nil)" shows "normID g i = i" "i \<noteq> ''''"
proof -
  obtain u where i: "i = NewID g u ''''" using fst_GenTempID [OF assms] by blast
  then show "normID g i = i" by simp
  show "i \<noteq> ''''" by (simp add: i NewID_def)
qed

lemma HandleConnection_inv:
  assumes "good g" "GenTempID rd (gw_id g) = (i, nil)" "clients g i = None"
  shows "\<exists>g'. HandleConnection rd now addr g = Ret (i, g') \<and> good g' \<and>
    next_ref g' = Suc (next_ref g) \<and> gw_id g' = gw_id g"
proof -
  note n = GenTempID_normID [OF assms(2)]
  have inv: "gw_inv g" and mu: "\<not> mu g" using assms(1) by (simp_all add: good_def)
  obtain c e where h: "HandleConnection rd now addr g =
      Ret (i, g\<lparr>next_ref := next_ref g + 1, heap := (heap g)(next_ref g := c),
              clients := (clients g)(i := Some (next_ref g)), events := events g @ [e]\<rparr>)"
    and c: "info_ID (info c) = i" "mgr c" "\<not> closed (messages c)" and w: "state c = stateRunning" "cli_base c"
    using HandleConnection_eq [OF mu assms(2)] by blast
  let ?g = "g\<lparr>next_ref := next_ref g + 1, heap := (heap g)(next_ref g := c),
              clients := (clients g)(i := Some (next_ref g)), events := events g @ [e]\<rparr>"
  have "gw_inv ?g"
  proof (rule gw_invI)
    show "clients ?g k = Some r \<Longrightarrow> r < next_ref ?g \<and> info_ID (info (heap ?g r)) \<noteq> '''' \<and>
        k = normID (gw_id ?g) (info_ID (info (heap ?g r)))" for k r
      using gw_invD(1-3) [OF inv, of k r] c n by (auto split: if_splits)
    show "r < next_ref ?g \<Longrightarrow> info_ID (info (heap ?g r)) \<noteq> '''' \<Longrightarrow>
        clients ?g (normID (gw_id ?g) (info_ID (info (heap ?g r)))) = Some r" for r
      using gw_invD(4) [OF inv, of r] c n assms(3) by (auto simp: less_Suc_eq)
    show "closed (messages (heap ?g r)) \<Longrightarrow> state (heap ?g r) = stateClosed" for r
      using gw_invD(5) [OF inv, of r] c by (auto split: if_splits)
    show "r < next_ref ?g \<Longrightarrow> state (heap ?g r) \<noteq> stateClosed \<Longrightarrow> mgr (heap ?g r)" for r
      using gw_invD(6) [OF inv, of r] c by (auto simp: less_Suc_eq)
    show "r \<in> set (draining ?g) \<Longrightarrow> r < next_ref ?g \<and> state (heap ?g r) = stateClosed" for r
      using gw_invD(7) [OF inv, of r] by auto
  qed
  moreover have "wf_clients ?g" using assms(1) c w n by (auto simp: good_def wf_clients_def cli_wf_def less_Suc_eq)
  ultimately show ?thesis using h mu by (simp add: good_def)
qed

section \<open>The gateway as a transition system\<close>

text \<open>
  Every entry point of the gateway: connections, the calls of other services (the remote
  interface), the goroutines of the clients and of the pool. A panic of a client's read loop is
  recovered there; a remote call that panics has released the lock and changed nothing, so it has no
  successor here; whether a call can block is the subject of the theorem. Identifiers set from outside are not
  empty, and the random identifier of a new connection is not in use.
\<close>
datatype gw_event =
    EvConnect "bytes \<times> go_error" int string
  | EvSetClientID ID ID
  | EvExitClient ID
  | EvUpdateClient ID ClientSecrets
  | EvEnqueue ID GlideMessage
  | EvPool
  | EvDrain
  | EvReadClosed nat
  | EvReadHeartbeat nat
  | EvReadMessage nat "readerRes option"
  | EvWriteClosed nat
  | EvWriteHeartbeat nat
  | EvWriteMessage nat "GlideMessage option"

fun gw_run :: "auth_env \<Rightarrow> client_io \<Rightarrow> gw_event \<Rightarrow> gateway \<Rightarrow> gateway outcome" where
  "gw_run env io (EvConnect rd now addr) g = bind_outcome (HandleConnection rd now addr g) (\<lambda>(_, g'). Ret g')"
| "gw_run env io (EvSetClientID i j) g = bind_outcome (Impl_SetClientID i j g) (\<lambda>(_, g'). Ret g')"
| "gw_run env io (EvExitClient i) g = bind_outcome (Impl_ExitClient i g) (\<lambda>(_, g'). Ret g')"
| "gw_run env io (EvUpdateClient i s) g = bind_outcome (Impl_UpdateClient i s g) (\<lambda>(_, g'). Ret g')"
| "gw_run env io (EvEnqueue i m) g = bind_outcome (Impl_EnqueueMessage i m g) (\<lambda>(_, g'). Ret g')"
| "gw_run env io EvPool g = Ret (pool_run g)"
| "gw_run env io EvDrain g = Ret (drain_run io g)"
| "gw_run env io (EvReadClosed r) g = Ret (snd (runRead_closed r g))"
| "gw_run env io (EvReadHeartbeat r) g = bind_outcome (runRead_heartbeat r g) (\<lambda>(_, g'). Ret g')"
| "gw_run env io (EvReadMessage r res) g = bind_outcome (runRead_recover env r res g) (\<lambda>(_, g'). Ret g')"
| "gw_run env io (EvWriteClosed r) g = Ret (snd (runWrite_closed r g))"
| "gw_run env io (EvWriteHeartbeat r) g = bind_outcome (runWrite_heartbeat r g) (\<lambda>(_, g'). Ret g')"
| "gw_run env io (EvWriteMessage r m) g = bind_outcome (runWrite_message io r m g) (\<lambda>(_, g'). Ret g')"

fun gw_allowed :: "gw_event \<Rightarrow> gateway \<Rightarrow> bool" where
  "gw_allowed (EvConnect rd now addr) g =
     (snd (GenTempID rd (gw_id g)) = nil \<longrightarrow> clients g (fst (GenTempID rd (gw_id g))) = None)"
| "gw_allowed (EvSetClientID i j) g = (j \<noteq> '''')"
| "gw_allowed (EvReadClosed r) g = (r < next_ref g)"
| "gw_allowed (EvReadHeartbeat r) g = (r < next_ref g)"
| "gw_allowed (EvReadMessage r res) g = (r < next_ref g)"
| "gw_allowed (EvWriteClosed r) g = (r < next_ref g)"
| "gw_allowed (EvWriteHeartbeat r) g = (r < next_ref g)"
| "gw_allowed (EvWriteMessage r m) g = (r < next_ref g)"
| "gw_allowed _ g = True"

inductive gw_reach :: "auth_env \<Rightarrow> client_io \<Rightarrow> gateway \<Rightarrow> gateway \<Rightarrow> bool" for env io g0 where
  gw_start: "gw_reach env io g0 g0"
| gw_step: "gw_reach env io g0 g \<Longrightarrow> gw_allowed ev g \<Longrightarrow> gw_run env io ev g = Ret g' \<Longrightarrow>
    gw_reach env io g0 g'"

text \<open>The outcome of an event in a good state.\<close>
definition good_outcome :: "gateway outcome \<Rightarrow> bool" where
  "good_outcome x = (case x of Ret g \<Rightarrow> good g | Panic m \<Rightarrow> m \<noteq> ''deadlock'')"

lemma safe_good_outcome:
  "safe_from g snd x \<Longrightarrow> good_outcome (bind_outcome x (\<lambda>(_, g'). Ret g'))"
  by (cases x) (auto simp: safe_from_def good_outcome_def)

lemma good_runRead_closed: "good g \<Longrightarrow> good (snd (runRead_closed r g))"
  by (auto simp: runRead_closed_def intro!: good_upd')

lemma good_runWrite_closed: "good g \<Longrightarrow> good (snd (runWrite_closed r g))"
  by (auto simp: runWrite_closed_def intro!: good_upd')

lemma pool_run_good: "good g \<Longrightarrow> good (pool_run g)"
  using pool_run_inv [of g] cli_wf_EnqueueMessage
  by (auto simp: good_def pool_run_def wf_clients_def split: list.split prod.split outcome.split)

lemma gw_run_good:
  assumes "good g" "gw_allowed ev g" "env_ok env"
  shows "good_outcome (gw_run env io ev g)"
proof (cases ev)
  case (EvConnect rd now addr)
  show ?thesis
  proof (cases "snd (GenTempID rd (gw_id g))")
    case None
    then obtain i where i: "GenTempID rd (gw_id g) = (i, nil)" by (metis prod.collapse)
    with assms EvConnect have "clients g i = None" by simp
    from HandleConnection_inv [OF assms(1) i this, of now addr] show ?thesis
      using EvConnect by (auto simp: good_outcome_def)
  next
    case (Some e)
    then show ?thesis using EvConnect assms(1)
      by (cases "GenTempID rd (gw_id g)") (simp add: HandleConnection_def good_outcome_def)
  qed
next
  case EvPool
  then show ?thesis using assms pool_run_good by (simp add: good_outcome_def)
next
  case EvDrain
  then show ?thesis using assms drain_run_inv by (simp add: good_outcome_def)
next
  case (EvReadClosed r)
  then show ?thesis using assms good_runRead_closed by (simp add: good_outcome_def)
next
  case (EvWriteClosed r)
  then show ?thesis using assms good_runWrite_closed by (simp add: good_outcome_def)
qed (use assms in \<open>auto intro!: safe_good_outcome safe_SetClientID safe_ExitClient safe_UpdateClient
       safe_EnqueueMessage safe_runRead_heartbeat safe_runRead_recover safe_runWrite\<close>)

lemma gw_reach_good:
  "gw_reach env io g0 g \<Longrightarrow> env_ok env \<Longrightarrow> good g0 \<Longrightarrow> good g"
proof (induction rule: gw_reach.induct)
  case (gw_step g ev g')
  then show ?case using gw_run_good [of g ev env io] by (simp add: good_outcome_def)
qed simp

lemma good_NewServer: "good (NewServer ident key n)"
  using NewServer_inv by (simp add: good_def NewServer_def wf_clients_def)



definition demo_env :: auth_env where
  "demo_env = \<lparr>ae_json = (\<lambda>t b. Inl ''''), ae_decrypt = (\<lambda>b. Ret (Inl '''')), ae_now = 0,
     ae_random = (replicate 16 0, nil), ae_sha1 = (\<lambda>b. replicate 20 0)\<rparr>"

lemma demo_env_ok: "env_ok demo_env"
  by (simp add: env_ok_def demo_env_def)

definition demo_gateway :: gateway where
  "demo_gateway =
     (case HandleConnection (replicate 16 0, nil) 0 ''addr'' (NewServer ''gw'' ''key'' 10) of
        Ret (_, g) \<Rightarrow> g | Panic _ \<Rightarrow> NewServer ''gw'' ''key'' 10)"

lemma demo_reach: "gw_reach demo_env io (NewServer ''gw'' ''key'' 10) demo_gateway"
proof -
  let ?g = "NewServer ''gw'' ''key'' 10"
  obtain i where "GenTempID (replicate 16 0, nil) (gw_id ?g) = (i, nil)"
    by (simp add: GenTempID_def newUUID_def Let_def)
  with HandleConnection_inv [OF good_NewServer this, of 0 "''addr''"]
  obtain g' where h: "HandleConnection (replicate 16 0, nil) 0 ''addr'' ?g = Ret (i, g')"
    by (auto simp: NewServer_def)
  then have "gw_run demo_env io (EvConnect (replicate 16 0, nil) 0 ''addr'') ?g = Ret demo_gateway"
    by (simp add: demo_gateway_def)
  moreover have "gw_allowed (EvConnect (replicate 16 0, nil) 0 ''addr'') ?g"
    by (simp add: NewServer_def)
  ultimately show ?thesis by (rule gw_step [OF gw_start, rotated])
qed




text \<open>
  C17: \<open>Exit\<close> of a client of the gateway terminates normally; afterwards the client is closed and
  no longer registered, every other registration is as before, and exactly one offline
  notification with its last identifier was handed to the message handler.
\<close>
theorem Exit_unregisters:
  assumes "good g" "r < next_ref g" "state (heap g r) \<noteq> stateClosed"
    and "info_ID (info (heap g r)) \<noteq> ''''"
  shows "\<exists>g'. Exit r g = Ret g' \<and> good g' \<and> state (heap g' r) = stateClosed \<and>
    clients g' = (clients g)(normID (gw_id g) (info_ID (info (heap g r))) := None) \<and>
    (\<exists>i. events g' = events g @ [(Copy i, NewMessage 0 ActionInternalOffline
        (IID (normID (gw_id g) (info_ID (info (heap g r))))))] \<and>
        info_ID i = info_ID (info (heap g r)))"
proof -
  have inv: "gw_inv g" "\<not> mu g" using assms(1) by (simp_all add: good_def)
  show ?thesis
    using Exit_managed [OF inv assms(3,2) gw_invD(6) [OF inv(1) assms(2,3)] assms(4)]
      safe_Exit [OF assms(1,2)]
    by auto
qed

lemma demo_gateway_simps:
  "good demo_gateway" "next_ref demo_gateway = 1" "gw_id demo_gateway = ''gw''"
  "state (heap demo_gateway 0) = stateRunning" "info_ID (info (heap demo_gateway 0)) \<noteq> ''''"
  "credentials (heap demo_gateway 0) = None" "pool_cap demo_gateway = 10" "pool demo_gateway = []"
  "authenticator demo_gateway" "hbLost (heap demo_gateway 0) = 0"
  "clients demo_gateway (info_ID (info (heap demo_gateway 0))) = Some 0"
  "HeartbeatLostLimit (config (heap demo_gateway 0)) = 3"
proof -
  let ?g = "NewServer ''gw'' ''key'' 10"
  have s: "\<not> mu ?g" "gw_id ?g = ''gw''" "next_ref ?g = 0" "pool_cap ?g = 10" "pool ?g = []"
    "authenticator ?g"
    by (simp_all add: NewServer_def)
  obtain i where t: "GenTempID (replicate 16 0, nil) (gw_id ?g) = (i, nil)"
    by (simp add: GenTempID_def newUUID_def Let_def)
  obtain c e where h: "HandleConnection (replicate 16 0, nil) 0 ''addr'' ?g =
      Ret (i, ?g\<lparr>next_ref := next_ref ?g + 1, heap := (heap ?g)(next_ref ?g := c),
              clients := (clients ?g)(i := Some (next_ref ?g)), events := events ?g @ [e]\<rparr>)"
    and c: "info_ID (info c) = i" "state c = stateRunning" "credentials c = None" "hbLost c = 0"
      "config c = ws_config"
    using HandleConnection_eq [OF s(1) t, of 0 "''addr''"] by blast
  have d: "demo_gateway = ?g\<lparr>next_ref := 1, heap := (heap ?g)(0 := c),
              clients := (clients ?g)(i := Some 0), events := events ?g @ [e]\<rparr>"
    using s by (simp add: demo_gateway_def h)
  show "good demo_gateway" using gw_reach_good [OF demo_reach demo_env_ok good_NewServer] .
  show "next_ref demo_gateway = 1" "gw_id demo_gateway = ''gw''"
    "state (heap demo_gateway 0) = stateRunning" "info_ID (info (heap demo_gateway 0)) \<noteq> ''''"
    "credentials (heap demo_gateway 0) = None" "pool_cap demo_gateway = 10"
    "pool demo_gateway = []" "authenticator demo_gateway" "hbLost (heap demo_gateway 0) = 0"
    "clients demo_gateway (info_ID (info (heap demo_gateway 0))) = Some 0"
    "HeartbeatLostLimit (config (heap demo_gateway 0)) = 3"
    using s c GenTempID_normID(2) [OF t] by (simp_all add: d ws_config_def)
qed

theorem Exit_unregisters_witness:
  "\<exists>g'. Exit 0 demo_gateway = Ret g' \<and> good g' \<and> state (heap g' 0) = stateClosed \<and>
    clients g' = (clients demo_gateway)
      (normID (gw_id demo_gateway) (info_ID (info (heap demo_gateway 0))) := None) \<and>
    (\<exists>i. events g' = events demo_gateway @ [(Copy i, NewMessage 0 ActionInternalOffline
        (IID (normID (gw_id demo_gateway) (info_ID (info (heap demo_gateway 0))))))] \<and>
        info_ID i = info_ID (info (heap demo_gateway 0)))"
  by (rule Exit_unregisters) (simp_all add: demo_gateway_simps)


section \<open>Authentication\<close>


text \<open>
  C19: what the ticket check lets through. For a client that has authenticated, a chat or group
  message passes exactly when its credentials carry a non-empty delivery secret and its ticket has
  40 characters and is, up to case, the ticket for this sender and this receiver. Any other action
  passes. Otherwise the message is stopped and the sender is told.
\<close>
theorem MessageInterceptor_passes_iff:
  assumes "good g" "authenticator g" "credentials (heap g r) = Some cr"
  shows "\<exists>stop g'. MessageInterceptor env r m g = Ret (stop, g') \<and>
    (\<not> stop \<longleftrightarrow>
      Action m \<in> {ActionGroupMessage, ActionChatMessage, ActionChatMessageResend} \<longrightarrow>
      (\<exists>sec. Secrets cr = Some sec \<and> MessageDeliverSecret sec \<noteq> '''' \<and> length (Ticket m) = 40 \<and>
        to_upper (Ticket m) = to_upper (expectTicket (ae_sha1 env) (MessageDeliverSecret sec)
          (UID (info_ID (info (heap g r)))) (To m)))) \<and>
    (\<not> stop \<longrightarrow> g' = g)"
proof -
  have "\<exists>g'. forbid r m why g = Ret (True, g')" for why
    using Impl_EnqueueMessage_returns [of g "info_ID (GetInfo (heap g r))"
        "NewMessage (GetSeq m) ActionNotifyForbidden (IString why)"] assms
    by (auto simp: forbid_def auth_gateway_enqueue_def good_def)
  then obtain F where F: "\<And>why. forbid r m why g = Ret (True, F why)" by metis
  show ?thesis using assms(3)
    by (auto simp: MessageInterceptor_def GetCredentials_def Let_def F split: option.split)
qed

definition demo_creds :: ClientAuthCredentials where
  "demo_creds = \<lparr>ca_Type = 1, UserID = ''u1'', DeviceID = ''d'', DeviceName = ''n'',
     Secrets = Some \<lparr>MessageDeliverSecret = ''s'', OnlineStateSecret = ''''\<rparr>,
     ca_RiskControl = None, ca_ConnectionConfig = None, ConnectionID = ''c'', Timestamp = 0\<rparr>"

definition demo_auth :: gateway where
  "demo_auth = upd 0 (SetCredentials demo_creds) demo_gateway"

lemma demo_auth_simps:
  "good demo_auth" "authenticator demo_auth" "credentials (heap demo_auth 0) = Some demo_creds"
  using demo_gateway_simps by (auto simp: demo_auth_def intro!: good_upd)

theorem MessageInterceptor_passes_iff_witness:
  "\<exists>stop g'. MessageInterceptor demo_env 0 (NewMessage 1 ActionChatMessage INil) demo_auth = Ret (stop, g') \<and>
    (\<not> stop \<longleftrightarrow>
      ActionChatMessage \<in> {ActionGroupMessage, ActionChatMessage, ActionChatMessageResend} \<longrightarrow>
      (\<exists>sec. Secrets demo_creds = Some sec \<and> MessageDeliverSecret sec \<noteq> '''' \<and> length '''' = 40 \<and>
        to_upper '''' = to_upper (expectTicket (ae_sha1 demo_env) (MessageDeliverSecret sec)
          (UID (info_ID (info (heap demo_auth 0)))) ''''))) \<and>
    (\<not> stop \<longrightarrow> g' = demo_auth)"
  using MessageInterceptor_passes_iff [OF demo_auth_simps, of demo_env "NewMessage 1 ActionChatMessage INil"]
  by simp

text \<open>
  A client that never authenticated is not checked: whatever its action and ticket, its
  message reaches the message handler. The branch that answers \<^verbatim>\<open>no credentials\<close> is never taken
  for it, because the interceptor returns before it.
\<close>
theorem unauthenticated_not_checked:
  assumes "credentials (heap g r) = None" "Action m \<noteq> ActionAuthenticate"
  shows "run_handler env (Intercepted BaseHandler) r m g = Ret (call_msgHandler (Live r) m g)"
  using assms by (simp add: interceptClientMessage_def MessageInterceptor_def GetCredentials_def)

theorem unauthenticated_not_checked_witness:
  "run_handler demo_env (Intercepted BaseHandler) 0 (NewMessage 1 ActionChatMessage INil) demo_gateway
     = Ret (call_msgHandler (Live 0) (NewMessage 1 ActionChatMessage INil) demo_gateway)"
  by (rule unauthenticated_not_checked) (simp_all add: demo_gateway_simps action_defs)

text \<open>
  \<open>UpdateClient\<close> on a client that is connected but has not authenticated dereferences its
  nil credentials.
\<close>
theorem UpdateClient_unauthenticated_panics:
  assumes "\<not> mu g" "clients g (normID (gw_id g) i) = Some r" "credentials (heap g r) = None"
  shows "Impl_UpdateClient i sec g = nil_dereference"
  using assms by (simp add: Impl_UpdateClient_def GetCredentials_def)

theorem UpdateClient_unauthenticated_panics_witness:
  "Impl_UpdateClient (info_ID (info (heap demo_gateway 0)))
     \<lparr>MessageDeliverSecret = ''s'', OnlineStateSecret = ''''\<rparr> demo_gateway = nil_dereference"
proof (rule UpdateClient_unauthenticated_panics)
  show "clients demo_gateway (normID (gw_id demo_gateway) (info_ID (info (heap demo_gateway 0)))) = Some 0"
    by (rule gw_invD(4)) (use demo_gateway_simps in \<open>auto simp: good_def\<close>)
qed (use demo_gateway_simps in \<open>auto simp: good_def\<close>)

subsection \<open>Taking over an identifier\<close>

abbreviation keyOf :: "gateway \<Rightarrow> ID \<Rightarrow> ID" where
  "keyOf g i \<equiv> normID (gw_id g) i"

text \<open>A successful rename, and what it leaves alone.\<close>
lemma SetClientID_rename:
  assumes "\<not> mu g" "clients g (keyOf g old) = Some r" "clients g (keyOf g new) = None"
  shows "\<exists>g'. Impl_SetClientID old new g = Ret (nil, g') \<and> \<not> mu g' \<and> gw_id g' = gw_id g \<and>
    clients g' = (clients g)(keyOf g old := None, keyOf g new := Some r) \<and>
    heap g' = (heap g)(r := SetID (keyOf g new) (heap g r)) \<and>
    pool g' = pool g \<and> pool_cap g' = pool_cap g \<and> authenticator g' = authenticator g \<and>
    map (\<lambda>e. (Action (snd e), Data (snd e))) (events g') =
      map (\<lambda>e. (Action (snd e), Data (snd e))) (events g) @
        [(ActionInternalOffline, Some (IID (keyOf g old))), (ActionInternalOnline, Some (IID (keyOf g new)))]"
  using assms by (simp add: SetClientID_cases Let_def)

definition kick_message :: "ClientAuthCredentials \<Rightarrow> GlideMessage" where
  "kick_message cr = NewMessage 0 ActionNotifyKickOut
     (Ptr (SKickOut \<lparr>ko_DeviceId = DeviceID cr, ko_DeviceName = DeviceName cr\<rparr>))"

lemma enqueue_running:
  assumes "\<not> mu g" "clients g (keyOf g i) = Some r" "IsRunning (heap g r)" "length (pool g) < pool_cap g"
  shows "Impl_EnqueueMessage i m g = Ret (nil, g\<lparr>pool := pool g @ [(r, m)]\<rparr>)"
  using assms by (simp add: Impl_EnqueueMessage_def Impl_enqueueMessage_def)

lemma updateClient_takeover:
  assumes g: "good g" and r: "clients g (keyOf g (info_ID (info (heap g r)))) = Some r"
    and r0: "clients g (keyOf g (NewID2 (UserID cr))) = Some r0" "IsRunning (heap g r0)"
    and neq: "\<not> Equals (NewID2 (UserID cr)) (info_ID (info (heap g r)))" "r0 \<noteq> r"
    and t: "clients g (keyOf g (fst (GenTempID (ae_random env) ''''))) = None"
    and p: "length (pool g) < pool_cap g"
  shows "\<exists>g'. updateClient env r cr g = Ret (NewID2 (UserID cr), nil, g') \<and>
    clients g' (keyOf g (NewID2 (UserID cr))) = Some r \<and>
    heap g' r = SetID (keyOf g (NewID2 (UserID cr))) (SetCredentials cr (heap g r)) \<and>
    clients g' (keyOf g (info_ID (info (heap g r)))) = None \<and>
    clients g' (keyOf g (fst (GenTempID (ae_random env) ''''))) = Some r0 \<and>
    info_ID (info (heap g' r0)) = keyOf g (fst (GenTempID (ae_random env) '''')) \<and>
    pool g' = pool g @ [(r0, kick_message cr)] \<and>
    \<not> mu g' \<and> gw_id g' = gw_id g \<and> pool_cap g' = pool_cap g \<and> authenticator g' = authenticator g"
proof -
  let ?old = "info_ID (info (heap g r))" and ?new = "NewID2 (UserID cr)"
  let ?tmp = "fst (GenTempID (ae_random env) '''')"
  define g1 where "g1 = upd r (SetCredentials cr) g"
  have mu1: "\<not> mu g1" and id1: "gw_id g1 = gw_id g" and c1: "clients g1 = clients g"
    using g by (simp_all add: g1_def good_def)
  have o1: "info_ID (info (heap g1 r)) = ?old" by (simp add: g1_def)
  have no: "keyOf g ?old \<noteq> keyOf g ?new" using r r0 neq by auto
  have nt: "keyOf g ?new \<noteq> keyOf g ?tmp" "keyOf g ?old \<noteq> keyOf g ?tmp" using r r0 t by auto
  have s1: "Impl_SetClientID ?old ?new g1 = Ret (Some errClientAlreadyExist, g1)"
    using mu1 id1 c1 r r0 by (simp add: SetClientID_cases Let_def)
  obtain g2 where s2: "Impl_SetClientID ?new ?tmp g1 = Ret (nil, g2)" and mu2: "\<not> mu g2"
    and id2: "gw_id g2 = gw_id g"
    and c2: "clients g2 = (clients g)(keyOf g ?new := None, keyOf g ?tmp := Some r0)"
    and h2: "heap g2 = (heap g1)(r0 := SetID (keyOf g ?tmp) (heap g1 r0))"
    and p2: "pool g2 = pool g" "pool_cap g2 = pool_cap g" "authenticator g2 = authenticator g1"
    using SetClientID_rename [OF mu1, of ?new r0 ?tmp] id1 c1 r0 t by (auto simp: g1_def)
  have s3: "Impl_EnqueueMessage ?tmp (kick_message cr) g2 =
      Ret (nil, g2\<lparr>pool := pool g @ [(r0, kick_message cr)]\<rparr>)"
    using enqueue_running [OF mu2, of ?tmp r0 "kick_message cr"] c2 id2 h2 r0(2) neq(2) p p2
    by (simp add: IsRunning_def g1_def)
  let ?g3 = "g2\<lparr>pool := pool g @ [(r0, kick_message cr)]\<rparr>"
  obtain g4 where s4: "Impl_SetClientID ?old ?new ?g3 = Ret (nil, g4)"
    and c4: "clients g4 = (clients g2)(keyOf g ?old := None, keyOf g ?new := Some r)"
    and h4: "heap g4 = (heap g2)(r := SetID (keyOf g ?new) (heap g2 r))"
    and p4: "pool g4 = pool g @ [(r0, kick_message cr)]" "\<not> mu g4" "gw_id g4 = gw_id g" "pool_cap g4 = pool_cap g2"
      "authenticator g4 = authenticator g2"
    using SetClientID_rename [of ?g3 ?old r ?new] mu2 id2 c2 no nt r r0 t by auto
  have "updateClient env r cr g = Ret (?new, nil, g4)"
    unfolding updateClient_def Let_def g1_def [symmetric] kick_message_def [symmetric]
    using s1 s2 s3 s4 o1 neq(1) by (simp add: IsIDAlreadyExist_def)
  then show ?thesis using c4 h4 h2 p4 p2 c2 no nt neq(2) by (auto simp: g1_def)
qed

text \<open>Authenticating as a user that is not connected.\<close>
lemma updateClient_free:
  assumes g: "\<not> mu g" and r: "clients g (keyOf g (info_ID (info (heap g r)))) = Some r"
    and n: "clients g (keyOf g (NewID2 (UserID cr))) = None"
  shows "\<exists>g'. updateClient env r cr g = Ret (NewID2 (UserID cr), nil, g') \<and>
    clients g' (keyOf g (NewID2 (UserID cr))) = Some r \<and>
    heap g' r = SetID (keyOf g (NewID2 (UserID cr))) (SetCredentials cr (heap g r)) \<and>
    clients g' (keyOf g (info_ID (info (heap g r)))) = None \<and> pool g' = pool g \<and>
    \<not> mu g' \<and> gw_id g' = gw_id g \<and> pool_cap g' = pool_cap g \<and> authenticator g' = authenticator g"
proof -
  let ?g1 = "upd r (SetCredentials cr) g"
  have no: "keyOf g (info_ID (info (heap g r))) \<noteq> keyOf g (NewID2 (UserID cr))" using r n by auto
  obtain g' where "Impl_SetClientID (info_ID (info (heap ?g1 r))) (NewID2 (UserID cr)) ?g1 = Ret (nil, g')"
      "\<not> mu g'" "gw_id g' = gw_id g" "pool g' = pool g" "pool_cap g' = pool_cap g" "authenticator g' = authenticator g"
      "clients g' = (clients g)(keyOf g (info_ID (info (heap g r))) := None, keyOf g (NewID2 (UserID cr)) := Some r)"
      "heap g' = (heap ?g1)(r := SetID (keyOf g (NewID2 (UserID cr))) (heap ?g1 r))"
    using SetClientID_rename [of ?g1 "info_ID (info (heap ?g1 r))" r "NewID2 (UserID cr)"] g r n by auto
  then show ?thesis using no by (auto simp: updateClient_def Let_def IsIDAlreadyExist_def)
qed

text \<open>
  C18: authenticating as a user that is already connected takes over the identifier. The client
  that held it is moved to a fresh temporary identifier and is sent the kick-out notification; the
  new client is registered under the user's identifier and no longer under its old one. The call
  reports success.
\<close>
theorem updateClient_kicks_out:
  assumes g: "good g" and r: "clients g (keyOf g (info_ID (info (heap g r)))) = Some r"
    and r0: "clients g (keyOf g (NewID2 (UserID cr))) = Some r0" "IsRunning (heap g r0)"
    and neq: "\<not> Equals (NewID2 (UserID cr)) (info_ID (info (heap g r)))" "r0 \<noteq> r"
    and t: "clients g (keyOf g (fst (GenTempID (ae_random env) ''''))) = None"
    and p: "length (pool g) < pool_cap g"
  shows "\<exists>g'. updateClient env r cr g = Ret (NewID2 (UserID cr), nil, g') \<and>
    clients g' (keyOf g (NewID2 (UserID cr))) = Some r \<and>
    info_ID (info (heap g' r)) = keyOf g (NewID2 (UserID cr)) \<and>
    clients g' (keyOf g (info_ID (info (heap g r)))) = None \<and>
    clients g' (keyOf g (fst (GenTempID (ae_random env) ''''))) = Some r0 \<and>
    info_ID (info (heap g' r0)) = keyOf g (fst (GenTempID (ae_random env) '''')) \<and>
    pool g' = pool g @ [(r0, kick_message cr)]"
  using updateClient_takeover [OF assms] by auto

text \<open>Two connections, the first renamed to the user \<^verbatim>\<open>u1\<close>.\<close>
fun gw_runs :: "auth_env \<Rightarrow> client_io \<Rightarrow> gw_event list \<Rightarrow> gateway \<Rightarrow> gateway" where
  "gw_runs env io [] g = g"
| "gw_runs env io (e # es) g = (case gw_run env io e g of Ret g' \<Rightarrow> gw_runs env io es g' | Panic _ \<Rightarrow> g)"

fun gw_alloweds :: "auth_env \<Rightarrow> client_io \<Rightarrow> gw_event list \<Rightarrow> gateway \<Rightarrow> bool" where
  "gw_alloweds env io [] g = True"
| "gw_alloweds env io (e # es) g =
     (gw_allowed e g \<and> (case gw_run env io e g of Ret g' \<Rightarrow> gw_alloweds env io es g' | Panic _ \<Rightarrow> True))"

lemma gw_runs_reach:
  "gw_reach env io g0 g \<Longrightarrow> gw_alloweds env io es g \<Longrightarrow> gw_reach env io g0 (gw_runs env io es g)"
  by (induction es arbitrary: g) (auto split: outcome.splits intro: gw_step)

definition two_events :: "gw_event list" where
  "two_events =
     [EvConnect (replicate 16 0, nil) 0 ''a'',
      EvSetClientID (fst (GenTempID (replicate 16 0, nil) ''gw'')) (NewID2 ''u1''),
      EvConnect (replicate 16 1, nil) 0 ''b'']"

definition demo_two :: gateway where
  "demo_two = gw_runs demo_env demo_io two_events (NewServer ''gw'' ''key'' 10)"

lemma good_demo_two: "good demo_two"
proof -
  have "gw_alloweds demo_env demo_io two_events (NewServer ''gw'' ''key'' 10)"
    by code_simp
  then show ?thesis unfolding demo_two_def
    using gw_reach_good [OF gw_runs_reach [OF gw_start] demo_env_ok good_NewServer] by blast
qed

definition demo_env2 :: auth_env where
  "demo_env2 = demo_env\<lparr>ae_random := (replicate 16 2, nil)\<rparr>"

definition demo_two_check :: "gateway \<Rightarrow> bool" where
  "demo_two_check g =
     (clients g (keyOf g (info_ID (info (heap g 1)))) = Some 1 \<and>
      clients g (keyOf g (NewID2 (UserID demo_creds))) = Some 0 \<and>
      IsRunning (heap g 0) \<and>
      \<not> Equals (NewID2 (UserID demo_creds)) (info_ID (info (heap g 1))) \<and>
      clients g (keyOf g (fst (GenTempID (ae_random demo_env2) ''''))) = None \<and>
      length (pool g) < pool_cap g)"

lemma demo_two_check: "demo_two_check demo_two"
  by code_simp

lemma demo_two_facts:
  "clients demo_two (keyOf demo_two (info_ID (info (heap demo_two 1)))) = Some 1"
  "clients demo_two (keyOf demo_two (NewID2 (UserID demo_creds))) = Some 0"
  "IsRunning (heap demo_two 0)"
  "\<not> Equals (NewID2 (UserID demo_creds)) (info_ID (info (heap demo_two 1)))"
  "clients demo_two (keyOf demo_two (fst (GenTempID (ae_random demo_env2) ''''))) = None"
  "length (pool demo_two) < pool_cap demo_two"
  using demo_two_check by (simp_all add: demo_two_check_def)

theorem updateClient_kicks_out_witness:
  "\<exists>g'. updateClient demo_env2 1 demo_creds demo_two = Ret (NewID2 (UserID demo_creds), nil, g') \<and>
    clients g' (keyOf demo_two (NewID2 (UserID demo_creds))) = Some 1 \<and>
    info_ID (info (heap g' 1)) = keyOf demo_two (NewID2 (UserID demo_creds)) \<and>
    clients g' (keyOf demo_two (info_ID (info (heap demo_two 1)))) = None \<and>
    clients g' (keyOf demo_two (fst (GenTempID (ae_random demo_env2) ''''))) = Some 0 \<and>
    info_ID (info (heap g' 0)) = keyOf demo_two (fst (GenTempID (ae_random demo_env2) '''')) \<and>
    pool g' = pool demo_two @ [(0, kick_message demo_creds)]"
  by (rule updateClient_kicks_out [OF good_demo_two demo_two_facts(1-4) _ demo_two_facts(5,6)]) simp

section \<open>Heartbeats\<close>

text \<open>\<open>n\<close> expirations of the client timer with no message in between.\<close>
fun heartbeats :: "nat \<Rightarrow> nat \<Rightarrow> gateway \<Rightarrow> gateway outcome" where
  "heartbeats 0 r g = Ret g"
| "heartbeats (Suc n) r g = bind_outcome (runRead_heartbeat r g) (\<lambda>(_, g'). heartbeats n r g')"

lemma heartbeat_tolerated:
  assumes "good g" "IsRunning (heap g r)"
    and "hbLost (heap g r) + 1 \<le> HeartbeatLostLimit (config (heap g r))"
  shows "\<exists>g'. runRead_heartbeat r g = Ret (False, g') \<and> good g' \<and> clients g' = clients g \<and>
    next_ref g' = next_ref g \<and> gw_id g' = gw_id g \<and> IsRunning (heap g' r) \<and>
    hbLost (heap g' r) = hbLost (heap g r) + 1 \<and> config (heap g' r) = config (heap g r) \<and>
    info (heap g' r) = info (heap g r)"
proof -
  let ?g = "rearm_hbC r (upd r (\<lambda>c. c\<lparr>hbLost := hbLost c + 1\<rparr>) g)"
  let ?m = "NewMessage 0 ActionHeartbeat INil"
  have good: "good ?g" by (intro good_rearm good_upd' [OF assms(1)]) simp_all
  then obtain e c where c: "EnqueueMessage ?m (heap ?g r) = Ret (e, c)"
    using EnqueueMessage_returns [of ?g ?m r] by (auto simp: good_def)
  have k: "info c = info (heap g r)" "state c = state (heap g r)" "config c = config (heap g r)"
    "hbLost c = hbLost (heap g r) + 1"
    using EnqueueMessage_keeps [OF c] by (simp_all add: rearm_hbC_def)
  have "runRead_heartbeat r g = Ret (False, upd r (\<lambda>_. c) ?g)"
    using assms(2,3) c by (simp add: runRead_heartbeat_def Let_def self_enqueue_def)
  moreover have "good (upd r (\<lambda>_. c) ?g)"
    using safe_self_enqueue [OF good, of r ?m] c by (simp add: self_enqueue_def)
  ultimately show ?thesis using k assms(2) by (simp add: IsRunning_def)
qed

lemma heartbeat_exits:
  assumes "good g" "IsRunning (heap g r)" "r < next_ref g"
    and "hbLost (heap g r) + 1 > HeartbeatLostLimit (config (heap g r))"
  shows "\<exists>g'. runRead_heartbeat r g = Ret (False, g') \<and> good g' \<and>
    state (heap g' r) = stateClosed \<and> (\<forall>k. clients g' k \<noteq> Some r)"
proof -
  let ?g = "upd r (\<lambda>c. c\<lparr>hbLost := hbLost c + 1\<rparr>) g"
  have g1: "good ?g" by (rule good_upd' [OF assms(1)]) simp_all
  then obtain g2 where g2: "Exit r ?g = Ret g2" "good g2" "state (heap g2 r) = stateClosed"
      "\<forall>k. clients g2 k \<noteq> Some r"
    using Exit_inv [of ?g r] Exit_wf [of ?g r] assms(2,3) by (auto simp: good_def IsRunning_def)
  let ?g3 = "rearm_hbC r g2"
  have "self_enqueue r (NewMessage 0 ActionHeartbeat INil) ?g3 = Ret (upd r (\<lambda>_. heap ?g3 r) ?g3)"
    using g2(3) by (simp add: self_enqueue_def EnqueueMessage_def rearm_hbC_def)
  then have "runRead_heartbeat r g = Ret (False, upd r (\<lambda>_. heap ?g3 r) ?g3)"
    using assms(2,4) g2(1) by (simp add: runRead_heartbeat_def Let_def)
  moreover have "good (upd r (\<lambda>_. heap ?g3 r) ?g3)"
    by (rule good_upd' [OF good_rearm(1) [OF g2(2)]]) simp_all
  ultimately show ?thesis using g2 by (simp add: rearm_hbC_def)
qed

lemma heartbeats_tolerated:
  assumes "good g" "IsRunning (heap g r)"
    and "hbLost (heap g r) + int n \<le> HeartbeatLostLimit (config (heap g r))"
  shows "\<exists>g'. heartbeats n r g = Ret g' \<and> good g' \<and> clients g' = clients g \<and>
    next_ref g' = next_ref g \<and> gw_id g' = gw_id g \<and> IsRunning (heap g' r) \<and>
    hbLost (heap g' r) = hbLost (heap g r) + int n \<and> config (heap g' r) = config (heap g r) \<and>
    info (heap g' r) = info (heap g r)"
  using assms
proof (induction n arbitrary: g)
  case (Suc n)
  obtain g1 where g1: "runRead_heartbeat r g = Ret (False, g1)" "good g1" "clients g1 = clients g"
    "next_ref g1 = next_ref g" "gw_id g1 = gw_id g" "IsRunning (heap g1 r)"
    "hbLost (heap g1 r) = hbLost (heap g r) + 1" "config (heap g1 r) = config (heap g r)"
    "info (heap g1 r) = info (heap g r)"
    using heartbeat_tolerated [OF Suc.prems(1,2)] Suc.prems(3) by auto
  then show ?case using Suc.IH [OF g1(2,6)] Suc.prems(3) by auto
qed simp

lemma heartbeats_append:
  "heartbeats (m + n) r g = bind_outcome (heartbeats m r g) (heartbeats n r)"
  by (induction m arbitrary: g) (simp_all add: bind_outcome_assoc case_prod_unfold)

text \<open>
  C20: a silent client survives as many expired heartbeats as its limit allows and no more: after
  \<open>n\<close> expirations it is still running and registered, after one more it is closed and
  unregistered.
\<close>
theorem heartbeat_limit:
  assumes g: "good g" "r < next_ref g" "IsRunning (heap g r)" "hbLost (heap g r) = 0"
    and n: "HeartbeatLostLimit (config (heap g r)) = int n"
  shows "(\<exists>g'. heartbeats n r g = Ret g' \<and> IsRunning (heap g' r) \<and> clients g' = clients g) \<and>
    (\<exists>g'. heartbeats (Suc n) r g = Ret g' \<and> state (heap g' r) = stateClosed \<and>
      (\<forall>k. clients g' k \<noteq> Some r) \<and> good g')"
proof -
  obtain g1 where g1: "heartbeats n r g = Ret g1" "good g1" "clients g1 = clients g"
    "next_ref g1 = next_ref g" "IsRunning (heap g1 r)" "hbLost (heap g1 r) = int n"
    "config (heap g1 r) = config (heap g r)"
    using heartbeats_tolerated [OF g(1,3), of n] g(4) n by auto
  obtain g2 where "runRead_heartbeat r g1 = Ret (False, g2)" "good g2"
    "state (heap g2 r) = stateClosed" "\<forall>k. clients g2 k \<noteq> Some r"
    using heartbeat_exits [OF g1(2,5)] g1 g(2) n by auto
  then show ?thesis
    using g1 heartbeats_append [of n 1 r g] by simp
qed

theorem heartbeat_limit_witness:
  "(\<exists>g'. heartbeats 3 0 demo_gateway = Ret g' \<and> IsRunning (heap g' 0) \<and> clients g' = clients demo_gateway) \<and>
   (\<exists>g'. heartbeats (Suc 3) 0 demo_gateway = Ret g' \<and> state (heap g' 0) = stateClosed \<and>
      (\<forall>k. clients g' k \<noteq> Some 0) \<and> good g')"
  by (rule heartbeat_limit) (simp_all add: demo_gateway_simps IsRunning_def)


section \<open>The interface used by the other services\<close>

text \<open>
  The part of the interface \<^verbatim>\<open>Gateway\<close> that messaging and channels use: \<open>enqueue\<close> hands a
  message to the client of an identifier, \<open>online\<close> tells that this succeeds and \<open>target\<close> which client
  gets it; both stay as they are for every identifier while messages are handed over.
\<close>
locale gateway_port =
  fixes enqueue :: "ID \<Rightarrow> GlideMessage \<Rightarrow> 's \<Rightarrow> (go_error \<times> 's) outcome"
    and ready :: "'s \<Rightarrow> bool"
    and online :: "'s \<Rightarrow> ID \<Rightarrow> bool"
    and room :: "'s \<Rightarrow> nat"
    and target :: "'s \<Rightarrow> ID \<Rightarrow> 'r"
    and sent :: "'s \<Rightarrow> ('r \<times> GlideMessage) list"
  assumes enqueue_ok: "ready s \<Longrightarrow> 0 < room s \<Longrightarrow> online s i \<Longrightarrow>
      \<exists>s'. enqueue i m s = Ret (nil, s') \<and> ready s' \<and> online s' = online s \<and> room s = Suc (room s') \<and>
        target s' = target s \<and> sent s' = sent s @ [(target s i, m)]"
    and enqueue_err: "ready s \<Longrightarrow> \<not> online s i \<Longrightarrow> \<exists>e. enqueue i m s = Ret (Some e, s)"
begin

lemma enqueue_total:
  assumes "ready s" "0 < room s"
  shows "\<exists>e s'. enqueue i m s = Ret (e, s') \<and> ready s' \<and> online s' = online s \<and>
    room s \<le> Suc (room s') \<and> (e = nil \<longleftrightarrow> online s i) \<and>
    target s' = target s \<and> sent s' = sent s @ (if online s i then [(target s i, m)] else [])"
proof (cases "online s i")
  case True
  then show ?thesis using enqueue_ok [OF assms True, of m] by auto
next
  case False
  then show ?thesis using enqueue_err [OF assms(1) False, of m] assms(1) by auto
qed

text \<open>Handing the same message to several identifiers, as the loops of the clients do.\<close>
fun enqueue_all :: "ID list \<Rightarrow> GlideMessage \<Rightarrow> 's \<Rightarrow> (bool \<times> 's) outcome" where
  "enqueue_all [] m s = Ret (False, s)"
| "enqueue_all (i # is) m s =
     bind_outcome (enqueue i m s) (\<lambda>(e, s').
     bind_outcome (enqueue_all is m s') (\<lambda>(ok, s''). Ret (e = nil \<or> ok, s'')))"

lemma enqueue_all_reaches:
  assumes "ready s" "length is \<le> room s"
  shows "\<exists>s'. enqueue_all is m s = Ret (\<exists>i \<in> set is. online s i, s') \<and> ready s' \<and>
    online s' = online s \<and> target s' = target s \<and> room s \<le> room s' + length is \<and>
    sent s' = sent s @ map (\<lambda>i. (target s i, m)) (filter (online s) is)"
  using assms
proof (induction "is" arbitrary: s)
  case (Cons i "is")
  then obtain e s' where e: "enqueue i m s = Ret (e, s')" "ready s'" "online s' = online s"
    "room s \<le> Suc (room s')" "e = nil \<longleftrightarrow> online s i"
    "target s' = target s" "sent s' = sent s @ (if online s i then [(target s i, m)] else [])"
    using enqueue_total [of s i m] by auto
  then have "length is \<le> room s'" using Cons.prems by simp
  from Cons.IH [OF e(2) this] obtain s'' where s'': "enqueue_all is m s' = Ret (\<exists>i \<in> set is. online s i, s'')"
    "ready s''" "online s'' = online s" "target s'' = target s" "room s' \<le> room s'' + length is"
    "sent s'' = sent s' @ map (\<lambda>i. (target s i, m)) (filter (online s) is)"
    using e by auto
  then show ?case using e by auto
qed simp

end

text \<open>The gateway provides it: an identifier is online when its client runs.\<close>
definition gw_online :: "gateway \<Rightarrow> ID \<Rightarrow> bool" where
  "gw_online g i = (case clients g (keyOf g i) of None \<Rightarrow> False | Some r \<Rightarrow> IsRunning (heap g r))"

lemma gw_online_pool [simp]: "gw_online (g\<lparr>pool := p\<rparr>) = gw_online g"
  by (rule ext) (simp add: gw_online_def split: option.split)

definition gw_target :: "gateway \<Rightarrow> ID \<Rightarrow> nat" where
  "gw_target g i = the (clients g (keyOf g i))"

lemma gw_target_pool [simp]: "gw_target (g\<lparr>pool := p\<rparr>) = gw_target g"
  by (rule ext) (simp add: gw_target_def)

definition gw_room :: "gateway \<Rightarrow> nat" where
  "gw_room g = pool_cap g - length (pool g)"

interpretation gwp: gateway_port Impl_EnqueueMessage "\<lambda>g. \<not> mu g" gw_online gw_room gw_target pool
proof
  fix g i m assume g: "\<not> mu g" "0 < gw_room g" "gw_online g i"
  then obtain r where "clients g (keyOf g i) = Some r" "IsRunning (heap g r)"
    by (auto simp: gw_online_def split: option.splits)
  with g show "\<exists>s'. Impl_EnqueueMessage i m g = Ret (nil, s') \<and> \<not> mu s' \<and> gw_online s' = gw_online g \<and>
      gw_room g = Suc (gw_room s') \<and> gw_target s' = gw_target g \<and> pool s' = pool g @ [(gw_target g i, m)]"
    using enqueue_running [OF g(1)]
    by (auto simp: gw_room_def gw_target_def)
next
  fix g i m assume "\<not> mu g" "\<not> gw_online g i"
  then show "\<exists>e. Impl_EnqueueMessage i m g = Ret (Some e, g)"
    by (auto simp: Impl_EnqueueMessage_def Impl_enqueueMessage_def gw_online_def split: option.splits)
qed

end
