(* ===== verification/Channel.thy ===== *)
theory Channel
  imports Gateway "HOL-Library.AList"
begin

text \<open>
  Channels (\<^verbatim>\<open>pkg/subscription/subscription_impl/chan.go\<close>, \<^verbatim>\<open>perm.go\<close>, \<^verbatim>\<open>message.go\<close>, and the
  types of \<^verbatim>\<open>pkg/subscription\<close>).

  The subscribers of a channel are an association list in the order of subscription, which stands
  for the iteration order of the Go map. The sequence numbers are \<open>64 word\<close>, wrapping and compared
  as signed numbers. \<open>chan_env\<close> carries the environment: the JSON decoder, the sequence store (the
  \<open>k\<close>-th segment handed to a channel), the message store and MD5. What the message store received is
  kept in \<open>stored\<close>.

  The goroutine that \<open>checkMsgQueue\<close> starts is a state machine: not running, in its loop, or in the
  emptying loop after its label \<^verbatim>\<open>REST\<close>; its steps are \<open>queue_recv\<close>, \<open>queue_timer\<close> and \<open>queue_rest\<close>.
\<close>

section \<open>Permissions\<close>

type_synonym Permission = i64

definition MaskPermRead :: nat where "MaskPermRead = 1"
definition MaskPermWrite :: nat where "MaskPermWrite = 2"
definition MaskPermAdmin :: nat where "MaskPermAdmin = 4"
definition MaskPermSystem :: nat where "MaskPermSystem = 8"

definition PermNone :: Permission where "PermNone = 0"
definition PermRead :: Permission where "PermRead = push_bit MaskPermRead 1"
definition PermWrite :: Permission where "PermWrite = push_bit MaskPermWrite 1"
definition PermAdmin :: Permission where "PermAdmin = push_bit MaskPermAdmin 1"

definition denies :: "Permission \<Rightarrow> nat \<Rightarrow> bool" where
  "denies perm msk = (signed_drop_bit msk perm AND 1 \<noteq> 1)"

fun allows :: "Permission \<Rightarrow> nat list \<Rightarrow> bool" where
  "allows perm [] = True"
| "allows perm (m # ms) = (if denies perm m then False else allows perm ms)"


section \<open>State\<close>

type_synonym ChanID = string
type_synonym SubscriberID = string

definition ErrChanNotExist :: string where "ErrChanNotExist = ''channel does not exist''"
definition ErrChanAlreadyExists :: string where "ErrChanAlreadyExists = ''channel already exists''"
definition ErrNotSubscribed :: string where "ErrNotSubscribed = ''not subscribed''"

definition errNotMemberOfChannel :: string where "errNotMemberOfChannel = ''not member of channel''"
definition errPermissionDeniedWrite :: string where
  "errPermissionDeniedWrite = ''permission denied: write''"
definition errChannelMuted :: string where "errChannelMuted = ''channel is muted''"
definition errChannelBlocked :: string where "errChannelBlocked = ''channel is blocked''"
definition errUnknownMessageType :: string where "errUnknownMessageType = ''unknown message type''"

text \<open>\<^verbatim>\<open>messageQueueTimeout\<close>, in seconds.\<close>
definition messageQueueTimeout :: int where "messageQueueTimeout = 10"

record ChanInfo =
  ci_ID :: ChanID
  ci_Type :: int
  Muted :: bool
  Blocked :: bool
  Closed :: bool
  Secret :: string
  Parent :: "ChanID option"
  Child :: "ChanID list"

definition NewChanInfo :: "ChanID \<Rightarrow> int \<Rightarrow> ChanInfo" where
  "NewChanInfo i t = \<lparr>ci_ID = i, ci_Type = t, Muted = False, Blocked = False, Closed = False,
     Secret = '''', Parent = None, Child = []\<rparr>"

record SubscriberOptions =
  so_Perm :: Permission
  so_Ticket :: string

record SubscriberInfo =
  Perm :: Permission

text \<open>The values passed as \<^verbatim>\<open>extra interface{}\<close>; \<open>ExtraOther\<close> holds the name of another type.\<close>
datatype extra = ExtraNil | ExtraOptions SubscriberOptions | ExtraChanInfo ChanInfo | ExtraOther string

definition TypeNotify :: int where "TypeNotify = 1"
definition TypeMessage :: int where "TypeMessage = 2"
definition TypeSystem :: int where "TypeSystem = 3"

record PublishMessage =
  pm_From :: SubscriberID
  pm_To :: "SubscriberID list"
  pm_Seq :: i64
  pm_Type :: int
  pm_Message :: "GlideMessage option"

text \<open>The values passed as \<^verbatim>\<open>subscription.Message\<close>.\<close>
datatype pub_arg = PubNil | PubMessage PublishMessage | PubOther string

datatype queue_goroutine = QNone | QLoop | QRest

record Channel =
  ch_id :: ChanID
  seq :: i64
  seqRemain :: i64
  segments :: nat
  ch_messages :: "PublishMessage gochan"
  queueRunning :: int
  queued :: int
  goroutine :: queue_goroutine
  activeAt :: int
  subscribers :: "(SubscriberID \<times> SubscriberInfo) list"
  ch_info :: ChanInfo
  stored :: "ChatMessage list"

record chan_env =
  ce_json :: "gotype \<Rightarrow> bytes \<Rightarrow> string + gostruct"
  ce_segment :: "ChanID \<Rightarrow> nat \<Rightarrow> string + (i64 \<times> i64)"
  ce_store :: "ChanID \<Rightarrow> ChatMessage \<Rightarrow> go_error"
  ce_md5 :: "bytes \<Rightarrow> bytes"


section \<open>Operations\<close>

definition canRead :: "SubscriberInfo \<Rightarrow> bool" where "canRead i = allows (Perm i) [MaskPermRead]"
definition canWrite :: "SubscriberInfo \<Rightarrow> bool" where "canWrite i = allows (Perm i) [MaskPermWrite]"
definition isSystem :: "SubscriberInfo \<Rightarrow> bool" where "isSystem i = allows (Perm i) [MaskPermSystem]"
definition isAdmin :: "SubscriberInfo \<Rightarrow> bool" where "isAdmin i = allows (Perm i) [MaskPermAdmin]"

definition sub_update :: "SubscriberOptions \<Rightarrow> SubscriberInfo \<Rightarrow> SubscriberInfo" where
  "sub_update options i = i\<lparr>Perm := so_Perm options\<rparr>"

definition NewSubscriberInfo :: "SubscriberOptions \<Rightarrow> SubscriberInfo" where
  "NewSubscriberInfo so = \<lparr>Perm = so_Perm so\<rparr>"

text \<open>Calling \<^verbatim>\<open>String\<close> on the type of nil panics.\<close>
definition getSubscriberOptions :: "extra \<Rightarrow> (string + SubscriberOptions) outcome" where
  "getSubscriberOptions i =
     (case i of
        ExtraOptions so \<Rightarrow> Ret (Inr so)
      | ExtraNil \<Rightarrow> nil_dereference
      | ExtraChanInfo _ \<Rightarrow> Ret (Inl ''extra expect type: *SubscriberOptions, actual: *subscription.ChanInfo'')
      | ExtraOther t \<Rightarrow> Ret (Inl (''extra expect type: *SubscriberOptions, actual: '' @ t)))"

definition isValidMessageType :: "int \<Rightarrow> bool" where
  "isValidMessageType t = (t > 0 \<and> t \<le> TypeSystem)"

definition IsUnknownMessageType :: "string \<Rightarrow> bool" where
  "IsUnknownMessageType err = (err = errUnknownMessageType)"

definition GetChatMessage :: "chan_env \<Rightarrow> PublishMessage \<Rightarrow> (string + ChatMessage) outcome" where
  "GetChatMessage env p =
     (case pm_Message p of
        None \<Rightarrow> nil_dereference
      | Some m \<Rightarrow> Ret (Deserialize_Chat (ce_json env) (Data m)))"

definition loadSeq :: "chan_env \<Rightarrow> Channel \<Rightarrow> go_error \<times> Channel" where
  "loadSeq env g =
     (let g1 = g\<lparr>segments := segments g + 1\<rparr>
      in case ce_segment env (ch_id g) (segments g) of
           Inl e \<Rightarrow> (Some e, g1)
         | Inr (s, len) \<Rightarrow> (nil, g1\<lparr>seqRemain := len, seq := s\<rparr>))"

definition nextSeq :: "chan_env \<Rightarrow> Channel \<Rightarrow> (string + i64) \<times> Channel" where
  "nextSeq env g =
     (let g1 = g\<lparr>seqRemain := seqRemain g - 1\<rparr>
      in if sint (seqRemain g1) \<le> 0
         then (case loadSeq env g1 of
                 (Some e, g2) \<Rightarrow> (Inl e, g2)
               | (None, g2) \<Rightarrow>
                   let g3 = g2\<lparr>seq := seq g2 - 1\<rparr>
                   in (Inr (seq g3 + 1), g3\<lparr>seq := seq g3 + 1\<rparr>))
         else (Inr (seq g1 + 1), g1\<lparr>seq := seq g1 + 1\<rparr>))"

definition NewChannel :: "chan_env \<Rightarrow> ChanID \<Rightarrow> string + Channel" where
  "NewChannel env i =
     (let ret = \<lparr>ch_id = i, seq = 0, seqRemain = 0, segments = 0, ch_messages = make_chan 100,
                 queueRunning = 0, queued = 0, goroutine = QNone, activeAt = 0, subscribers = [],
                 ch_info = NewChanInfo '''' 0, stored = []\<rparr>
      in case loadSeq env ret of
           (Some e, _) \<Rightarrow> Inl e
         | (None, ch) \<Rightarrow> Inr ch)"

definition Channel_Update :: "ChanInfo \<Rightarrow> Channel \<Rightarrow> go_error \<times> Channel" where
  "Channel_Update ci g =
     (nil, g\<lparr>ch_info := (ch_info g)\<lparr>Blocked := Blocked ci, Muted := Muted ci, Secret := Secret ci\<rparr>\<rparr>)"

definition GetSubscribers :: "Channel \<Rightarrow> string list" where
  "GetSubscribers g = map fst (subscribers g)"

text \<open>Starts the goroutine of the queue.\<close>
definition checkMsgQueue :: "Channel \<Rightarrow> go_error \<times> Channel" where
  "checkMsgQueue g =
     (if queueRunning g \<noteq> 0 then (nil, g)
      else (nil, g\<lparr>queueRunning := 1, goroutine := QLoop\<rparr>))"

text \<open>The \<^verbatim>\<open>select\<close> with which both kinds of messages are queued; \<open>full\<close> is the error of its default.\<close>
definition send_queue :: "string \<Rightarrow> PublishMessage \<Rightarrow> Channel \<Rightarrow> (go_error \<times> Channel) outcome" where
  "send_queue full msg g =
     bind_outcome (try_send (ch_messages g) msg) (\<lambda>r.
       case r of
         None \<Rightarrow> Ret (Some full, g)
       | Some ch \<Rightarrow> Ret (checkMsgQueue (g\<lparr>ch_messages := ch, queued := queued g + 1\<rparr>)))"

definition enqueueNotify :: "PublishMessage \<Rightarrow> Channel \<Rightarrow> (go_error \<times> Channel) outcome" where
  "enqueueNotify msg g = send_queue ''notify message queue is full'' msg g"

definition online_notify :: "int \<Rightarrow> SubscriberID \<Rightarrow> PublishMessage" where
  "online_notify t i =
     \<lparr>pm_From = '''', pm_To = [], pm_Seq = 0, pm_Type = 0,
      pm_Message = Some (NewMessage 0 ActionGroupNotify
        (Val (SNotify \<lparr>nm_From = ''system'', nm_Type = t, nm_Body = BodyUid i\<rparr>)))\<rparr>"

definition members_notify :: "SubscriberID \<Rightarrow> string list \<Rightarrow> PublishMessage" where
  "members_notify i members =
     \<lparr>pm_From = '''', pm_To = [i], pm_Seq = 0, pm_Type = 0,
      pm_Message = Some (NewMessage 0 ActionGroupNotify
        (Val (SNotify \<lparr>nm_From = ''system'', nm_Type = 5, nm_Body = BodyMembers members\<rparr>)))\<rparr>"

text \<open>The ticket for a subscription: MD5 of permission, subscriber and secret.\<close>
definition subscribe_ticket :: "chan_env \<Rightarrow> Permission \<Rightarrow> SubscriberID \<Rightarrow> string \<Rightarrow> string" where
  "subscribe_ticket env perm i secret =
     hex_encode (ce_md5 env (bytes_of_string
       (show_int (sint perm) @ ''_'' @ i @ ''_'' @ secret)))"

definition Channel_Subscribe ::
    "chan_env \<Rightarrow> SubscriberID \<Rightarrow> extra \<Rightarrow> Channel \<Rightarrow> (go_error \<times> Channel) outcome" where
  "Channel_Subscribe env i ex g =
     bind_outcome (getSubscriberOptions ex) (\<lambda>r.
       case r of
         Inl e \<Rightarrow> Ret (Some e, g)
       | Inr so \<Rightarrow>
           if Closed (ch_info g) then Ret (Some ''channel is closed'', g)
           else if Blocked (ch_info g) then Ret (Some ''channel is blocked'', g)
           else case map_of (subscribers g) i of
                  Some sb \<Rightarrow> Ret (nil, g\<lparr>subscribers := AList.update i (sub_update so sb) (subscribers g)\<rparr>)
                | None \<Rightarrow>
                    if length (Secret (ch_info g)) \<noteq> 0 \<and> length (so_Ticket so) = 0
                    then Ret (Some ''invalid ticket'', g)
                    else if length (Secret (ch_info g)) \<noteq> 0 \<and>
                            subscribe_ticket env (so_Perm so) i (Secret (ch_info g)) \<noteq> so_Ticket so
                    then Ret (Some ''invalid ticket'', g)
                    else let g1 = g\<lparr>subscribers := AList.update i (NewSubscriberInfo so) (subscribers g)\<rparr>
                         in bind_outcome (enqueueNotify (online_notify 2 i) g1) (\<lambda>(_, g2).
                            bind_outcome (enqueueNotify (members_notify i (GetSubscribers g2)) g2) (\<lambda>(_, g3).
                            Ret (nil, g3))))"

definition Channel_Unsubscribe :: "SubscriberID \<Rightarrow> Channel \<Rightarrow> (go_error \<times> Channel) outcome" where
  "Channel_Unsubscribe i g =
     (case map_of (subscribers g) i of
        None \<Rightarrow> Ret (Some ErrNotSubscribed, g)
      | Some _ \<Rightarrow>
          bind_outcome (enqueueNotify (online_notify 1 i)
              (g\<lparr>subscribers := AList.delete i (subscribers g)\<rparr>))
            (\<lambda>(_, g'). Ret (nil, g')))"

text \<open>The message with its sequence number and the rewritten data.\<close>
definition numbered :: "i64 \<Rightarrow> ChatMessage \<Rightarrow> PublishMessage \<Rightarrow> PublishMessage" where
  "numbered s cm m =
     m\<lparr>pm_Seq := s, pm_Message := map_option
         (\<lambda>gm. gm\<lparr>Data := NewData (PtrPtr (SChat (cm\<lparr>cm_Seq := sint s\<rparr>)))\<rparr>) (pm_Message m)\<rparr>"

definition Channel_enqueue :: "chan_env \<Rightarrow> PublishMessage \<Rightarrow> Channel \<Rightarrow> (go_error \<times> Channel) outcome" where
  "Channel_enqueue env m g =
     bind_outcome (GetChatMessage env m) (\<lambda>r.
       case r of
         Inl e \<Rightarrow> Ret (Some (''enqueue message deserialize body error: '' @ e), g)
       | Inr cm \<Rightarrow>
           (case nextSeq env g of
              (Inl e, g1) \<Rightarrow> Ret (Some e, g1)
            | (Inr s, g1) \<Rightarrow>
                let cm1 = cm\<lparr>cm_Seq := sint s\<rparr>;
                    m1 = numbered s cm m;
                    err = (if pm_Type m1 = TypeMessage then ce_store env (ch_id g1) cm1 else nil);
                    g2 = (if pm_Type m1 = TypeMessage then g1\<lparr>stored := stored g1 @ [cm1]\<rparr> else g1)
                in case err of
                     Some e \<Rightarrow> Ret (Some (''store channel message error: '' @ e), g2)
                   | None \<Rightarrow> send_queue ''too many messages,the group message queue is full'' m1 g2))"

definition Channel_Publish :: "chan_env \<Rightarrow> pub_arg \<Rightarrow> Channel \<Rightarrow> (go_error \<times> Channel) outcome" where
  "Channel_Publish env msg g =
     (if Closed (ch_info g) then Ret (Some ''channel closed'', g)
      else case msg of
             PubNil \<Rightarrow> nil_dereference
           | PubOther t \<Rightarrow>
               Ret (Some (''unexpected message type, expect: *subscription.PublishMessage, actual:'' @ t), g)
           | PubMessage m \<Rightarrow>
               if \<not> isValidMessageType (pm_Type m) then Ret (Some errUnknownMessageType, g)
               else case map_of (subscribers g) (pm_From m) of
                      None \<Rightarrow> Ret (Some errNotMemberOfChannel, g)
                    | Some s \<Rightarrow>
                        if \<not> canWrite s then Ret (Some errPermissionDeniedWrite, g)
                        else if Muted (ch_info g) \<and> (\<not> isSystem s \<or> \<not> isAdmin s)
                        then Ret (Some errChannelMuted, g)
                        else if Blocked (ch_info g) \<and> \<not> isSystem s
                        then Ret (Some errChannelBlocked, g)
                        else if pm_Type m = TypeNotify then enqueueNotify m g
                        else if pm_Type m = TypeMessage then Channel_enqueue env m g
                        else Ret (Some errUnknownMessageType, g))"

definition Channel_Close :: "Channel \<Rightarrow> (go_error \<times> Channel) outcome" where
  "Channel_Close g =
     (let g1 = g\<lparr>ch_info := (ch_info g)\<lparr>Closed := True\<rparr>\<rparr>
      in bind_outcome (close_chan (ch_messages g1)) (\<lambda>ch.
           Ret (nil, g1\<lparr>ch_messages := ch, subscribers := []\<rparr>)))"


section \<open>The queue\<close>

text \<open>The identifiers \<open>push\<close> sends a message to.\<close>
definition push_targets :: "PublishMessage \<Rightarrow> Channel \<Rightarrow> ID list" where
  "push_targets m g =
     map (\<lambda>(i, _). NewID2 i)
       (filter (\<lambda>(i, s). (pm_To m = [] \<or> i \<in> set (pm_To m)) \<and> canRead s) (subscribers g))"

text \<open>The loop of \<open>push\<close> over a gateway.\<close>
fun push_loop :: "(ID \<Rightarrow> GlideMessage \<Rightarrow> 's \<Rightarrow> (go_error \<times> 's) outcome) \<Rightarrow>
    ID list \<Rightarrow> GlideMessage \<Rightarrow> 's \<Rightarrow> 's outcome" where
  "push_loop enq [] m s = Ret s"
| "push_loop enq (i # is) m s = bind_outcome (enq i m s) (\<lambda>(_, s'). push_loop enq is m s')"

definition push :: "(ID \<Rightarrow> GlideMessage \<Rightarrow> 's \<Rightarrow> (go_error \<times> 's) outcome) \<Rightarrow>
    PublishMessage \<Rightarrow> Channel \<Rightarrow> 's \<Rightarrow> 's outcome" where
  "push enq m g s =
     (case pm_Message m of
        None \<Rightarrow> (if push_targets m g = [] then Ret s else nil_dereference)
      | Some gm \<Rightarrow> push_loop enq (push_targets m g) gm s)"

text \<open>What the goroutine does at the label \<^verbatim>\<open>REST\<close>.\<close>
definition queue_stop :: "Channel \<Rightarrow> Channel" where
  "queue_stop g = g\<lparr>queued := 0, queueRunning := 0, goroutine := QNone\<rparr>"

definition queue_goto_rest :: "Channel \<Rightarrow> Channel" where
  "queue_goto_rest g = (if queued g > 0 then g\<lparr>goroutine := QRest\<rparr> else queue_stop g)"

text \<open>The case of the loop that receives a message, at time \<open>now\<close>; \<open>None\<close> while it blocks.\<close>
definition queue_recv :: "(ID \<Rightarrow> GlideMessage \<Rightarrow> 's \<Rightarrow> (go_error \<times> 's) outcome) \<Rightarrow> int \<Rightarrow>
    Channel \<Rightarrow> 's \<Rightarrow> (Channel \<times> 's) outcome option" where
  "queue_recv enq now g s =
     (case try_recv (ch_messages g) of
        received.Blocked \<Rightarrow> None
      | Drained \<Rightarrow> Some (Ret (queue_goto_rest g, s))
      | Received m ch \<Rightarrow>
          let g1 = g\<lparr>ch_messages := ch, queued := queued g - 1, activeAt := now\<rparr>
          in Some (bind_outcome (push enq m g1 s) (\<lambda>s'. Ret (g1, s'))))"

text \<open>The case of the timer.\<close>
definition queue_timer :: "int \<Rightarrow> Channel \<Rightarrow> Channel" where
  "queue_timer now g =
     (if activeAt g + messageQueueTimeout < now then queue_goto_rest g else g)"

text \<open>One round of the loop after \<^verbatim>\<open>REST\<close>.\<close>
definition queue_rest :: "Channel \<Rightarrow> Channel option" where
  "queue_rest g =
     (case try_recv (ch_messages g) of
        received.Blocked \<Rightarrow> None
      | Drained \<Rightarrow> Some (queue_stop g)
      | Received m ch \<Rightarrow> Some (g\<lparr>ch_messages := ch, queued := -1\<rparr>))"

section \<open>Permissions: lemmas\<close>

lemma denies_bit: "msk < 64 \<Longrightarrow> denies perm msk = (\<not> bit perm msk)"
proof -
  assume m: "msk < 64"
  have "signed_drop_bit msk perm AND 1 = (of_bool (bit (signed_drop_bit msk perm) 0) :: i64)"
    by (simp add: and_one_eq mod2_eq_if bit_0)
  moreover have "bit (signed_drop_bit msk perm) 0 = bit perm msk"
    using m by (simp add: bit_signed_drop_bit_iff)
  ultimately show ?thesis by (simp add: denies_def)
qed

lemma perm_tests:
  "canRead i = bit (Perm i) 1" "canWrite i = bit (Perm i) 2"
  "isAdmin i = bit (Perm i) 4" "isSystem i = bit (Perm i) 8"
  by (simp_all add: canRead_def canWrite_def isAdmin_def isSystem_def MaskPermRead_def
      MaskPermWrite_def MaskPermAdmin_def MaskPermSystem_def denies_bit)


section \<open>Sequence numbers\<close>

text \<open>\<open>n\<close> calls of \<open>nextSeq\<close>.\<close>
fun nextSeqs :: "chan_env \<Rightarrow> nat \<Rightarrow> Channel \<Rightarrow> (string + i64) list \<times> Channel" where
  "nextSeqs env 0 g = ([], g)"
| "nextSeqs env (Suc n) g =
     (let (rs, g1) = nextSeqs env n g; (r, g2) = nextSeq env g1 in (rs @ [r], g2))"

text \<open>The sequence store hands out consecutive segments of length \<open>len\<close>, the first from \<open>s\<close>.\<close>
definition consecutive_segments :: "chan_env \<Rightarrow> ChanID \<Rightarrow> int \<Rightarrow> nat \<Rightarrow> bool" where
  "consecutive_segments env i s len =
     (\<forall>k. ce_segment env i k = Inr (of_int (s + int k * int len), of_nat len))"

text \<open>The state of a channel after \<open>n\<close> numbers.\<close>
definition seq_state :: "int \<Rightarrow> nat \<Rightarrow> nat \<Rightarrow> Channel \<Rightarrow> bool" where
  "seq_state s len n g =
     (seq g = of_int (s + int n) \<and> segments g = Suc (n div len) \<and>
      seqRemain g = of_nat (len - n mod len))"

lemma sint_of_nat_small: "n < 2 ^ 63 \<Longrightarrow> sint (of_nat n :: i64) = int n"
  by (simp add: sint_uint unat_of_nat signed_take_bit_int_eq_self uint_nat)

lemma nextSeq_state:
  assumes seg: "consecutive_segments env (ch_id g) s len" and len: "0 < len" "len < 2 ^ 63"
    and st: "seq_state s len n g"
  shows "fst (nextSeq env g) = Inr (of_int (s + int (Suc n))) \<and>
    seq_state s len (Suc n) (snd (nextSeq env g)) \<and> ch_id (snd (nextSeq env g)) = ch_id g"
proof (cases "Suc (n mod len) = len")
  case True
  have d: "Suc n div len = Suc (n div len)" "Suc n mod len = 0"
    using True by (simp_all add: div_Suc mod_Suc)
  have e: "int (Suc n) = int (Suc (n div len)) * int len"
    using div_mult_mod_eq [of "Suc n" len] d by (metis add.right_neutral of_nat_mult)
  have "len - n mod len = 1" using True by linarith
  then have "seqRemain g - 1 = (0 :: i64)" using st by (simp add: seq_state_def)
  then show ?thesis
    using st seg d e
    by (simp add: nextSeq_def loadSeq_def Let_def seq_state_def consecutive_segments_def algebra_simps)
next
  case False
  then have lt: "Suc (n mod len) < len" using len by (meson Suc_lessI mod_less_divisor)
  have d: "Suc n div len = n div len" "Suc n mod len = Suc (n mod len)"
    using lt by (simp_all add: div_Suc mod_Suc)
  have r: "seqRemain g - 1 = (of_nat (len - Suc (n mod len)) :: i64)"
    using st lt by (simp add: seq_state_def of_nat_diff)
  have "len - Suc (n mod len) < 2 ^ 63" using len(2) by (meson diff_le_self le_less_trans)
  then have "sint (seqRemain g - 1) = int (len - Suc (n mod len))"
    unfolding r by (rule sint_of_nat_small)
  moreover have "int (len - Suc (n mod len)) > 0" using lt by simp
  ultimately have "sint (seqRemain g - 1) > 0" by presburger
  then show ?thesis
    using st d r by (simp add: nextSeq_def Let_def seq_state_def algebra_simps)
qed


text \<open>\<^verbatim>\<open>IdleSubscriptionStore\<close> and \<^verbatim>\<open>SubscriptionMessageStore\<close> answer \<^verbatim>\<open>1, math.MaxInt64\<close> every
  time, \<^verbatim>\<open>KafkaMessageStore\<close> answers \<^verbatim>\<open>0, 0\<close>.\<close>
definition Idle_NextSegmentSequence :: "ChanID \<Rightarrow> nat \<Rightarrow> string + (i64 \<times> i64)" where
  "Idle_NextSegmentSequence i k = Inr (1, 0x7FFFFFFFFFFFFFFF)"

definition Kafka_NextSegmentSequence :: "ChanID \<Rightarrow> nat \<Rightarrow> string + (i64 \<times> i64)" where
  "Kafka_NextSegmentSequence i k = Inr (0, 0)"

definition demo_chan_env :: "(ChanID \<Rightarrow> nat \<Rightarrow> string + (i64 \<times> i64)) \<Rightarrow> chan_env" where
  "demo_chan_env seg = \<lparr>ce_json = (\<lambda>t b. Inl ''''), ce_segment = seg,
     ce_store = (\<lambda>i m. nil), ce_md5 = (\<lambda>b. replicate 16 0)\<rparr>"


text \<open>
  Over the Kafka store every message of a channel gets the number 0.
\<close>
theorem kafka_seq_constant:
  assumes "ce_segment env = Kafka_NextSegmentSequence" "NewChannel env i = Inr g"
  shows "fst (nextSeqs env n g) = replicate n (Inr 0)"
proof -
  have g: "seqRemain g = 0" using assms
    by (auto simp: NewChannel_def loadSeq_def Let_def Kafka_NextSegmentSequence_def)
  have "fst (nextSeqs env n g) = replicate n (Inr 0) \<and> seqRemain (snd (nextSeqs env n g)) = 0"
  proof (induction n)
    case (Suc n)
    then show ?case using assms(1)
      by (auto simp: case_prod_unfold Let_def nextSeq_def loadSeq_def Kafka_NextSegmentSequence_def
          replicate_append_same [symmetric])
  qed (simp add: g)
  then show ?thesis by blast
qed

theorem kafka_seq_constant_witness:
  "fst (nextSeqs (demo_chan_env Kafka_NextSegmentSequence) 3
     (projr (NewChannel (demo_chan_env Kafka_NextSegmentSequence) ''c''))) = replicate 3 (Inr 0)"
  by (rule kafka_seq_constant [where i = "''c''"])
     (simp_all add: demo_chan_env_def NewChannel_def loadSeq_def Kafka_NextSegmentSequence_def)

section \<open>The invariant of a channel\<close>

text \<open>
  The queue stays within its capacity and is closed exactly when the channel is marked closed, the
  flag \<open>queueRunning\<close> tells whether the goroutine exists, and no subscriber is listed twice.
\<close>
definition chan_inv :: "Channel \<Rightarrow> bool" where
  "chan_inv g =
     (chan_wf (ch_messages g) \<and> closed (ch_messages g) = Closed (ch_info g) \<and>
      queueRunning g = (if goroutine g = QNone then 0 else 1) \<and>
      distinct (map fst (subscribers g)) \<and> (Closed (ch_info g) \<longrightarrow> subscribers g = []))"

lemma checkMsgQueue_simps [simp]:
  "fst (checkMsgQueue g) = nil"
  "ch_messages (snd (checkMsgQueue g)) = ch_messages g"
  "ch_info (snd (checkMsgQueue g)) = ch_info g"
  "subscribers (snd (checkMsgQueue g)) = subscribers g"
  "queued (snd (checkMsgQueue g)) = queued g"
  "stored (snd (checkMsgQueue g)) = stored g"
  "ch_id (snd (checkMsgQueue g)) = ch_id g"
  by (simp_all add: checkMsgQueue_def)

lemma checkMsgQueue_pair: "checkMsgQueue g = (e, g') \<Longrightarrow> e = nil \<and> g' = snd (checkMsgQueue g)"
  by (auto simp: checkMsgQueue_def split: if_splits)

lemma checkMsgQueue_goroutine:
  "chan_inv g \<Longrightarrow> goroutine (snd (checkMsgQueue g)) = (if goroutine g = QNone then QLoop else goroutine g)"
  by (auto simp: checkMsgQueue_def chan_inv_def split: if_splits)

lemma checkMsgQueue_inv: "chan_inv g \<Longrightarrow> chan_inv (snd (checkMsgQueue g))"
  by (auto simp: checkMsgQueue_def chan_inv_def)

lemma chan_inv_send:
  assumes "chan_inv g" "\<not> Closed (ch_info g)" "length (buf (ch_messages g)) < cap (ch_messages g)"
  shows "chan_inv (snd (checkMsgQueue (g\<lparr>ch_messages := (ch_messages g)\<lparr>buf := buf (ch_messages g) @ [m]\<rparr>,
                                        queued := queued g + 1\<rparr>)))"
  using assms by (intro checkMsgQueue_inv) (auto simp: chan_inv_def chan_wf_def)

text \<open>What \<open>enqueueNotify\<close> returns in a channel that is not closed.\<close>
lemma send_queue_eq:
  assumes "chan_inv g" "\<not> Closed (ch_info g)"
  shows "send_queue full m g =
    (if length (buf (ch_messages g)) < cap (ch_messages g)
     then Ret (checkMsgQueue (g\<lparr>ch_messages := (ch_messages g)\<lparr>buf := buf (ch_messages g) @ [m]\<rparr>,
                                queued := queued g + 1\<rparr>))
     else Ret (Some full, g))"
  using assms by (simp add: send_queue_def try_send_def chan_inv_def)

lemma send_queue_inv:
  assumes "chan_inv g" "\<not> Closed (ch_info g)"
  shows "\<exists>e g'. send_queue full m g = Ret (e, g') \<and> chan_inv g' \<and> ch_info g' = ch_info g \<and>
    subscribers g' = subscribers g"
  using send_queue_eq [OF assms, of full m] chan_inv_send [OF assms, of m] assms(1)
  by (cases "length (buf (ch_messages g)) < cap (ch_messages g)")
     (auto intro: exI [of _ "fst (checkMsgQueue _)"] simp: prod_eq_iff)

lemmas enqueueNotify_inv = send_queue_inv [where full = "''notify message queue is full''",
    folded enqueueNotify_def]

lemma chan_inv_update:
  assumes "chan_inv g" "\<not> Closed (ch_info g)"
  shows "chan_inv (g\<lparr>subscribers := AList.update i s (subscribers g)\<rparr>)"
    "chan_inv (g\<lparr>subscribers := AList.delete i (subscribers g)\<rparr>)"
  using assms distinct_update distinct_delete by (fastforce simp: chan_inv_def)+

lemma Channel_Subscribe_inv:
  assumes "chan_inv g" "Channel_Subscribe env i ex g = Ret (e, g')"
  shows "chan_inv g' \<and> ch_info g' = ch_info g \<and>
    (e = nil \<longrightarrow> (\<exists>so. ex = ExtraOptions so \<and> \<not> Closed (ch_info g) \<and> \<not> Blocked (ch_info g) \<and>
       map_of (subscribers g') i = Some \<lparr>Perm = so_Perm so\<rparr> \<and>
       (\<forall>j. j \<noteq> i \<longrightarrow> map_of (subscribers g') j = map_of (subscribers g) j)))"
proof (cases "e = nil \<and> map_of (subscribers g) i = None")
  case False
  then show ?thesis
    using assms chan_inv_update
    by (auto simp: Channel_Subscribe_def getSubscriberOptions_def nil_dereference_def Let_def
        bind_outcome_eq_Ret update_conv' sub_update_def
        split: extra.splits if_splits option.splits sum.splits)
next
  case True
  then obtain so where so: "ex = ExtraOptions so" "\<not> Closed (ch_info g)" "\<not> Blocked (ch_info g)"
    using assms(2)
    by (auto simp: Channel_Subscribe_def getSubscriberOptions_def nil_dereference_def
        split: extra.splits if_splits)
  let ?g = "g\<lparr>subscribers := AList.update i (NewSubscriberInfo so) (subscribers g)\<rparr>"
  have g1: "chan_inv ?g" "\<not> Closed (ch_info ?g)" using chan_inv_update assms(1) so by auto
  from enqueueNotify_inv [OF this] obtain e2 g2 where n2: "enqueueNotify (online_notify 2 i) ?g = Ret (e2, g2)"
    "chan_inv g2" "ch_info g2 = ch_info ?g" "subscribers g2 = subscribers ?g" by blast
  with g1 have "\<not> Closed (ch_info g2)" by simp
  from enqueueNotify_inv [OF n2(2) this] obtain e3 g3 where
    n3: "enqueueNotify (members_notify i (GetSubscribers g2)) g2 = Ret (e3, g3)"
    "chan_inv g3" "ch_info g3 = ch_info g2" "subscribers g3 = subscribers g2" by blast
  have "g' = g3"
    using assms(2) True so n2(1) n3(1)
    by (auto simp: Channel_Subscribe_def getSubscriberOptions_def Let_def split: if_splits)
  then show ?thesis using n2 n3 so by (simp add: NewSubscriberInfo_def update_conv')
qed

lemma Channel_Unsubscribe_inv:
  assumes "chan_inv g"
  shows "\<exists>e g'. Channel_Unsubscribe i g = Ret (e, g') \<and> chan_inv g' \<and> ch_info g' = ch_info g \<and>
    (e = nil \<longleftrightarrow> map_of (subscribers g) i \<noteq> None) \<and>
    map_of (subscribers g') = (map_of (subscribers g))(i := None)"
proof (cases "map_of (subscribers g) i")
  case None
  then show ?thesis using assms by (auto simp: Channel_Unsubscribe_def fun_upd_idem)
next
  case (Some s)
  then have "\<not> Closed (ch_info g)" using assms by (auto simp: chan_inv_def)
  then have "chan_inv (g\<lparr>subscribers := AList.delete i (subscribers g)\<rparr>)"
    "\<not> Closed (ch_info (g\<lparr>subscribers := AList.delete i (subscribers g)\<rparr>))"
    using chan_inv_update assms by auto
  from enqueueNotify_inv [OF this, of "online_notify 1 i"] show ?thesis
    using Some by (auto simp: Channel_Unsubscribe_def delete_conv' fun_upd_def)
qed

lemma nextSeq_frame:
  "ch_messages (snd (nextSeq env g)) = ch_messages g" "ch_info (snd (nextSeq env g)) = ch_info g"
  "subscribers (snd (nextSeq env g)) = subscribers g" "goroutine (snd (nextSeq env g)) = goroutine g"
  "queueRunning (snd (nextSeq env g)) = queueRunning g" "queued (snd (nextSeq env g)) = queued g"
  "stored (snd (nextSeq env g)) = stored g" "ch_id (snd (nextSeq env g)) = ch_id g"
  by (auto simp: nextSeq_def loadSeq_def Let_def split: sum.split option.split prod.split)

lemma nextSeq_inv: "chan_inv g \<Longrightarrow> chan_inv (snd (nextSeq env g))"
  by (simp add: chan_inv_def nextSeq_frame)

text \<open>What \<open>enqueue\<close> does, by cases.\<close>
lemma Channel_enqueue_cases:
  assumes "Channel_enqueue env m g = Ret (e, g')"
  obtains (bad_body) err where "e = Some err" "g' = g"
  | (no_seq) err where "e = Some err" "nextSeq env g = (Inl err, g')"
  | (not_stored) err x g1 s where "e = Some err" "nextSeq env g = (Inr s, g1)" "g' = g1\<lparr>stored := x\<rparr>"
  | (sent) cm s g1 x where "nextSeq env g = (Inr s, g1)" "GetChatMessage env m = Ret (Inr cm)"
      "x = (if pm_Type m = TypeMessage then stored g @ [cm\<lparr>cm_Seq := sint s\<rparr>] else stored g)"
      "send_queue ''too many messages,the group message queue is full'' (numbered s cm m)
         (g1\<lparr>stored := x\<rparr>) = Ret (e, g')"
proof -
  obtain r where r: "GetChatMessage env m = Ret r"
    using assms by (cases "GetChatMessage env m") (simp_all add: Channel_enqueue_def)
  show ?thesis
  proof (cases r)
    case (Inl err)
    then show ?thesis using assms r that(1) by (auto simp: Channel_enqueue_def)
  next
    case (Inr cm)
    obtain n g1 where n: "nextSeq env g = (n, g1)" by fastforce
    show ?thesis
    proof (cases n)
      case (Inl err)
      then show ?thesis using assms r \<open>r = Inr cm\<close> n that(2) by (auto simp: Channel_enqueue_def)
    next
      case (Inr s)
      have st: "stored g1 = stored g" using nextSeq_frame(7) [of env g] n by simp
      have ty: "pm_Type (numbered s cm m) = pm_Type m" by (simp add: numbered_def)
      have self: "g1\<lparr>stored := stored g1\<rparr> = g1" by simp
      show ?thesis
        using assms r \<open>r = Inr cm\<close> n Inr st that(3,4)
        by (auto simp: Channel_enqueue_def Let_def ty split: if_splits option.splits)
           (metis self)
    qed
  qed
qed

lemma Channel_enqueue_inv:
  assumes "chan_inv g" "\<not> Closed (ch_info g)" "Channel_enqueue env m g = Ret (e, g')"
  shows "chan_inv g' \<and> ch_info g' = ch_info g \<and> subscribers g' = subscribers g"
proof -
  have n: "chan_inv (g1\<lparr>stored := x\<rparr>) \<and> ch_info g1 = ch_info g \<and> subscribers g1 = subscribers g"
    if "nextSeq env g = (r, g1)" for r g1 x
    using nextSeq_inv [OF assms(1), of env] nextSeq_frame [of env g] that by (simp add: chan_inv_def)
  from assms(3) show ?thesis
  proof (cases rule: Channel_enqueue_cases)
    case no_seq
    then show ?thesis using nextSeq_inv [OF assms(1), of env] nextSeq_frame [of env g] by simp
  next
    case (sent cm s g1 x)
    let ?g = "g1\<lparr>stored := x\<rparr>"
    have g1: "chan_inv ?g" "\<not> Closed (ch_info ?g)" using n [OF sent(1), of x] assms(2) by simp_all
    from send_queue_inv [OF this, of "''too many messages,the group message queue is full''"
        "numbered s cm m"]
    show ?thesis using sent(4) n [OF sent(1), of x] by auto
  qed (use assms(1) n in auto)
qed

lemma Publish_cases:
  assumes inv: "chan_inv g" and pub: "Channel_Publish env (PubMessage m) g = Ret (e, g')"
  shows "(e = nil \<longrightarrow>
      \<not> Closed (ch_info g) \<and> pm_Type m \<in> {TypeNotify, TypeMessage} \<and>
      (\<exists>s. map_of (subscribers g) (pm_From m) = Some s \<and> bit (Perm s) 2 \<and>
        (Blocked (ch_info g) \<longrightarrow> bit (Perm s) 8) \<and>
        (Muted (ch_info g) \<longrightarrow> bit (Perm s) 8 \<and> bit (Perm s) 4)) \<and>
      (\<exists>m'. pm_From m' = pm_From m \<and> pm_To m' = pm_To m \<and>
        buf (ch_messages g') = buf (ch_messages g) @ [m'])) \<and>
    (e \<noteq> nil \<longrightarrow> buf (ch_messages g') = buf (ch_messages g)) \<and> chan_inv g'"
proof -
  have sq: "(e = nil \<longrightarrow> buf (ch_messages g') = buf (ch_messages h) @ [x]) \<and>
      (e \<noteq> nil \<longrightarrow> buf (ch_messages g') = buf (ch_messages h)) \<and> chan_inv g'"
    if "chan_inv h" "\<not> Closed (ch_info h)" "send_queue full x h = Ret (e, g')" for h x full
    using send_queue_eq [OF that(1,2), of full x] that chan_inv_send [OF that(1,2)]
    by (auto dest!: checkMsgQueue_pair [OF sym] split: if_splits)
  have en: "(e = nil \<longrightarrow> (\<exists>m'. pm_From m' = pm_From m \<and> pm_To m' = pm_To m \<and>
        buf (ch_messages g') = buf (ch_messages g) @ [m'])) \<and>
      (e \<noteq> nil \<longrightarrow> buf (ch_messages g') = buf (ch_messages g)) \<and> chan_inv g'"
    if open': "\<not> Closed (ch_info g)" and "Channel_enqueue env m g = Ret (e, g')"
    using that(2)
  proof (cases rule: Channel_enqueue_cases)
    case (sent cm s g1 x)
    have g1: "chan_inv (g1\<lparr>stored := x\<rparr>)" "ch_info g1 = ch_info g" "ch_messages g1 = ch_messages g"
      using nextSeq_inv [OF inv, of env] nextSeq_frame [of env g] sent(1) by (simp_all add: chan_inv_def)
    then show ?thesis using sq [OF g1(1) _ sent(4)] open' by (auto simp: numbered_def)
  next
    case no_seq
    then show ?thesis using nextSeq_inv [OF inv, of env] nextSeq_frame [of env g] by simp
  next
    case (not_stored err x g1 s)
    then show ?thesis
      using nextSeq_inv [OF inv, of env] nextSeq_frame [of env g] by (simp add: chan_inv_def)
  qed (use inv in auto)
  show ?thesis
  proof (cases "\<not> Closed (ch_info g) \<and> (pm_Type m = TypeNotify \<or> pm_Type m = TypeMessage)")
    case True
    then show ?thesis
      using pub inv sq [OF inv] en
      by (auto simp: Channel_Publish_def enqueueNotify_def perm_tests TypeNotify_def TypeMessage_def
          split: option.splits if_splits)
  next
    case False
    then show ?thesis
      using pub inv by (auto simp: Channel_Publish_def split: option.splits if_splits)
  qed
qed

text \<open>
  C21: who may publish. When \<open>Publish\<close> reports success, the channel is open, the message is of a
  known type, the sender is a subscriber with the write permission, in a blocked channel a
  system subscriber, in a muted channel both system and administrator; the message was then put
  into the queue as the last element. On every refusal the queue is unchanged.
\<close>
theorem Publish_authorised:
  assumes inv: "chan_inv g" and pub: "Channel_Publish env (PubMessage m) g = Ret (e, g')"
  shows "(e = nil \<longrightarrow>
      \<not> Closed (ch_info g) \<and> pm_Type m \<in> {TypeNotify, TypeMessage} \<and>
      (\<exists>s. map_of (subscribers g) (pm_From m) = Some s \<and> bit (Perm s) 2 \<and>
        (Blocked (ch_info g) \<longrightarrow> bit (Perm s) 8) \<and>
        (Muted (ch_info g) \<longrightarrow> bit (Perm s) 8 \<and> bit (Perm s) 4)) \<and>
      (\<exists>m'. pm_From m' = pm_From m \<and> pm_To m' = pm_To m \<and>
        buf (ch_messages g') = buf (ch_messages g) @ [m'])) \<and>
    (e \<noteq> nil \<longrightarrow> buf (ch_messages g') = buf (ch_messages g)) \<and> chan_inv g'"
  by (rule Publish_cases [OF inv pub])

definition demo_chan :: Channel where
  "demo_chan =
     (projr (NewChannel (demo_chan_env Idle_NextSegmentSequence) ''room''))
       \<lparr>subscribers := [(''alice'', \<lparr>Perm = 6\<rparr>), (''bob'', \<lparr>Perm = 2\<rparr>)]\<rparr>"

lemma demo_chan_inv: "chan_inv demo_chan"
  by (simp add: demo_chan_def NewChannel_def loadSeq_def demo_chan_env_def chan_inv_def
      Idle_NextSegmentSequence_def NewChanInfo_def make_chan_def chan_wf_def)

definition demo_notify :: PublishMessage where
  "demo_notify = \<lparr>pm_From = ''alice'', pm_To = [], pm_Seq = 0, pm_Type = 1,
     pm_Message = Some (NewMessage 0 ActionGroupNotify INil)\<rparr>"

lemma demo_publish:
  "Channel_Publish (demo_chan_env Idle_NextSegmentSequence) (PubMessage demo_notify) demo_chan
     = Ret (nil, demo_chan\<lparr>ch_messages := (ch_messages demo_chan)\<lparr>buf := [demo_notify]\<rparr>, queued := 1,
                           queueRunning := 1, goroutine := QLoop\<rparr>)"
  by (simp add: Channel_Publish_def demo_chan_def NewChannel_def loadSeq_def demo_chan_env_def
      Idle_NextSegmentSequence_def NewChanInfo_def demo_notify_def isValidMessageType_def
      TypeSystem_def TypeNotify_def perm_tests enqueueNotify_def send_queue_def try_send_def
      make_chan_def checkMsgQueue_def)

theorem Publish_authorised_witness:
  "\<exists>g'. Channel_Publish (demo_chan_env Idle_NextSegmentSequence) (PubMessage demo_notify) demo_chan
      = Ret (nil, g') \<and>
    (\<exists>s. map_of (subscribers demo_chan) ''alice'' = Some s \<and> bit (Perm s) 2) \<and> chan_inv g'"
  using Publish_authorised [OF demo_chan_inv demo_publish] demo_publish
  by (auto simp: demo_notify_def)

text \<open>
  A subscriber can raise its own permissions. On a channel with a secret a new subscriber
  needs the ticket for the permissions it asks for, but a subscriber that is already listed gets
  whatever permissions it asks for, with no ticket.
\<close>
theorem Subscribe_ticket:
  assumes "\<not> Closed (ch_info g)" "\<not> Blocked (ch_info g)" "Secret (ch_info g) \<noteq> ''''"
  shows "(map_of (subscribers g) i = None \<longrightarrow>
            so_Ticket so \<noteq> subscribe_ticket env (so_Perm so) i (Secret (ch_info g)) \<longrightarrow>
            Channel_Subscribe env i (ExtraOptions so) g = Ret (Some ''invalid ticket'', g)) \<and>
         (map_of (subscribers g) i = Some s \<longrightarrow>
            Channel_Subscribe env i (ExtraOptions so) g =
              Ret (nil, g\<lparr>subscribers := AList.update i \<lparr>Perm = so_Perm so\<rparr> (subscribers g)\<rparr>))"
  using assms by (cases s) (auto simp: Channel_Subscribe_def getSubscriberOptions_def sub_update_def)

theorem Subscribe_ticket_witness:
  "Channel_Subscribe (demo_chan_env Idle_NextSegmentSequence) ''bob''
     (ExtraOptions \<lparr>so_Perm = 22, so_Ticket = ''''\<rparr>)
     (demo_chan\<lparr>ch_info := (NewChanInfo ''room'' 0)\<lparr>Secret := ''s''\<rparr>\<rparr>) =
   Ret (nil, (demo_chan\<lparr>ch_info := (NewChanInfo ''room'' 0)\<lparr>Secret := ''s''\<rparr>\<rparr>)
     \<lparr>subscribers := [(''alice'', \<lparr>Perm = 6\<rparr>), (''bob'', \<lparr>Perm = 22\<rparr>)]\<rparr>)"
  using Subscribe_ticket [of "demo_chan\<lparr>ch_info := (NewChanInfo ''room'' 0)\<lparr>Secret := ''s''\<rparr>\<rparr>"
      "''bob''" "\<lparr>so_Perm = 22, so_Ticket = ''''\<rparr>" "demo_chan_env Idle_NextSegmentSequence" "\<lparr>Perm = 2\<rparr>"]
  by (simp add: NewChanInfo_def demo_chan_def)


section \<open>Delivery to subscribers\<close>

lemma push_loop_enqueue_all:
  "push_loop enq is m s = bind_outcome (gateway_port.enqueue_all enq is m s) (\<lambda>(_, s'). Ret s')"
  if "gateway_port enq ready online room target sent"
proof (induction "is" arbitrary: s)
  case Nil
  then show ?case by (simp add: gateway_port.enqueue_all.simps [OF that])
next
  case (Cons i "is")
  then show ?case
    by (simp add: gateway_port.enqueue_all.simps [OF that] bind_outcome_assoc case_prod_unfold)
qed

lemma push_targets_members:
  "set (push_targets m g) =
     {NewID2 i |i s. (i, s) \<in> set (subscribers g) \<and> (pm_To m = [] \<or> i \<in> set (pm_To m)) \<and> bit (Perm s) 1}"
  by (auto simp: push_targets_def perm_tests image_iff)

text \<open>
  C22: pushing a message from a channel to the gateway never blocks or fails, and hands it to
  exactly the subscribers that may read, are addressed by the message (all of them when it names no
  receiver), and are online; it changes nothing else of the gateway.
\<close>
theorem push_delivers:
  assumes "\<not> mu s" "length (push_targets m g) \<le> gw_room s" "pm_Message m = Some gm"
  shows "\<exists>s'. push Impl_EnqueueMessage m g s = Ret s' \<and> \<not> mu s' \<and> gw_online s' = gw_online s \<and>
    pool s' = pool s @ map (\<lambda>i. (gw_target s i, gm)) (filter (gw_online s) (push_targets m g)) \<and>
    set (push_targets m g) =
      {NewID2 i |i p. (i, p) \<in> set (subscribers g) \<and> (pm_To m = [] \<or> i \<in> set (pm_To m)) \<and> bit (Perm p) 1}"
  using gwp.enqueue_all_reaches [OF assms(1,2), of gm] assms(3) push_targets_members
  by (auto simp: push_def push_loop_enqueue_all [OF gwp.gateway_port_axioms])

theorem push_delivers_witness:
  "\<exists>s'. push Impl_EnqueueMessage demo_notify demo_chan demo_gateway = Ret s' \<and> \<not> mu s' \<and>
    gw_online s' = gw_online demo_gateway \<and>
    pool s' = pool demo_gateway @
      map (\<lambda>i. (gw_target demo_gateway i, NewMessage 0 ActionGroupNotify INil))
        (filter (gw_online demo_gateway) (push_targets demo_notify demo_chan)) \<and>
    set (push_targets demo_notify demo_chan) =
      {NewID2 i |i p. (i, p) \<in> set (subscribers demo_chan) \<and>
        (pm_To demo_notify = [] \<or> i \<in> set (pm_To demo_notify)) \<and> bit (Perm p) 1}"
proof (rule push_delivers)
  show "\<not> mu demo_gateway" using demo_gateway_simps(1) by (simp add: good_def)
  show "length (push_targets demo_notify demo_chan) \<le> gw_room demo_gateway"
    by (simp add: push_targets_def demo_chan_def perm_tests demo_notify_def gw_room_def demo_gateway_simps)
qed (simp add: demo_notify_def)

section \<open>The goroutine of the queue\<close>

text \<open>
  A channel with the gateway it pushes to. \<open>q_accepted\<close> and \<open>q_pushed\<close> are history: the messages
  that entered the queue and those that were taken out to be pushed.
\<close>
record 's chan_sys =
  q_chan :: Channel
  q_gate :: 's
  q_accepted :: "PublishMessage list"
  q_pushed :: "PublishMessage list"

text \<open>The messages that an operation put into the queue.\<close>
definition new_messages :: "Channel \<Rightarrow> Channel \<Rightarrow> PublishMessage list" where
  "new_messages g g' = drop (length (buf (ch_messages g))) (buf (ch_messages g'))"

text \<open>
  The steps of an open channel. With \<open>patient\<close> the timer of the goroutine fires only when the queue
  is empty; the \<^verbatim>\<open>select\<close> of the source does not promise this, since it chooses among the cases
  that are ready.
\<close>
inductive qstep :: "bool \<Rightarrow> chan_env \<Rightarrow> (ID \<Rightarrow> GlideMessage \<Rightarrow> 's \<Rightarrow> (go_error \<times> 's) outcome) \<Rightarrow>
    's chan_sys \<Rightarrow> 's chan_sys \<Rightarrow> bool" for patient env enq where
  q_publish: "Channel_Publish env (PubMessage m) (q_chan s) = Ret (e, g) \<Longrightarrow>
    qstep patient env enq s (s\<lparr>q_chan := g, q_accepted := q_accepted s @ new_messages (q_chan s) g\<rparr>)"
| q_notify: "enqueueNotify m (q_chan s) = Ret (e, g) \<Longrightarrow>
    qstep patient env enq s (s\<lparr>q_chan := g, q_accepted := q_accepted s @ new_messages (q_chan s) g\<rparr>)"
| q_recv: "goroutine (q_chan s) = QLoop \<Longrightarrow> buf (ch_messages (q_chan s)) = m # ms \<Longrightarrow>
    queue_recv enq now (q_chan s) (q_gate s) = Some (Ret (g, gt)) \<Longrightarrow>
    qstep patient env enq s (s\<lparr>q_chan := g, q_gate := gt, q_pushed := q_pushed s @ [m]\<rparr>)"
| q_timer: "goroutine (q_chan s) = QLoop \<Longrightarrow> (patient \<Longrightarrow> buf (ch_messages (q_chan s)) = []) \<Longrightarrow>
    qstep patient env enq s (s\<lparr>q_chan := queue_timer now (q_chan s)\<rparr>)"
| q_rest: "goroutine (q_chan s) = QRest \<Longrightarrow> queue_rest (q_chan s) = Some g \<Longrightarrow>
    qstep patient env enq s (s\<lparr>q_chan := g\<rparr>)"

inductive qreach :: "bool \<Rightarrow> chan_env \<Rightarrow> (ID \<Rightarrow> GlideMessage \<Rightarrow> 's \<Rightarrow> (go_error \<times> 's) outcome) \<Rightarrow>
    's chan_sys \<Rightarrow> 's chan_sys \<Rightarrow> bool" for patient env enq s where
  q_refl: "qreach patient env enq s s"
| q_step: "qreach patient env enq s t \<Longrightarrow> qstep patient env enq t u \<Longrightarrow> qreach patient env enq s u"

text \<open>What queueing a message does to the queue, its counter and the goroutine.\<close>
definition queues :: "Channel \<Rightarrow> Channel \<Rightarrow> bool" where
  "queues g g' =
     (chan_inv g' \<and> ch_info g' = ch_info g \<and>
      (buf (ch_messages g') = buf (ch_messages g) \<and> queued g' = queued g \<and> goroutine g' = goroutine g \<or>
       (\<exists>m. buf (ch_messages g') = buf (ch_messages g) @ [m] \<and> queued g' = queued g + 1 \<and>
          goroutine g' = (if goroutine g = QNone then QLoop else goroutine g))))"

lemma queues_refl: "chan_inv g \<Longrightarrow> queues g g"
  by (simp add: queues_def)

lemma send_queue_queues:
  assumes "chan_inv g" "\<not> Closed (ch_info g)" "send_queue full m g = Ret (e, g')"
  shows "queues g g'"
proof (cases "length (buf (ch_messages g)) < cap (ch_messages g)")
  case True
  let ?h = "g\<lparr>ch_messages := (ch_messages g)\<lparr>buf := buf (ch_messages g) @ [m]\<rparr>, queued := queued g + 1\<rparr>"
  have h: "chan_inv ?h" using assms(1,2) True by (auto simp: chan_inv_def chan_wf_def)
  have "(e, g') = checkMsgQueue ?h" using send_queue_eq [OF assms(1,2), of full m] assms(3) True by simp
  then have "g' = snd (checkMsgQueue ?h)" by (metis snd_conv)
  then show ?thesis
    using checkMsgQueue_inv [OF h] checkMsgQueue_goroutine [OF h] by (simp add: queues_def)
next
  case False
  then show ?thesis using send_queue_eq [OF assms(1,2), of full m] assms(3,1) by (simp add: queues_refl)
qed

lemma queues_frame:
  assumes "queues h g'" "chan_inv g" "ch_messages h = ch_messages g" "queued h = queued g"
    "goroutine h = goroutine g" "ch_info h = ch_info g"
  shows "queues g g'"
  using assms by (auto simp: queues_def)

lemma enqueue_queues:
  assumes "chan_inv g" "\<not> Closed (ch_info g)" "Channel_enqueue env m g = Ret (e, g')"
  shows "queues g g'"
proof -
  have f: "chan_inv (g1\<lparr>stored := x\<rparr>)" "ch_messages g1 = ch_messages g" "queued g1 = queued g"
    "goroutine g1 = goroutine g" "ch_info g1 = ch_info g" if "nextSeq env g = (r, g1)" for r g1 x
    using nextSeq_inv [OF assms(1), of env] nextSeq_frame [of env g] that by (simp_all add: chan_inv_def)
  from assms(3) show ?thesis
  proof (cases rule: Channel_enqueue_cases)
    case no_seq
    then show ?thesis using nextSeq_inv [OF assms(1), of env] nextSeq_frame [of env g]
      by (simp add: queues_def)
  next
    case (not_stored err x g1 s)
    then show ?thesis using f(1) [OF not_stored(2), of x] f(2-5) [OF not_stored(2)]
      by (simp add: queues_def)
  next
    case (sent cm s g1 x)
    note F = f(1) [OF sent(1), of x] f(2-5) [OF sent(1)]
    have "queues (g1\<lparr>stored := x\<rparr>) g'" using sent(4) F assms(2) by (intro send_queue_queues) auto
    then show ?thesis by (rule queues_frame) (use assms(1) F in simp_all)
  qed (use assms(1) queues_refl in auto)
qed

lemma Publish_queues:
  assumes "chan_inv g" "Channel_Publish env (PubMessage m) g = Ret (e, g')"
  shows "queues g g'"
proof (cases "Closed (ch_info g)")
  case True
  then show ?thesis using assms queues_refl by (simp add: Channel_Publish_def)
next
  case False
  then show ?thesis
    using assms queues_refl [OF assms(1)] send_queue_queues [OF assms(1) False]
      enqueue_queues [OF assms(1) False]
    by (auto simp: Channel_Publish_def enqueueNotify_def split: option.splits if_splits)
qed

lemma enqueueNotify_queues:
  assumes "chan_inv g" "\<not> Closed (ch_info g)" "enqueueNotify m g = Ret (e, g')"
  shows "queues g g'"
  using send_queue_queues assms unfolding enqueueNotify_def by blast

lemma queue_recv_eq:
  "buf (ch_messages g) = m # ms \<Longrightarrow> queue_recv enq now g s = Some (Ret (g', s')) \<Longrightarrow>
     push enq m (g\<lparr>ch_messages := (ch_messages g)\<lparr>buf := ms\<rparr>, queued := queued g - 1, activeAt := now\<rparr>) s = Ret s' \<and>
     g' = g\<lparr>ch_messages := (ch_messages g)\<lparr>buf := ms\<rparr>, queued := queued g - 1, activeAt := now\<rparr>"
  by (auto simp: queue_recv_def try_recv_def Let_def bind_outcome_eq_Ret)

text \<open>The invariant while the timer is patient.\<close>
definition flow_inv :: "'s chan_sys \<Rightarrow> bool" where
  "flow_inv s =
     (chan_inv (q_chan s) \<and> \<not> Closed (ch_info (q_chan s)) \<and>
      q_accepted s = q_pushed s @ buf (ch_messages (q_chan s)) \<and>
      queued (q_chan s) = int (length (buf (ch_messages (q_chan s)))) \<and>
      goroutine (q_chan s) \<noteq> QRest \<and>
      (buf (ch_messages (q_chan s)) \<noteq> [] \<longrightarrow> goroutine (q_chan s) = QLoop))"

lemma flow_inv_queues:
  assumes "flow_inv s" "queues (q_chan s) g"
  shows "flow_inv (s\<lparr>q_chan := g, q_accepted := q_accepted s @ new_messages (q_chan s) g\<rparr>)"
  using assms by (cases "goroutine (q_chan s)") (auto simp: flow_inv_def queues_def new_messages_def)

lemma qstep_flow_inv:
  assumes "qstep True env enq s t" "flow_inv s" shows "flow_inv t"
  using assms
proof (cases rule: qstep.cases)
  case (q_publish m e g)
  then show ?thesis using assms(2) Publish_queues flow_inv_queues by (metis flow_inv_def)
next
  case (q_notify m e g)
  then show ?thesis using assms(2) enqueueNotify_queues flow_inv_queues by (metis flow_inv_def)
next
  case (q_recv m ms now g gt)
  then show ?thesis using assms(2) queue_recv_eq [OF q_recv(3,4)]
    by (auto simp: flow_inv_def chan_inv_def chan_wf_def)
next
  case (q_timer now)
  then show ?thesis using assms(2)
    by (auto simp: flow_inv_def queue_timer_def queue_goto_rest_def queue_stop_def chan_inv_def)
next
  case (q_rest g)
  then show ?thesis using assms(2) by (simp add: flow_inv_def)
qed

lemma qreach_flow_inv: "qreach True env enq s t \<Longrightarrow> flow_inv s \<Longrightarrow> flow_inv t"
  by (induction rule: qreach.induct) (auto intro: qstep_flow_inv)

definition start_chan :: "Channel \<Rightarrow> 's \<Rightarrow> 's chan_sys" where
  "start_chan g s = \<lparr>q_chan = g, q_gate = s, q_accepted = [], q_pushed = []\<rparr>"

text \<open>A channel as \<open>NewChannel\<close> returns it, with any subscribers and settings.\<close>
definition fresh_chan :: "Channel \<Rightarrow> bool" where
  "fresh_chan g = (chan_inv g \<and> \<not> Closed (ch_info g) \<and> buf (ch_messages g) = [] \<and> queued g = 0 \<and>
     goroutine g = QNone)"

lemma start_flow_inv: "fresh_chan g \<Longrightarrow> flow_inv (start_chan g s)"
  by (simp add: flow_inv_def fresh_chan_def start_chan_def)

lemma fresh_demo_chan: "fresh_chan demo_chan"
  using demo_chan_inv
  by (simp add: fresh_chan_def demo_chan_def NewChannel_def loadSeq_def demo_chan_env_def
      Idle_NextSegmentSequence_def NewChanInfo_def make_chan_def)


abbreviation demo_env_c :: chan_env where
  "demo_env_c \<equiv> demo_chan_env Idle_NextSegmentSequence"

definition demo_queued :: "gateway chan_sys" where
  "demo_queued = (start_chan demo_chan demo_gateway)
     \<lparr>q_chan := demo_chan\<lparr>ch_messages := (ch_messages demo_chan)\<lparr>buf := [demo_notify]\<rparr>, queued := 1,
                           queueRunning := 1, goroutine := QLoop\<rparr>,
      q_accepted := [demo_notify]\<rparr>"

lemma demo_chan_empty: "buf (ch_messages demo_chan) = []" "activeAt demo_chan = 0"
  by (simp_all add: demo_chan_def NewChannel_def loadSeq_def demo_chan_env_def
      Idle_NextSegmentSequence_def make_chan_def)

lemma demo_queued_reach:
  "qreach p demo_env_c Impl_EnqueueMessage (start_chan demo_chan demo_gateway) demo_queued"
proof -
  let ?g = "demo_chan\<lparr>ch_messages := (ch_messages demo_chan)\<lparr>buf := [demo_notify]\<rparr>, queued := 1,
                      queueRunning := 1, goroutine := QLoop\<rparr>"
  have p: "Channel_Publish demo_env_c (PubMessage demo_notify) (q_chan (start_chan demo_chan demo_gateway))
      = Ret (nil, ?g)"
    using demo_publish by (simp add: start_chan_def)
  have "demo_queued = (start_chan demo_chan demo_gateway)\<lparr>q_chan := ?g,
      q_accepted := q_accepted (start_chan demo_chan demo_gateway) @
        new_messages (q_chan (start_chan demo_chan demo_gateway)) ?g\<rparr>"
    by (simp add: demo_queued_def start_chan_def new_messages_def demo_chan_empty)
  with q_step [OF q_refl qstep.q_publish [OF p]] show ?thesis by simp
qed


text \<open>Once the goroutine is in its emptying loop, an open channel stays there.\<close>
definition dead_inv :: "'s chan_sys \<Rightarrow> 's chan_sys \<Rightarrow> bool" where
  "dead_inv s t =
     (chan_inv (q_chan t) \<and> \<not> Closed (ch_info (q_chan t)) \<and> goroutine (q_chan t) = QRest \<and>
      q_pushed t = q_pushed s \<and> q_gate t = q_gate s)"

lemma qstep_dead_inv:
  assumes "qstep p env enq t u" "dead_inv s t" shows "dead_inv s u"
  using assms
proof (cases rule: qstep.cases)
  case (q_publish m e g)
  then have "queues (q_chan t) g" using Publish_queues assms(2) by (auto simp: dead_inv_def)
  then show ?thesis using q_publish assms(2) by (auto simp: dead_inv_def queues_def)
next
  case (q_notify m e g)
  then have "queues (q_chan t) g" using enqueueNotify_queues assms(2) by (auto simp: dead_inv_def)
  then show ?thesis using q_notify assms(2) by (auto simp: dead_inv_def queues_def)
next
  case (q_rest g)
  then show ?thesis using assms(2)
    by (auto simp: dead_inv_def queue_rest_def try_recv_def chan_inv_def chan_wf_def
        split: list.splits if_splits)
qed (use assms(2) in \<open>auto simp: dead_inv_def\<close>)

lemma qreach_dead_inv: "qreach p env enq t u \<Longrightarrow> dead_inv s t \<Longrightarrow> dead_inv s u"
  by (induction rule: qreach.induct) (auto intro: qstep_dead_inv)

lemma qreach_trans: "qreach p env enq s t \<Longrightarrow> qreach p env enq t u \<Longrightarrow> qreach p env enq s u"
  by (rotate_tac, induction rule: qreach.induct) (auto intro: q_step)



end
