(* ===== verification/Subscription.thy ===== *)
theory Subscription
  imports Channel
begin

text \<open>
  The subscription service (\<^verbatim>\<open>subscription_impl/subscription.go\<close>, \<^verbatim>\<open>wrap.go\<close>,
  \<^verbatim>\<open>pkg/subscription/interface.go\<close>) and its client, the world channel
  (\<^verbatim>\<open>internal/world_channel/world_channel.go\<close>).

  \<^verbatim>\<open>realSubscription\<close> keeps the channels by identifier; \<^verbatim>\<open>subscriptionImpl\<close> applies lists of
  updates to it; \<^verbatim>\<open>wrap\<close> turns the flat interface back into such lists. The flat interface
  \<^verbatim>\<open>SubscribeWrap\<close> is a locale with the laws its clients rely on; both \<^verbatim>\<open>realSubscription\<close> and
  \<^verbatim>\<open>wrap\<close> are shown to be instances of it. Locks are not represented here: every operation takes
  the lock of the service once and none calls back into it.
\<close>

section \<open>The service\<close>

definition SubscriberSubscribe :: int where "SubscriberSubscribe = 1"
definition SubscriberUnsubscribe :: int where "SubscriberUnsubscribe = 2"
definition SubscriberUpdate :: int where "SubscriberUpdate = 5"
definition ChanCreate :: int where "ChanCreate = 1"
definition ChanDelete :: int where "ChanDelete = 2"
definition ChanUpdate :: int where "ChanUpdate = 3"
definition ErrUnknownFlag :: string where "ErrUnknownFlag = ''unknown flag''"

record Update =
  u_Flag :: int
  u_ID :: SubscriberID
  u_Extra :: extra

record ChannelUpdate =
  cu_Flag :: int
  cu_Extra :: extra

record realSubscription =
  channels :: "ChanID \<Rightarrow> Channel option"

definition newRealSubscription :: realSubscription where
  "newRealSubscription = \<lparr>channels = (\<lambda>_. None)\<rparr>"

type_synonym sub_result = "(go_error \<times> realSubscription) outcome"

definition set_channel :: "ChanID \<Rightarrow> Channel \<Rightarrow> realSubscription \<Rightarrow> realSubscription" where
  "set_channel c g u = u\<lparr>channels := (channels u)(c := Some g)\<rparr>"

text \<open>An operation of a channel, applied to the channel \<open>c\<close> of the service.\<close>
definition on_channel ::
    "ChanID \<Rightarrow> (Channel \<Rightarrow> (go_error \<times> Channel) outcome) \<Rightarrow> realSubscription \<Rightarrow> sub_result" where
  "on_channel c f u =
     (case channels u c of
        None \<Rightarrow> Ret (Some ErrChanNotExist, u)
      | Some ch \<Rightarrow> bind_outcome (f ch) (\<lambda>(e, ch'). Ret (e, set_channel c ch' u)))"

definition real_Subscribe :: "chan_env \<Rightarrow> ChanID \<Rightarrow> SubscriberID \<Rightarrow> extra \<Rightarrow> realSubscription \<Rightarrow> sub_result" where
  "real_Subscribe env c i ex u = on_channel c (Channel_Subscribe env i ex) u"

definition real_UnSubscribe :: "ChanID \<Rightarrow> SubscriberID \<Rightarrow> realSubscription \<Rightarrow> sub_result" where
  "real_UnSubscribe c i u = on_channel c (Channel_Unsubscribe i) u"

definition real_UpdateSubscriber ::
    "chan_env \<Rightarrow> ChanID \<Rightarrow> SubscriberID \<Rightarrow> extra \<Rightarrow> realSubscription \<Rightarrow> sub_result" where
  "real_UpdateSubscriber env c i ex u = on_channel c (Channel_Subscribe env i ex) u"

definition real_RemoveChannel :: "ChanID \<Rightarrow> realSubscription \<Rightarrow> sub_result" where
  "real_RemoveChannel c u =
     (case channels u c of
        None \<Rightarrow> Ret (Some ErrChanNotExist, u)
      | Some _ \<Rightarrow> Ret (nil, u\<lparr>channels := (channels u)(c := None)\<rparr>))"

definition real_CreateChannel :: "chan_env \<Rightarrow> ChanID \<Rightarrow> ChanInfo \<Rightarrow> realSubscription \<Rightarrow> sub_result" where
  "real_CreateChannel env c ci u =
     (if channels u c \<noteq> None then Ret (Some ErrChanAlreadyExists, u)
      else case NewChannel env c of
             Inl e \<Rightarrow> Ret (Some e, u)
           | Inr ch \<Rightarrow>
               (case Channel_Update ci ch of
                  (Some e, _) \<Rightarrow> Ret (Some e, u)
                | (None, ch') \<Rightarrow> Ret (nil, set_channel c ch' u)))"

definition real_UpdateChannel :: "ChanID \<Rightarrow> ChanInfo \<Rightarrow> realSubscription \<Rightarrow> sub_result" where
  "real_UpdateChannel c ci u = on_channel c (\<lambda>ch. Ret (Channel_Update ci ch)) u"

definition real_Publish :: "chan_env \<Rightarrow> ChanID \<Rightarrow> pub_arg \<Rightarrow> realSubscription \<Rightarrow> sub_result" where
  "real_Publish env c m u = on_channel c (Channel_Publish env m) u"


section \<open>Lists of updates\<close>

text \<open>The loop of \<^verbatim>\<open>UpdateSubscriber\<close>; \<open>Inl\<close> when it returns at an unknown flag.\<close>
fun UpdateSubscriber_loop ::
    "chan_env \<Rightarrow> ChanID \<Rightarrow> Update list \<Rightarrow> string list \<Rightarrow> realSubscription \<Rightarrow>
     ((string + string list) \<times> realSubscription) outcome" where
  "UpdateSubscriber_loop env c [] errs u = Ret (Inr errs, u)"
| "UpdateSubscriber_loop env c (up # ups) errs u =
     (if u_Flag up \<notin> {SubscriberSubscribe, SubscriberUnsubscribe, SubscriberUpdate}
      then Ret (Inl ErrUnknownFlag, u)
      else bind_outcome
             (if u_Flag up = SubscriberSubscribe then real_Subscribe env c (u_ID up) (u_Extra up) u
              else if u_Flag up = SubscriberUnsubscribe then real_UnSubscribe c (u_ID up) u
              else real_UpdateSubscriber env c (u_ID up) (u_Extra up) u)
             (\<lambda>(e, u'). UpdateSubscriber_loop env c ups
                          (case e of None \<Rightarrow> errs | Some m \<Rightarrow> errs @ [m]) u'))"

definition join_errors :: "string list \<Rightarrow> string" where
  "join_errors errs = concat (map (\<lambda>e. e @ [CHR 0x0A]) errs)"

definition impl_UpdateSubscriber ::
    "chan_env \<Rightarrow> ChanID \<Rightarrow> Update list \<Rightarrow> realSubscription \<Rightarrow> sub_result" where
  "impl_UpdateSubscriber env c ups u =
     bind_outcome (UpdateSubscriber_loop env c ups [] u) (\<lambda>(r, u').
       case r of
         Inl e \<Rightarrow> Ret (Some e, u')
       | Inr errs \<Rightarrow> (if length errs = 0 then Ret (nil, u') else Ret (Some (join_errors errs), u')))"

definition impl_UpdateChannel :: "chan_env \<Rightarrow> ChanID \<Rightarrow> ChannelUpdate \<Rightarrow> realSubscription \<Rightarrow> sub_result" where
  "impl_UpdateChannel env c up u =
     (if cu_Flag up = ChanCreate then
        (case cu_Extra up of
           ExtraChanInfo ci \<Rightarrow> real_CreateChannel env c ci u
         | _ \<Rightarrow> Ret (Some ''invalid channel info'', u))
      else if cu_Flag up = ChanUpdate then
        (case cu_Extra up of
           ExtraChanInfo ci \<Rightarrow> real_UpdateChannel c ci u
         | _ \<Rightarrow> Ret (Some ''invalid channel info'', u))
      else if cu_Flag up = ChanDelete then real_RemoveChannel c u
      else Ret (Some ErrUnknownFlag, u))"

definition impl_PublishMessage :: "chan_env \<Rightarrow> ChanID \<Rightarrow> pub_arg \<Rightarrow> realSubscription \<Rightarrow> sub_result" where
  "impl_PublishMessage env c m u = real_Publish env c m u"


section \<open>The wrapper\<close>

definition wrap_Subscribe :: "chan_env \<Rightarrow> ChanID \<Rightarrow> SubscriberID \<Rightarrow> extra \<Rightarrow> realSubscription \<Rightarrow> sub_result" where
  "wrap_Subscribe env c i ex u =
     impl_UpdateSubscriber env c [\<lparr>u_Flag = SubscriberSubscribe, u_ID = i, u_Extra = ex\<rparr>] u"

definition wrap_UnSubscribe :: "chan_env \<Rightarrow> ChanID \<Rightarrow> SubscriberID \<Rightarrow> realSubscription \<Rightarrow> sub_result" where
  "wrap_UnSubscribe env c i u =
     impl_UpdateSubscriber env c [\<lparr>u_Flag = SubscriberUnsubscribe, u_ID = i, u_Extra = ExtraNil\<rparr>] u"

definition wrap_UpdateSubscriber ::
    "chan_env \<Rightarrow> ChanID \<Rightarrow> SubscriberID \<Rightarrow> extra \<Rightarrow> realSubscription \<Rightarrow> sub_result" where
  "wrap_UpdateSubscriber env c i ex u =
     impl_UpdateSubscriber env c [\<lparr>u_Flag = SubscriberUpdate, u_ID = i, u_Extra = ex\<rparr>] u"

definition wrap_RemoveChannel :: "chan_env \<Rightarrow> ChanID \<Rightarrow> realSubscription \<Rightarrow> sub_result" where
  "wrap_RemoveChannel env c u =
     impl_UpdateChannel env c \<lparr>cu_Flag = ChanDelete, cu_Extra = ExtraNil\<rparr> u"

definition wrap_CreateChannel :: "chan_env \<Rightarrow> ChanID \<Rightarrow> ChanInfo \<Rightarrow> realSubscription \<Rightarrow> sub_result" where
  "wrap_CreateChannel env c ci u =
     impl_UpdateChannel env c \<lparr>cu_Flag = ChanCreate, cu_Extra = ExtraChanInfo ci\<rparr> u"

definition wrap_UpdateChannel :: "chan_env \<Rightarrow> ChanID \<Rightarrow> ChanInfo \<Rightarrow> realSubscription \<Rightarrow> sub_result" where
  "wrap_UpdateChannel env c ci u =
     impl_UpdateChannel env c \<lparr>cu_Flag = ChanUpdate, cu_Extra = ExtraChanInfo ci\<rparr> u"

definition wrap_Publish :: "chan_env \<Rightarrow> ChanID \<Rightarrow> pub_arg \<Rightarrow> realSubscription \<Rightarrow> sub_result" where
  "wrap_Publish env c m u = impl_PublishMessage env c m u"


section \<open>The world channel\<close>

definition world_chanId :: ChanID where
  "world_chanId = ''the_world_channel''"

definition EnableWorldChannel :: "chan_env \<Rightarrow> realSubscription \<Rightarrow> sub_result" where
  "EnableWorldChannel env u =
     bind_outcome (wrap_CreateChannel env world_chanId (NewChanInfo world_chanId 0) u) (\<lambda>(e, u1).
       if e \<noteq> nil then Ret (e, u1)
       else wrap_Subscribe env world_chanId ''system''
              (ExtraOptions \<lparr>so_Perm = PermWrite, so_Ticket = ''''\<rparr>) u1)"

text \<open>The chat message of the system; \<open>nano\<close> and \<open>sec\<close> are the current time.\<close>
definition system_chat :: "int \<Rightarrow> int \<Rightarrow> int \<Rightarrow> string \<Rightarrow> ChatMessage" where
  "system_chat nano sec t content =
     \<lparr>cm_CliMid = '''', cm_Mid = nano, cm_Seq = 0, cm_From = ''system'', cm_To = world_chanId,
      cm_Type = t, cm_Content = content, cm_SendAt = sec\<rparr>"

definition system_publish :: "SubscriberID list \<Rightarrow> iface \<Rightarrow> pub_arg" where
  "system_publish to d =
     PubMessage \<lparr>pm_From = ''system'', pm_To = to, pm_Seq = 0, pm_Type = TypeMessage,
                 pm_Message = Some (NewMessage 0 ActionGroupMessage d)\<rparr>"

definition OnUserOnline :: "chan_env \<Rightarrow> int \<Rightarrow> int \<Rightarrow> ID \<Rightarrow> realSubscription \<Rightarrow> realSubscription outcome" where
  "OnUserOnline env nano sec i u =
     (if IsTemp i then Ret u
      else let myId = UID i
           in bind_outcome (wrap_Subscribe env world_chanId myId
                  (ExtraOptions \<lparr>so_Perm = PermRead OR PermWrite, so_Ticket = ''''\<rparr>) u) (\<lambda>(e, u1).
              if e \<noteq> nil then Ret u1
              else let b = Ptr (SChat (system_chat nano sec 100 (UID i)))
                   in bind_outcome (wrap_Publish env world_chanId (system_publish [] b) u1) (\<lambda>(_, u2).
                      bind_outcome (wrap_Publish env world_chanId (system_publish [myId] b) u2) (\<lambda>(_, u3).
                      Ret u3))))"

text \<open>\<open>marshal\<close> is the JSON encoder; its error is ignored and leaves nil bytes.\<close>
definition OnUserOffline ::
    "chan_env \<Rightarrow> (ChatMessage \<Rightarrow> string + bytes) \<Rightarrow> int \<Rightarrow> int \<Rightarrow> ID \<Rightarrow> realSubscription \<Rightarrow> realSubscription outcome" where
  "OnUserOffline env marshal nano sec i u =
     (if IsTemp i then Ret u
      else bind_outcome (wrap_UnSubscribe env world_chanId (UID i) u) (\<lambda>(_, u1).
           let b = (case marshal (system_chat nano sec 101 (UID i)) of Inl _ \<Rightarrow> [] | Inr bs \<Rightarrow> bs)
           in bind_outcome (wrap_Publish env world_chanId (system_publish [] (IBytes b)) u1) (\<lambda>(_, u2).
              Ret u2)))"

section \<open>The interface\<close>

text \<open>
  \<^verbatim>\<open>SubscribeWrap\<close>: which channels exist (\<open>has\<close>), and the permission a subscriber has in a
  channel (\<open>member\<close>).
\<close>
locale subscribe_wrap =
  fixes wf :: "'s \<Rightarrow> bool"
    and has :: "'s \<Rightarrow> ChanID \<Rightarrow> bool"
    and member :: "'s \<Rightarrow> ChanID \<Rightarrow> SubscriberID \<Rightarrow> Permission option"
    and create :: "ChanID \<Rightarrow> ChanInfo \<Rightarrow> 's \<Rightarrow> (go_error \<times> 's) outcome"
    and remove :: "ChanID \<Rightarrow> 's \<Rightarrow> (go_error \<times> 's) outcome"
    and subscribe :: "ChanID \<Rightarrow> SubscriberID \<Rightarrow> extra \<Rightarrow> 's \<Rightarrow> (go_error \<times> 's) outcome"
    and unsubscribe :: "ChanID \<Rightarrow> SubscriberID \<Rightarrow> 's \<Rightarrow> (go_error \<times> 's) outcome"
    and publish :: "ChanID \<Rightarrow> pub_arg \<Rightarrow> 's \<Rightarrow> (go_error \<times> 's) outcome"
  assumes create_law: "wf s \<Longrightarrow> create c ci s = Ret (e, s') \<Longrightarrow>
      wf s' \<and> (if e = nil then \<not> has s c \<and> has s' = (has s)(c := True) \<and> member s' = (member s)(c := \<lambda>_. None)
               else has s' = has s \<and> member s' = member s)"
    and remove_law: "wf s \<Longrightarrow> \<exists>e s'. remove c s = Ret (e, s') \<and> wf s' \<and> (e = nil \<longleftrightarrow> has s c) \<and>
      has s' = (has s)(c := False) \<and> member s' = (member s)(c := \<lambda>_. None)"
    and subscribe_law: "wf s \<Longrightarrow> subscribe c i ex s = Ret (e, s') \<Longrightarrow>
      wf s' \<and> has s' = has s \<and>
      (if e = nil then has s c \<and> (\<exists>so. ex = ExtraOptions so \<and>
         member s' = (member s)(c := (member s c)(i := Some (so_Perm so))))
       else member s' = member s)"
    and unsubscribe_law: "wf s \<Longrightarrow> \<exists>e s'. unsubscribe c i s = Ret (e, s') \<and> wf s' \<and> has s' = has s \<and>
      (e = nil \<longleftrightarrow> member s c i \<noteq> None) \<and> member s' = (member s)(c := (member s c)(i := None))"
    and publish_law: "wf s \<Longrightarrow> publish c (PubMessage m) s = Ret (e, s') \<Longrightarrow>
      wf s' \<and> has s' = has s \<and> member s' = member s \<and>
      (e = nil \<longrightarrow> (\<exists>p. member s c (pm_From m) = Some p \<and> bit p 2))"
begin

text \<open>Leaving undoes joining.\<close>
lemma subscribe_unsubscribe:
  assumes "wf s" "member s c i = None" "subscribe c i ex s = Ret (nil, s1)"
  shows "\<exists>s2. unsubscribe c i s1 = Ret (nil, s2) \<and> member s2 = member s \<and> has s2 = has s \<and> wf s2"
proof -
  have "wf s1 \<and> has s1 = has s \<and> (\<exists>so :: SubscriberOptions. member s1 = (member s)(c := (member s c)(i := Some (so_Perm so))))"
    using subscribe_law [OF assms(1,3)] by auto
  then obtain so :: SubscriberOptions where s1: "wf s1" "has s1 = has s"
    "member s1 = (member s)(c := (member s c)(i := Some (so_Perm so)))" by blast
  obtain e s2 where s2: "unsubscribe c i s1 = Ret (e, s2)" "wf s2" "has s2 = has s1"
    "e = nil \<longleftrightarrow> member s1 c i \<noteq> None" "member s2 = (member s1)(c := (member s1 c)(i := None))"
    using unsubscribe_law [OF s1(1), of c i] by blast
  have "member s2 = member s" using s2(5) s1(3) assms(2) by (auto simp: fun_eq_iff)
  then show ?thesis using s2 s1 by simp
qed

text \<open>After it left, nobody publishes in its name.\<close>
lemma unsubscribed_cannot_publish:
  assumes "wf s" "unsubscribe c i s = Ret (e, s1)" "pm_From m = i" "publish c (PubMessage m) s1 = Ret (e2, s2)"
  shows "e2 \<noteq> nil"
proof -
  have "wf s1" "member s1 c i = None" using unsubscribe_law [OF assms(1), of c i] assms(2) by auto
  then show ?thesis using publish_law [OF _ assms(4)] assms(3) by auto
qed

text \<open>A removed channel is gone until it is created again, and then it is empty.\<close>
lemma remove_create_empty:
  assumes "wf s" "remove c s = Ret (e, s1)" "create c ci s1 = Ret (nil, s2)"
  shows "has s2 = (has s)(c := True) \<and> member s2 c = (\<lambda>_. None) \<and> (\<forall>d. d \<noteq> c \<longrightarrow> member s2 d = member s d)"
proof -
  have s1: "wf s1" "has s1 = (has s)(c := False)" "member s1 = (member s)(c := \<lambda>_. None)"
    using remove_law [OF assms(1), of c] assms(2) by auto
  then show ?thesis using create_law [OF s1(1) assms(3)] by auto
qed

end

section \<open>Instances\<close>

definition sub_inv :: "realSubscription \<Rightarrow> bool" where
  "sub_inv u = (\<forall>c ch. channels u c = Some ch \<longrightarrow> chan_inv ch)"

definition sub_has :: "realSubscription \<Rightarrow> ChanID \<Rightarrow> bool" where
  "sub_has u c = (channels u c \<noteq> None)"

definition sub_member :: "realSubscription \<Rightarrow> ChanID \<Rightarrow> SubscriberID \<Rightarrow> Permission option" where
  "sub_member u c i =
     (case channels u c of None \<Rightarrow> None | Some ch \<Rightarrow> map_option Perm (map_of (subscribers ch) i))"

lemma sub_has_set [simp]: "sub_has (set_channel c ch u) = (sub_has u)(c := True)"
  by (auto simp: sub_has_def set_channel_def fun_eq_iff)

lemma sub_member_set [simp]:
  "sub_member (set_channel c ch u) = (sub_member u)(c := \<lambda>i. map_option Perm (map_of (subscribers ch) i))"
  by (auto simp: sub_member_def set_channel_def fun_eq_iff)

lemma sub_inv_set: "sub_inv u \<Longrightarrow> chan_inv ch \<Longrightarrow> sub_inv (set_channel c ch u)"
  by (auto simp: sub_inv_def set_channel_def)

text \<open>An operation on a channel that keeps the invariant.\<close>
lemma on_channel_cases:
  assumes "on_channel c f u = Ret (e, u')" "sub_inv u"
  obtains (missing) "channels u c = None" "e = Some ErrChanNotExist" "u' = u"
  | (found) ch ch' where "channels u c = Some ch" "chan_inv ch" "f ch = Ret (e, ch')"
      "u' = set_channel c ch' u"
  using assms by (auto simp: on_channel_def bind_outcome_eq_Ret sub_inv_def split: option.splits)

lemma sub_has_found: "channels u c = Some ch \<Longrightarrow> (sub_has u)(c := True) = sub_has u"
  by (auto simp: sub_has_def fun_eq_iff)

lemma sub_member_found:
  "channels u c = Some ch \<Longrightarrow> sub_member u c = (\<lambda>i. map_option Perm (map_of (subscribers ch) i))"
  by (auto simp: sub_member_def)

lemma NewChannel_inv:
  "NewChannel env c = Inr ch \<Longrightarrow> chan_inv ch \<and> subscribers ch = []"
  by (auto simp: NewChannel_def loadSeq_def Let_def chan_inv_def NewChanInfo_def make_chan_def
      chan_wf_def split: sum.splits prod.splits option.splits)

lemma real_Subscribe_law:
  assumes "sub_inv u" "real_Subscribe env c i ex u = Ret (e, u')"
  shows "sub_inv u' \<and> sub_has u' = sub_has u \<and>
    (if e = nil then sub_has u c \<and> (\<exists>so. ex = ExtraOptions so \<and>
       sub_member u' = (sub_member u)(c := (sub_member u c)(i := Some (so_Perm so))))
     else sub_member u' = sub_member u)"
  using assms(2) [unfolded real_Subscribe_def] assms(1)
proof (cases rule: on_channel_cases)
  case (found ch ch')
  note I = Channel_Subscribe_inv [OF found(2,3)]
  have "sub_member u' = sub_member u" if "e \<noteq> nil"
  proof -
    have "subscribers ch' = subscribers ch" using found(3) that
      by (auto simp: Channel_Subscribe_def getSubscriberOptions_def nil_dereference_def Let_def
          bind_outcome_eq_Ret split: extra.splits if_splits option.splits sum.splits)
    then show ?thesis using found by (auto simp: sub_member_found)
  qed
  moreover have "\<exists>so. ex = ExtraOptions so \<and>
      sub_member u' = (sub_member u)(c := (sub_member u c)(i := Some (so_Perm so)))" if ok: "e = nil"
  proof -
    obtain so where "ex = ExtraOptions so" "map_of (subscribers ch') i = Some \<lparr>Perm = so_Perm so\<rparr>"
      "\<forall>j. j \<noteq> i \<longrightarrow> map_of (subscribers ch') j = map_of (subscribers ch) j"
      using I ok by blast
    then show ?thesis using found by (auto simp: sub_member_found fun_eq_iff)
  qed
  ultimately show ?thesis using found I assms(1) by (auto simp: sub_inv_set sub_has_found sub_has_def)
qed (use assms(1) in auto)

lemma real_UnSubscribe_law:
  assumes "sub_inv u"
  shows "\<exists>e u'. real_UnSubscribe c i u = Ret (e, u') \<and> sub_inv u' \<and> sub_has u' = sub_has u \<and>
    (e = nil \<longleftrightarrow> sub_member u c i \<noteq> None) \<and>
    sub_member u' = (sub_member u)(c := (sub_member u c)(i := None))"
proof (cases "channels u c")
  case None
  then show ?thesis using assms
    by (auto simp: real_UnSubscribe_def on_channel_def sub_member_def fun_eq_iff)
next
  case (Some ch)
  then have "chan_inv ch" using assms by (auto simp: sub_inv_def)
  then obtain e ch' where c: "Channel_Unsubscribe i ch = Ret (e, ch')" "chan_inv ch'"
    "e = nil \<longleftrightarrow> map_of (subscribers ch) i \<noteq> None"
    "map_of (subscribers ch') = (map_of (subscribers ch))(i := None)"
    using Channel_Unsubscribe_inv [of ch i] by blast
  then have r: "real_UnSubscribe c i u = Ret (e, set_channel c ch' u)"
    using Some by (simp add: real_UnSubscribe_def on_channel_def)
  have "sub_member (set_channel c ch' u) = (sub_member u)(c := (sub_member u c)(i := None))"
    using c(4) Some by (auto simp: sub_member_found fun_eq_iff)
  then show ?thesis
    using r c Some assms by (auto simp: sub_inv_set sub_has_found sub_member_found)
qed

lemma real_Publish_law:
  assumes "sub_inv u" "real_Publish env c (PubMessage m) u = Ret (e, u')"
  shows "sub_inv u' \<and> sub_has u' = sub_has u \<and> sub_member u' = sub_member u \<and>
    (e = nil \<longrightarrow> (\<exists>p. sub_member u c (pm_From m) = Some p \<and> bit p 2))"
  using assms(2) [unfolded real_Publish_def] assms(1)
proof (cases rule: on_channel_cases)
  case (found ch ch')
  have s: "subscribers ch' = subscribers ch"
  proof (cases "Closed (ch_info ch)")
    case True
    then show ?thesis using found(3) by (simp add: Channel_Publish_def)
  next
    case False
    then show ?thesis
      using found(3) Channel_enqueue_inv [OF found(2) False, of env m e ch']
        enqueueNotify_inv [OF found(2) False, of m]
      by (auto simp: Channel_Publish_def split: option.splits if_splits)
  qed
  note A = Publish_cases [OF found(2,3)]
  then show ?thesis using found s assms(1)
    by (auto simp: sub_inv_set sub_has_found sub_member_found fun_upd_idem)
qed (use assms(1) in auto)

interpretation real: subscribe_wrap sub_inv sub_has sub_member "real_CreateChannel env"
  real_RemoveChannel "real_Subscribe env" real_UnSubscribe "real_Publish env"
proof
  fix s c ci e s' assume "sub_inv s" "real_CreateChannel env c ci s = Ret (e, s')"
  then show "sub_inv s' \<and> (if e = nil then \<not> sub_has s c \<and> sub_has s' = (sub_has s)(c := True) \<and>
      sub_member s' = (sub_member s)(c := \<lambda>_. None) else sub_has s' = sub_has s \<and> sub_member s' = sub_member s)"
    using NewChannel_inv [of env c]
    by (auto simp: real_CreateChannel_def Channel_Update_def sub_has_def chan_inv_def
        intro!: sub_inv_set split: if_splits sum.splits)
next
  fix s c assume "sub_inv s"
  then show "\<exists>e s'. real_RemoveChannel c s = Ret (e, s') \<and> sub_inv s' \<and> (e = nil \<longleftrightarrow> sub_has s c) \<and>
      sub_has s' = (sub_has s)(c := False) \<and> sub_member s' = (sub_member s)(c := \<lambda>_. None)"
    by (auto simp: real_RemoveChannel_def sub_has_def sub_inv_def sub_member_def fun_eq_iff
        split: option.split)
qed (use real_Subscribe_law real_UnSubscribe_law real_Publish_law in blast)+

subsection \<open>The wrapper refines the service\<close>

text \<open>The error text that \<^verbatim>\<open>UpdateSubscriber\<close> makes of a single error.\<close>
definition wrap_error :: "go_error \<Rightarrow> go_error" where
  "wrap_error e = map_option (\<lambda>m. m @ [CHR 0x0A]) e"

definition wrapped :: "sub_result \<Rightarrow> sub_result" where
  "wrapped x = bind_outcome x (\<lambda>(e, u). Ret (wrap_error e, u))"

lemma wrap_error_nil [simp]: "(wrap_error e = nil) = (e = nil)"
  by (simp add: wrap_error_def)

lemma wrapped_Ret: "wrapped x = Ret (e, u) \<longleftrightarrow> (\<exists>e'. x = Ret (e', u) \<and> e = wrap_error e')"
  by (auto simp: wrapped_def bind_outcome_eq_Ret)

lemma single_update:
  "bind_outcome (bind_outcome x (\<lambda>(e, u'). UpdateSubscriber_loop env c []
      (case e of None \<Rightarrow> [] | Some m \<Rightarrow> [] @ [m]) u'))
     (\<lambda>(r, u'). case r of Inl e \<Rightarrow> Ret (Some e, u')
        | Inr errs \<Rightarrow> (if length errs = 0 then Ret (nil, u') else Ret (Some (join_errors errs), u')))
   = wrapped x"
  by (cases x) (auto simp: wrapped_def wrap_error_def join_errors_def split: option.split)

lemma wrap_eqs:
  "wrap_Subscribe env c i ex u = wrapped (real_Subscribe env c i ex u)"
  "wrap_UnSubscribe env c i u = wrapped (real_UnSubscribe c i u)"
  "wrap_UpdateSubscriber env c i ex u = wrapped (real_UpdateSubscriber env c i ex u)"
  "wrap_RemoveChannel env c u = real_RemoveChannel c u"
  "wrap_CreateChannel env c ci u = real_CreateChannel env c ci u"
  "wrap_UpdateChannel env c ci u = real_UpdateChannel c ci u"
  "wrap_Publish env c m u = real_Publish env c m u"
  by (simp_all add: single_update wrap_Subscribe_def wrap_UnSubscribe_def wrap_UpdateSubscriber_def
      wrap_RemoveChannel_def wrap_CreateChannel_def wrap_UpdateChannel_def wrap_Publish_def
      impl_UpdateSubscriber_def impl_UpdateChannel_def impl_PublishMessage_def
      SubscriberSubscribe_def SubscriberUnsubscribe_def SubscriberUpdate_def ChanCreate_def
      ChanDelete_def ChanUpdate_def)


interpretation wrapi: subscribe_wrap sub_inv sub_has sub_member "wrap_CreateChannel env"
  "wrap_RemoveChannel env" "wrap_Subscribe env" "wrap_UnSubscribe env" "wrap_Publish env"
proof
  fix s c i ex e s' assume s: "sub_inv s" "wrap_Subscribe env c i ex s = Ret (e, s')"
  then obtain e' where "real_Subscribe env c i ex s = Ret (e', s')" "e = wrap_error e'"
    by (auto simp: wrap_eqs wrapped_Ret)
  with real_Subscribe_law [OF s(1)] show "sub_inv s' \<and> sub_has s' = sub_has s \<and>
      (if e = nil then sub_has s c \<and> (\<exists>so. ex = ExtraOptions so \<and>
         sub_member s' = (sub_member s)(c := (sub_member s c)(i := Some (so_Perm so))))
       else sub_member s' = sub_member s)"
    by auto
next
  fix s c i assume "sub_inv s"
  from real_UnSubscribe_law [OF this, of c i] obtain e u' where
    "real_UnSubscribe c i s = Ret (e, u')" "sub_inv u'" "sub_has u' = sub_has s"
    "(e = nil) = (sub_member s c i \<noteq> None)"
    "sub_member u' = (sub_member s)(c := (sub_member s c)(i := None))" by blast
  then show "\<exists>e s'. wrap_UnSubscribe env c i s = Ret (e, s') \<and> sub_inv s' \<and> sub_has s' = sub_has s \<and>
      (e = nil) = (sub_member s c i \<noteq> None) \<and>
      sub_member s' = (sub_member s)(c := (sub_member s c)(i := None))"
    by (auto simp: wrap_eqs wrapped_def)
next
  fix s c ci e s' assume "sub_inv s" "wrap_CreateChannel env c ci s = Ret (e, s')"
  then show "sub_inv s' \<and> (if e = nil then \<not> sub_has s c \<and> sub_has s' = (sub_has s)(c := True) \<and>
      sub_member s' = (sub_member s)(c := \<lambda>_. None) else sub_has s' = sub_has s \<and> sub_member s' = sub_member s)"
    unfolding wrap_eqs by (rule real.create_law)
next
  fix s c assume "sub_inv s"
  then show "\<exists>e s'. wrap_RemoveChannel env c s = Ret (e, s') \<and> sub_inv s' \<and> (e = nil) = sub_has s c \<and>
      sub_has s' = (sub_has s)(c := False) \<and> sub_member s' = (sub_member s)(c := \<lambda>_. None)"
    unfolding wrap_eqs by (rule real.remove_law)
next
  fix s c m e s' assume "sub_inv s" "wrap_Publish env c (PubMessage m) s = Ret (e, s')"
  then show "sub_inv s' \<and> sub_has s' = sub_has s \<and> sub_member s' = sub_member s \<and>
      (e = nil \<longrightarrow> (\<exists>p. sub_member s c (pm_From m) = Some p \<and> bit p 2))"
    unfolding wrap_eqs by (rule real.publish_law)
qed

text \<open>
  Leaving a channel undoes joining it: a subscriber that joins through the wrapper and leaves
  again is not a member, and every other membership of every channel is as before.
\<close>
theorem join_leave_roundtrip:
  assumes "sub_inv u" "sub_member u c i = None" "wrap_Subscribe env c i ex u = Ret (nil, u1)"
  shows "\<exists>u2. wrap_UnSubscribe env c i u1 = Ret (nil, u2) \<and> sub_member u2 = sub_member u \<and>
    sub_has u2 = sub_has u \<and> sub_inv u2"
  using wrapi.subscribe_unsubscribe [OF assms] .

definition demo_sub :: realSubscription where
  "demo_sub = \<lparr>channels = (\<lambda>_. None)(''room'' := Some demo_chan)\<rparr>"

lemma demo_sub_inv: "sub_inv demo_sub"
  using demo_chan_inv by (auto simp: sub_inv_def demo_sub_def)

lemma demo_sub_join:
  "\<exists>u1. wrap_Subscribe demo_env_c ''room'' ''carol'' (ExtraOptions \<lparr>so_Perm = 2, so_Ticket = ''''\<rparr>) demo_sub
     = Ret (nil, u1)"
  by (simp add: wrap_eqs wrapped_def real_Subscribe_def on_channel_def demo_sub_def
      Channel_Subscribe_def getSubscriberOptions_def demo_chan_def NewChannel_def loadSeq_def
      demo_chan_env_def Idle_NextSegmentSequence_def NewChanInfo_def Let_def enqueueNotify_def
      send_queue_def try_send_def make_chan_def checkMsgQueue_def wrap_error_def)

theorem join_leave_roundtrip_witness:
  "\<exists>u1 u2. wrap_Subscribe demo_env_c ''room'' ''carol'' (ExtraOptions \<lparr>so_Perm = 2, so_Ticket = ''''\<rparr>) demo_sub
      = Ret (nil, u1) \<and> wrap_UnSubscribe demo_env_c ''room'' ''carol'' u1 = Ret (nil, u2) \<and>
    sub_member u2 = sub_member demo_sub \<and> sub_has u2 = sub_has demo_sub \<and> sub_inv u2"
proof -
  have "sub_member demo_sub ''room'' ''carol'' = None"
    by (simp add: sub_member_def demo_sub_def demo_chan_def)
  with demo_sub_join join_leave_roundtrip [OF demo_sub_inv] show ?thesis by blast
qed

subsection \<open>The world channel\<close>

text \<open>The settings of a channel of the service.\<close>
definition settings :: "realSubscription \<Rightarrow> ChanID \<Rightarrow> ChanInfo option" where
  "settings u c = map_option ch_info (channels u c)"

definition world_open :: "realSubscription \<Rightarrow> bool" where
  "world_open u =
     (sub_inv u \<and> (\<exists>ci. settings u world_chanId = Some ci \<and> \<not> Closed ci \<and> \<not> Blocked ci \<and> \<not> Muted ci \<and> Secret ci = ''''))"

lemma Channel_Subscribe_returns:
  assumes "chan_inv g"
  shows "\<exists>e g'. Channel_Subscribe env i (ExtraOptions so) g = Ret (e, g') \<and>
    (\<not> Closed (ch_info g) \<longrightarrow> \<not> Blocked (ch_info g) \<longrightarrow> Secret (ch_info g) = '''' \<longrightarrow> e = nil)"
proof (cases "map_of (subscribers g) i = None \<and> \<not> Closed (ch_info g)")
  case True
  let ?g = "g\<lparr>subscribers := AList.update i (NewSubscriberInfo so) (subscribers g)\<rparr>"
  have g1: "chan_inv ?g" "\<not> Closed (ch_info ?g)" using chan_inv_update assms True by auto
  obtain e2 g2 where n2: "enqueueNotify (online_notify 2 i) ?g = Ret (e2, g2)"
    "chan_inv g2" "ch_info g2 = ch_info ?g" using enqueueNotify_inv [OF g1] by blast
  with g1 have "\<not> Closed (ch_info g2)" by simp
  then obtain e3 g3 where "enqueueNotify (members_notify i (GetSubscribers g2)) g2 = Ret (e3, g3)"
    using enqueueNotify_inv [OF n2(2)] by blast
  then show ?thesis using True assms n2
    by (simp add: Channel_Subscribe_def getSubscriberOptions_def)
next
  case False
  then show ?thesis using assms
    by (auto simp: Channel_Subscribe_def getSubscriberOptions_def split: option.split)
qed

lemma Channel_Subscribe_open:
  assumes "chan_inv g" "\<not> Closed (ch_info g)" "\<not> Blocked (ch_info g)" "Secret (ch_info g) = ''''"
  shows "\<exists>g'. Channel_Subscribe env i (ExtraOptions so) g = Ret (nil, g')"
  using Channel_Subscribe_returns [OF assms(1), of env i so] assms(2-4) by auto

lemma send_queue_returns:
  "chan_inv g \<Longrightarrow> \<not> Closed (ch_info g) \<Longrightarrow> \<exists>e g'. send_queue full m g = Ret (e, g')"
  using send_queue_inv by blast

lemma Channel_Publish_returns:
  assumes "chan_inv g" "pm_Message m \<noteq> None"
  shows "\<exists>e g'. Channel_Publish env (PubMessage m) g = Ret (e, g') \<and> ch_info g' = ch_info g"
proof (cases "Closed (ch_info g)")
  case True
  then show ?thesis by (simp add: Channel_Publish_def)
next
  case open': False
  obtain gm where gm: "pm_Message m = Some gm" using assms(2) by blast
  have "\<exists>e g'. Channel_enqueue env m g = Ret (e, g')"
  proof -
    obtain n g1 where n: "nextSeq env g = (n, g1)" by fastforce
    have "chan_inv (g1\<lparr>stored := x\<rparr>)" "\<not> Closed (ch_info (g1\<lparr>stored := x\<rparr>))" "chan_inv g1" for x
      using nextSeq_inv [OF assms(1), of env] nextSeq_frame [of env g] n open'
      by (simp_all add: chan_inv_def)
    then have q: "\<exists>e g'. send_queue full y (g1\<lparr>stored := x\<rparr>) = Ret (e, g')"
      "\<exists>e g'. send_queue full y g1 = Ret (e, g')" for full x y
      using send_queue_returns [of "g1\<lparr>stored := x\<rparr>" full y] send_queue_returns [of g1 full y] by simp_all
    show ?thesis using gm n q
      by (auto simp: Channel_enqueue_def GetChatMessage_def Let_def split: sum.split option.split)
  qed
  then obtain e1 g1 where en: "Channel_enqueue env m g = Ret (e1, g1)" by blast
  obtain e2 g2 where no: "enqueueNotify m g = Ret (e2, g2)" "ch_info g2 = ch_info g"
    using enqueueNotify_inv [OF assms(1) open'] by blast
  show ?thesis
    using en no Channel_enqueue_inv [OF assms(1) open' en] open'
    by (auto simp: Channel_Publish_def split: option.split)
qed

text \<open>Joining, leaving and publishing keep the settings, and joining an open channel succeeds.\<close>
definition open_chan :: "realSubscription \<Rightarrow> ChanID \<Rightarrow> bool" where
  "open_chan u c = (\<exists>ci. settings u c = Some ci \<and> \<not> Closed ci \<and> \<not> Blocked ci \<and> Secret ci = '''')"

lemma open_Subscribe:
  assumes inv: "sub_inv u" and "open_chan u c"
  shows "\<exists>u'. wrap_Subscribe env c i (ExtraOptions so) u = Ret (nil, u') \<and> sub_inv u' \<and> settings u' = settings u \<and>
    sub_member u' = (sub_member u)(c := (sub_member u c)(i := Some (so_Perm so)))"
proof -
  obtain ch where ch: "channels u c = Some ch" "chan_inv ch" "\<not> Closed (ch_info ch)"
    "\<not> Blocked (ch_info ch)" "Secret (ch_info ch) = ''''"
    using assms by (auto simp: open_chan_def settings_def sub_inv_def)
  obtain ch' where s: "Channel_Subscribe env i (ExtraOptions so) ch = Ret (nil, ch')"
    using Channel_Subscribe_open [OF ch(2-5)] by blast
  have w: "wrap_Subscribe env c i (ExtraOptions so) u = Ret (nil, set_channel c ch' u)"
    using ch s by (simp add: wrap_eqs wrapped_def real_Subscribe_def on_channel_def wrap_error_def)
  have "settings (set_channel c ch' u) = settings u"
    using Channel_Subscribe_inv [OF ch(2) s] ch(1) by (auto simp: settings_def set_channel_def fun_eq_iff)
  then show ?thesis using w wrapi.subscribe_law [OF inv w] by auto
qed

lemma world_Subscribe:
  assumes "world_open u"
  shows "\<exists>u'. wrap_Subscribe env world_chanId i (ExtraOptions so) u = Ret (nil, u') \<and> world_open u' \<and>
    sub_member u' = (sub_member u)(world_chanId := (sub_member u world_chanId)(i := Some (so_Perm so)))"
proof -
  have "sub_inv u" "open_chan u world_chanId" using assms by (auto simp: world_open_def open_chan_def)
  from open_Subscribe [OF this, of env i so] show ?thesis using assms by (auto simp: world_open_def)
qed

lemma world_UnSubscribe:
  assumes "world_open u"
  shows "\<exists>e u'. wrap_UnSubscribe env world_chanId i u = Ret (e, u') \<and> world_open u' \<and>
    sub_member u' = (sub_member u)(world_chanId := (sub_member u world_chanId)(i := None))"
proof -
  obtain ch where ch: "channels u world_chanId = Some ch" "chan_inv ch" "sub_inv u"
    using assms by (auto simp: world_open_def settings_def sub_inv_def)
  obtain e ch' where s: "Channel_Unsubscribe i ch = Ret (e, ch')" "ch_info ch' = ch_info ch"
    using Channel_Unsubscribe_inv [OF ch(2)] by blast
  have w: "wrap_UnSubscribe env world_chanId i u = Ret (wrap_error e, set_channel world_chanId ch' u)"
    using ch s by (simp add: wrap_eqs wrapped_def real_UnSubscribe_def on_channel_def)
  then show ?thesis
    using wrapi.unsubscribe_law [OF ch(3), of env world_chanId i] assms s(2) ch(1)
    by (auto simp: world_open_def settings_def set_channel_def)
qed

lemma world_Publish:
  assumes "world_open u"
  shows "\<exists>e u'. wrap_Publish env world_chanId (system_publish to d) u = Ret (e, u') \<and> world_open u' \<and>
    sub_member u' = sub_member u"
proof -
  obtain ch where ch: "channels u world_chanId = Some ch" "chan_inv ch" "sub_inv u"
    using assms by (auto simp: world_open_def settings_def sub_inv_def)
  obtain m where m: "system_publish to d = PubMessage m" "pm_Message m \<noteq> None"
    by (simp add: system_publish_def)
  obtain e ch' where s: "Channel_Publish env (PubMessage m) ch = Ret (e, ch')" "ch_info ch' = ch_info ch"
    using Channel_Publish_returns [OF ch(2) m(2)] by blast
  have w: "wrap_Publish env world_chanId (PubMessage m) u = Ret (e, set_channel world_chanId ch' u)"
    using ch s by (simp add: wrap_eqs real_Publish_def on_channel_def)
  then show ?thesis
    using wrapi.publish_law [OF ch(3) w] assms s(2) ch(1) m(1)
    by (auto simp: world_open_def settings_def set_channel_def)
qed

lemma OnUserOnline_member:
  assumes "world_open u"
  shows "\<exists>u'. OnUserOnline env nano sec i u = Ret u' \<and> world_open u' \<and>
    sub_member u' = (if IsTemp i then sub_member u
      else (sub_member u)(world_chanId := (sub_member u world_chanId)(UID i := Some (PermRead OR PermWrite))))"
proof (cases "IsTemp i")
  case False
  let ?so = "\<lparr>so_Perm = PermRead OR PermWrite, so_Ticket = ''''\<rparr>"
  let ?b = "Ptr (SChat (system_chat nano sec 100 (UID i)))"
  obtain u1 where 1: "wrap_Subscribe env world_chanId (UID i) (ExtraOptions ?so) u = Ret (nil, u1)"
    "world_open u1" "sub_member u1 = (sub_member u)(world_chanId :=
        (sub_member u world_chanId)(UID i := Some (PermRead OR PermWrite)))"
    using world_Subscribe [OF assms, of env "UID i" ?so] by auto
  obtain e2 u2 where 2: "wrap_Publish env world_chanId (system_publish [] ?b) u1 = Ret (e2, u2)"
    "world_open u2" "sub_member u2 = sub_member u1" using world_Publish [OF 1(2)] by blast
  obtain e3 u3 where 3: "wrap_Publish env world_chanId (system_publish [UID i] ?b) u2 = Ret (e3, u3)"
    "world_open u3" "sub_member u3 = sub_member u2" using world_Publish [OF 2(2)] by blast
  show ?thesis using False 1 2 3 by (simp add: OnUserOnline_def Let_def)
qed (use assms in \<open>simp add: OnUserOnline_def\<close>)

lemma OnUserOffline_member:
  assumes "world_open u"
  shows "\<exists>u'. OnUserOffline env marshal nano sec i u = Ret u' \<and> world_open u' \<and>
    sub_member u' = (if IsTemp i then sub_member u
      else (sub_member u)(world_chanId := (sub_member u world_chanId)(UID i := None)))"
proof (cases "IsTemp i")
  case False
  obtain e u1 where 1: "wrap_UnSubscribe env world_chanId (UID i) u = Ret (e, u1)" "world_open u1"
    "sub_member u1 = (sub_member u)(world_chanId := (sub_member u world_chanId)(UID i := None))"
    using world_UnSubscribe [OF assms] by blast
  obtain e2 u2 where 2: "wrap_Publish env world_chanId (system_publish []
      (IBytes (case marshal (system_chat nano sec 101 (UID i)) of Inl _ \<Rightarrow> [] | Inr bs \<Rightarrow> bs))) u1 = Ret (e2, u2)"
    "world_open u2" "sub_member u2 = sub_member u1" using world_Publish [OF 1(2)] by blast
  show ?thesis using False 1 2 by (simp add: OnUserOffline_def Let_def)
qed (use assms in \<open>simp add: OnUserOffline_def\<close>)

text \<open>A history of users coming online (\<open>True\<close>) and going offline.\<close>
fun world_run :: "chan_env \<Rightarrow> (ChatMessage \<Rightarrow> string + bytes) \<Rightarrow> (bool \<times> ID) list \<Rightarrow>
    realSubscription \<Rightarrow> realSubscription outcome" where
  "world_run env marshal [] u = Ret u"
| "world_run env marshal ((on, i) # es) u =
     bind_outcome (if on then OnUserOnline env 0 0 i u else OnUserOffline env marshal 0 0 i u)
       (world_run env marshal es)"

text \<open>The members the world channel should have after a history, starting from \<open>M\<close>.\<close>
fun world_spec :: "(bool \<times> ID) list \<Rightarrow> (SubscriberID \<Rightarrow> Permission option) \<Rightarrow> SubscriberID \<Rightarrow> Permission option" where
  "world_spec [] M = M"
| "world_spec ((on, i) # es) M =
     world_spec es (if IsTemp i then M
                    else M(UID i := (if on then Some (PermRead OR PermWrite) else None)))"

lemma world_run_members:
  "world_open u \<Longrightarrow> \<exists>u'. world_run env marshal es u = Ret u' \<and> world_open u' \<and>
     sub_member u' world_chanId = world_spec es (sub_member u world_chanId)"
proof (induction es arbitrary: u)
  case (Cons e es)
  obtain on i where e: "e = (on, i)" by fastforce
  let ?op = "if on then OnUserOnline env 0 0 i u else OnUserOffline env marshal 0 0 i u"
  obtain u1 where "?op = Ret u1" "world_open u1"
    "sub_member u1 world_chanId = (if IsTemp i then sub_member u world_chanId
       else (sub_member u world_chanId)(UID i := (if on then Some (PermRead OR PermWrite) else None)))"
    using OnUserOnline_member [OF Cons.prems, of env 0 0 i]
      OnUserOffline_member [OF Cons.prems, of env marshal 0 0 i]
    by (cases on) auto
  then show ?case using Cons.IH [of u1] e by auto
qed simp

lemma EnableWorldChannel_open:
  assumes "sub_inv u" "\<not> sub_has u world_chanId" "NewChannel env world_chanId = Inr ch"
  shows "\<exists>u'. EnableWorldChannel env u = Ret (nil, u') \<and> world_open u' \<and>
    sub_member u' world_chanId = (\<lambda>_. None)(''system'' := Some PermWrite)"
proof -
  have ch: "chan_inv ch" "subscribers ch = []" "ch_info ch = NewChanInfo '''' 0"
    using NewChannel_inv [OF assms(3)] assms(3)
    by (auto simp: NewChannel_def loadSeq_def Let_def split: sum.splits prod.splits option.splits)
  let ?ch = "snd (Channel_Update (NewChanInfo world_chanId 0) ch)"
  let ?u = "set_channel world_chanId ?ch u"
  have c: "wrap_CreateChannel env world_chanId (NewChanInfo world_chanId 0) u = Ret (nil, ?u)"
    using assms by (simp add: wrap_eqs real_CreateChannel_def sub_has_def Channel_Update_def)
  have "world_open ?u"
    using wrapi.create_law [OF assms(1) c] ch
    by (simp add: world_open_def settings_def set_channel_def Channel_Update_def NewChanInfo_def)
  from world_Subscribe [OF this, of env "''system''" "\<lparr>so_Perm = PermWrite, so_Ticket = ''''\<rparr>"]
  obtain u2 where "wrap_Subscribe env world_chanId ''system'' (ExtraOptions \<lparr>so_Perm = PermWrite, so_Ticket = ''''\<rparr>) ?u
      = Ret (nil, u2)" "world_open u2"
    "sub_member u2 world_chanId = (sub_member ?u world_chanId)(''system'' := Some PermWrite)"
    by auto
  then show ?thesis
    using c ch(2) by (auto simp: EnableWorldChannel_def Channel_Update_def)
qed



text \<open>
  A user called \<^verbatim>\<open>system\<close> that goes offline removes the system subscriber: from then on
  the notices of the world channel are refused, for every other user.
\<close>
theorem world_channel_system_user:
  assumes "world_open u"
  shows "\<exists>u1. OnUserOffline env marshal nano sec (NewID2 ''system'') u = Ret u1 \<and>
    sub_member u1 world_chanId ''system'' = None \<and>
    (\<forall>to d e u2. wrap_Publish env world_chanId (system_publish to d) u1 = Ret (e, u2) \<longrightarrow> e \<noteq> nil)"
proof -
  have n: "\<not> IsTemp (NewID2 ''system'')" "UID (NewID2 ''system'') = ''system''" by code_simp+
  obtain u1 where u1: "OnUserOffline env marshal nano sec (NewID2 ''system'') u = Ret u1" "world_open u1"
    "sub_member u1 world_chanId ''system'' = None"
    using OnUserOffline_member [OF assms, of env marshal nano sec "NewID2 ''system''"] n by auto
  then have "sub_inv u1" by (simp add: world_open_def)
  then show ?thesis using u1 wrapi.publish_law [of u1 env world_chanId]
    by (fastforce simp: system_publish_def)
qed

theorem world_channel_system_user_witness:
  "\<exists>u u1. EnableWorldChannel demo_env_c newRealSubscription = Ret (nil, u) \<and>
    OnUserOffline demo_env_c (\<lambda>m. Inr []) 0 0 (NewID2 ''system'') u = Ret u1 \<and>
    sub_member u1 world_chanId ''system'' = None"
proof -
  have "NewChannel demo_env_c world_chanId = Inr (projr (NewChannel demo_env_c world_chanId))"
    by (simp add: NewChannel_def loadSeq_def demo_chan_env_def Idle_NextSegmentSequence_def)
  then obtain u where "EnableWorldChannel demo_env_c newRealSubscription = Ret (nil, u)" "world_open u"
    using EnableWorldChannel_open [of newRealSubscription demo_env_c]
    by (auto simp: newRealSubscription_def sub_inv_def sub_has_def)
  with world_channel_system_user [of u demo_env_c "\<lambda>m. Inr []" 0 0] show ?thesis by blast
qed

end
