(* ===== verification/Messaging.thy ===== *)
theory Messaging
  imports Subscription
begin

text \<open>
  The messaging service (\<^verbatim>\<open>pkg/messaging\<close>): the chain of handlers, the default handlers for
  chat, group, acknowledgement and presence messages, and the presence subscriptions.

  \<open>msgw\<close> is the state the handlers work on: the gateway, the subscription service, the presence
  subscriptions, what the message store was given, the commands sent to Redis, and the goroutines
  started for the world channel. \<open>msg_env\<close> is the environment: JSON, the message store (the message
  comes back with the identifier the store assigned) and the environment of the channels. The
  handlers that \<^verbatim>\<open>InitDefaultHandler\<close> registers are the constructors of \<open>handler_fn\<close>; \<open>HCustom\<close> is a handler from
  elsewhere.
\<close>

section \<open>State\<close>

text \<open>\<^verbatim>\<open>UserState\<close>: the subscribers of each user, and the users each user subscribed to.\<close>
record UserState =
  us_subscribers :: "string \<Rightarrow> string list option"
  us_mySubs :: "string \<Rightarrow> string list option"

definition NewUserState :: UserState where
  "NewUserState = \<lparr>us_subscribers = (\<lambda>_. None), us_mySubs = (\<lambda>_. None)\<rparr>"

datatype redis_cmd = SAdd string string | Expire string int | Del string

record msgw =
  mw_gate :: gateway
  mw_sub :: realSubscription
  mw_state :: UserState
  mw_stored :: "ChatMessage list"
  mw_offline :: "ChatMessage list"
  mw_redis :: "redis_cmd list"
  mw_world :: "(bool \<times> ID) list"

record msg_env =
  me_json :: "gotype \<Rightarrow> bytes \<Rightarrow> string + gostruct"
  me_store :: "ChatMessage \<Rightarrow> string + ChatMessage"
  me_store_offline :: "ChatMessage \<Rightarrow> go_error outcome"
  me_chan :: chan_env

type_synonym msg_result = "(go_error \<times> msgw) outcome"

text \<open>\<^verbatim>\<open>GetClientInterface().EnqueueMessage\<close>.\<close>
definition gate_enqueue :: "ID \<Rightarrow> GlideMessage \<Rightarrow> msgw \<Rightarrow> msg_result" where
  "gate_enqueue i m w =
     bind_outcome (Impl_EnqueueMessage i m (mw_gate w)) (\<lambda>(e, g). Ret (e, w\<lparr>mw_gate := g\<rparr>))"


section \<open>Presence subscriptions\<close>

fun notify_all :: "ID list \<Rightarrow> GlideMessage \<Rightarrow> gateway \<Rightarrow> gateway outcome" where
  "notify_all [] m g = Ret g"
| "notify_all (i # is) m g = bind_outcome (Impl_EnqueueMessage i m g) (\<lambda>(_, g'). notify_all is m g')"

definition state_message :: "ID \<Rightarrow> bool \<Rightarrow> GlideMessage" where
  "state_message src online =
     NewMessage 0 ActionNotifyUserState (Val (SUserState \<lparr>us_Uid = UID src, us_Online = online\<rparr>))"

definition notifyOnline :: "ID \<Rightarrow> string list \<Rightarrow> gateway \<Rightarrow> gateway outcome" where
  "notifyOnline src to g = notify_all (map NewID2 to) (state_message src False) g"

definition notifyOffline :: "ID \<Rightarrow> string list \<Rightarrow> gateway \<Rightarrow> gateway outcome" where
  "notifyOffline src to g = notify_all (map NewID2 to) (state_message src True) g"

definition onUserOnline :: "ID \<Rightarrow> UserState \<times> gateway \<Rightarrow> (UserState \<times> gateway) outcome" where
  "onUserOnline i s =
     (case s of (u, g) \<Rightarrow>
        let (mySubList, u1) =
              (case us_subscribers u (UID i) of
                 Some l \<Rightarrow> (l, u)
               | None \<Rightarrow> ([], u\<lparr>us_subscribers := (us_subscribers u)(UID i := Some [])\<rparr>))
        in bind_outcome (notifyOnline i mySubList g) (\<lambda>g'. Ret (u1, g')))"

text \<open>The loop that removes a user from the lists it subscribed to; it deletes the key \<open>uid\<close>.\<close>
fun unsubscribe_targets :: "string list \<Rightarrow> UserState \<Rightarrow> UserState" where
  "unsubscribe_targets [] u = u"
| "unsubscribe_targets (uid # uids) u =
     unsubscribe_targets uids
       (case us_subscribers u uid of
          None \<Rightarrow> u
        | Some target \<Rightarrow> u\<lparr>us_subscribers := (us_subscribers u)(uid := Some (removeAll uid target))\<rparr>)"

definition onUserOffline :: "ID \<Rightarrow> UserState \<times> gateway \<Rightarrow> (UserState \<times> gateway) outcome" where
  "onUserOffline i s =
     (case s of (u, g) \<Rightarrow>
        case us_subscribers u (UID i) of
          None \<Rightarrow> Ret (u, g)
        | Some mySubList \<Rightarrow>
            if length mySubList = 0 then Ret (u, g)
            else bind_outcome (notifyOffline i mySubList g) (\<lambda>g'.
                   let myId = UID i
                   in case us_mySubs u myId of
                        None \<Rightarrow> Ret (u, g')
                      | Some sub \<Rightarrow>
                          let u1 = unsubscribe_targets sub u
                          in Ret (u1\<lparr>us_mySubs := (us_mySubs u1)(myId := None)\<rparr>, g')))"

fun subscribe_targets :: "string \<Rightarrow> string list \<Rightarrow> UserState \<Rightarrow> UserState" where
  "subscribe_targets myId [] u = u"
| "subscribe_targets myId (uid # uids) u =
     (let l = (case us_subscribers u uid of None \<Rightarrow> [] | Some l \<Rightarrow> l);
          ms = (case us_mySubs u myId of None \<Rightarrow> [] | Some l \<Rightarrow> l)
      in subscribe_targets myId uids
           (u\<lparr>us_subscribers := (us_subscribers u)(uid := Some (List.insert myId l)),
              us_mySubs := (us_mySubs u)(myId := Some (List.insert uid ms))\<rparr>))"

definition subUserStateApi ::
    "(gotype \<Rightarrow> bytes \<Rightarrow> string + gostruct) \<Rightarrow> Info \<Rightarrow> GlideMessage \<Rightarrow> UserState \<Rightarrow> go_error \<times> UserState" where
  "subUserStateApi js c m u =
     (case Deserialize_StateSub js (Data m) of
        Inl e \<Rightarrow> (Some e, u)
      | Inr d \<Rightarrow>
          let myId = UID (info_ID c);
              u1 = (case us_mySubs u myId of
                      Some _ \<Rightarrow> u
                    | None \<Rightarrow> u\<lparr>us_mySubs := (us_mySubs u)(myId := Some [])\<rparr>)
          in (nil, subscribe_targets myId (ss_Uids d) u1))"


section \<open>Handlers\<close>

definition ackChatMessage :: "Info \<Rightarrow> ChatMessage \<Rightarrow> msgw \<Rightarrow> msg_result" where
  "ackChatMessage c m w =
     gate_enqueue (info_ID c)
       (NewMessage 0 ActionAckMessage (Ptr (SAckMessage
          \<lparr>am_CliMid = cm_CliMid m, am_Mid = cm_Mid m, am_From = cm_To m, am_Seq = cm_Seq m\<rparr>))) w"

definition ackNotifyMessage :: "Info \<Rightarrow> ChatMessage \<Rightarrow> msgw \<Rightarrow> msg_result" where
  "ackNotifyMessage c m w =
     gate_enqueue (NewID2 (cm_To m))
       (NewMessage 0 ActionAckNotify (Ptr (SAckNotify
          \<lparr>an_CliMid = cm_CliMid m, an_Seq = cm_Seq m, an_Mid = cm_Mid m, an_From = cm_From m\<rparr>))) w"

definition devices :: "string list" where
  "devices = ['''', ''1'', ''2'', ''3'']"

fun dispatch_loop :: "string list \<Rightarrow> string \<Rightarrow> GlideMessage \<Rightarrow> msgw \<Rightarrow> (bool \<times> msgw) outcome" where
  "dispatch_loop [] uid m w = Ret (False, w)"
| "dispatch_loop (d # ds) uid m w =
     bind_outcome (gate_enqueue (NewID '''' uid d) m w) (\<lambda>(e, w1).
     bind_outcome (dispatch_loop ds uid m w1) (\<lambda>(ok, w2). Ret (e = nil \<or> ok, w2)))"

definition dispatchAllDevice :: "string \<Rightarrow> GlideMessage \<Rightarrow> msgw \<Rightarrow> (bool \<times> msgw) outcome" where
  "dispatchAllDevice uid m w = dispatch_loop devices uid m w"

text \<open>\<^verbatim>\<open>dispatch2AllDevice\<close> reports success in any case.\<close>
definition dispatch2AllDevice :: "string \<Rightarrow> GlideMessage \<Rightarrow> msgw \<Rightarrow> (bool \<times> msgw) outcome" where
  "dispatch2AllDevice uid m w =
     bind_outcome (dispatch_loop devices uid m w) (\<lambda>(_, w'). Ret (True, w'))"

definition dispatchOffline :: "msg_env \<Rightarrow> ChatMessage \<Rightarrow> msgw \<Rightarrow> msg_result" where
  "dispatchOffline env m w =
     bind_outcome (me_store_offline env m) (\<lambda>e. Ret (e, w\<lparr>mw_offline := mw_offline w @ [m]\<rparr>))"

definition handleChatMessage :: "msg_env \<Rightarrow> Info \<Rightarrow> GlideMessage \<Rightarrow> msgw \<Rightarrow> msg_result" where
  "handleChatMessage env c m w =
     (case Deserialize_Chat (me_json env) (Data m) of
        Inl _ \<Rightarrow> Ret (nil, w)
      | Inr msg \<Rightarrow>
          let msg1 = msg\<lparr>cm_From := UID (info_ID c), cm_To := To m\<rparr>;
              store = (cm_Mid msg1 = 0 \<and> Action m \<noteq> ActionChatMessageResend)
          in case (if store then me_store env msg1 else Inr msg1) of
               Inl e \<Rightarrow> Ret (Some e, w)
             | Inr msg2 \<Rightarrow>
                 let w1 = (if store then w\<lparr>mw_stored := mw_stored w @ [msg2]\<rparr> else w)
                 in bind_outcome (ackChatMessage c msg2 w1) (\<lambda>(_, w2).
                    bind_outcome (dispatchAllDevice (cm_To msg2)
                        (NewMessage 0 ActionChatMessage (Ptr (SChat msg2))) w2) (\<lambda>(ok, w3).
                    if ok then Ret (nil, w3)
                    else bind_outcome (ackNotifyMessage c msg2 w3) (\<lambda>(_, w4).
                         dispatchOffline env msg2 w4))))"

definition handleChatRecallMessage :: "msg_env \<Rightarrow> Info \<Rightarrow> GlideMessage \<Rightarrow> msgw \<Rightarrow> msg_result" where
  "handleChatRecallMessage env c m w = handleChatMessage env c m w"

definition dispatchOnline :: "Info \<Rightarrow> ChatMessage \<Rightarrow> msgw \<Rightarrow> msg_result" where
  "dispatchOnline c msg w =
     gate_enqueue (info_ID c)
       (NewMessage (-1) ActionChatMessage (Ptr (SChat (msg\<lparr>cm_From := UID (info_ID c)\<rparr>)))) w"

definition enqueueMessage :: "ID \<Rightarrow> GlideMessage \<Rightarrow> msgw \<Rightarrow> msgw outcome" where
  "enqueueMessage i m w = bind_outcome (gate_enqueue i m w) (\<lambda>(_, w'). Ret w')"

definition handleGroupMsg :: "msg_env \<Rightarrow> Info \<Rightarrow> GlideMessage \<Rightarrow> msgw \<Rightarrow> msg_result" where
  "handleGroupMsg env c m w =
     (case Deserialize_Chat (me_json env) (Data m) of
        Inl e \<Rightarrow> Ret (Some e, w)
      | Inr cm \<Rightarrow>
          bind_outcome (impl_PublishMessage (me_chan env) (To m)
              (PubMessage \<lparr>pm_From = From m, pm_To = [], pm_Seq = 0, pm_Type = TypeMessage,
                           pm_Message = Some m\<rparr>) (mw_sub w)) (\<lambda>(e, u).
            let w1 = w\<lparr>mw_sub := u\<rparr>
            in case e of
                 Some err \<Rightarrow>
                   bind_outcome (gate_enqueue (info_ID c)
                       (NewMessage (GetSeq m) ActionNotifyError (IString err)) w1) (\<lambda>(_, w2). Ret (nil, w2))
               | None \<Rightarrow> bind_outcome (ackChatMessage c cm w1) (\<lambda>(_, w2). Ret (nil, w2))))"

definition handleAckRequest :: "msg_env \<Rightarrow> Info \<Rightarrow> GlideMessage \<Rightarrow> msgw \<Rightarrow> msg_result" where
  "handleAckRequest env c m w =
     (case Deserialize_AckRequest (me_json env) (Data m) of
        Inl _ \<Rightarrow> Ret (nil, w)
      | Inr ack \<Rightarrow>
          bind_outcome (dispatchAllDevice (ar_To ack)
              (NewMessage 0 ActionAckNotify (Ptr (SAckRequest ack))) w) (\<lambda>(_, w'). Ret (nil, w')))"

definition KeyRedisOfflineMsgPrefix :: string where
  "KeyRedisOfflineMsgPrefix = ''im:msg:offline:''"

definition AckOfflineMessage :: "string \<Rightarrow> msgw \<Rightarrow> msgw" where
  "AckOfflineMessage i w = w\<lparr>mw_redis := mw_redis w @ [Del (KeyRedisOfflineMsgPrefix @ i)]\<rparr>"

definition handleAckOffline :: "Info \<Rightarrow> GlideMessage \<Rightarrow> msgw \<Rightarrow> msg_result" where
  "handleAckOffline c m w =
     (if IsTemp (info_ID c) then Ret (nil, w) else Ret (nil, AckOfflineMessage (UID (info_ID c)) w))"

definition storeOfflineMessage :: "string \<Rightarrow> string \<Rightarrow> msgw \<Rightarrow> msgw" where
  "storeOfflineMessage to msg w =
     (let key = KeyRedisOfflineMsgPrefix @ to
      in w\<lparr>mw_redis := mw_redis w @ [SAdd key msg, Expire key (3600 * 24 * 2)]\<rparr>)"

text \<open>\<open>enabled\<close> is the variable \<^verbatim>\<open>StoreOfflineMessage\<close>, \<open>encode\<close> the JSON encoder.\<close>
definition offlineMessageHandler ::
    "bool \<Rightarrow> msg_env \<Rightarrow> (GlideMessage \<Rightarrow> string + bytes) \<Rightarrow> GlideMessage \<Rightarrow> msgw \<Rightarrow> msgw" where
  "offlineMessageHandler enabled env encode m w =
     (if \<not> enabled then w
      else if GetAction m = ActionChatMessage \<or> GetAction m = ActionChatMessageResend
      then (case Deserialize_Chat (me_json env) (Data m) of
              Inl _ \<Rightarrow> w
            | Inr _ \<Rightarrow>
                (case JsonCodec_Encode encode m of
                   Inl _ \<Rightarrow> w
                 | Inr b \<Rightarrow> storeOfflineMessage (To m) (string_of_bytes b) w))
      else w)"

text \<open>\<open>members\<close> is the answer of Redis.\<close>
fun push_offline :: "(bytes \<Rightarrow> string + GlideMessage) \<Rightarrow> string list \<Rightarrow> string \<Rightarrow> msgw \<Rightarrow> msgw outcome" where
  "push_offline js [] i w = Ret w"
| "push_offline js (member # ms) i w =
     (case JsonCodec_Decode js (bytes_of_string member) of
        Inl _ \<Rightarrow> push_offline js ms i w
      | Inr msg \<Rightarrow> bind_outcome (gate_enqueue (NewID2 i) msg w) (\<lambda>(_, w'). push_offline js ms i w'))"

definition PushOfflineMessage ::
    "(bytes \<Rightarrow> string + GlideMessage) \<Rightarrow> string + string list \<Rightarrow> string \<Rightarrow> msgw \<Rightarrow> msgw outcome" where
  "PushOfflineMessage js members i w =
     (case members of Inl _ \<Rightarrow> Ret w | Inr ms \<Rightarrow> push_offline js ms i w)"

definition handleInternalOffline :: "Info \<Rightarrow> GlideMessage \<Rightarrow> msgw \<Rightarrow> msg_result" where
  "handleInternalOffline c m w =
     (let w1 = w\<lparr>mw_world := mw_world w @ [(False, info_ID c)]\<rparr>
      in bind_outcome (onUserOffline (info_ID c) (mw_state w1, mw_gate w1)) (\<lambda>(u, g).
           Ret (nil, w1\<lparr>mw_state := u, mw_gate := g\<rparr>)))"

definition handleInternalOnline :: "Info \<Rightarrow> GlideMessage \<Rightarrow> msgw \<Rightarrow> msg_result" where
  "handleInternalOnline c m w =
     bind_outcome (onUserOnline (info_ID c) (mw_state w, mw_gate w)) (\<lambda>(u, g).
       Ret (nil, w\<lparr>mw_state := u, mw_gate := g, mw_world := mw_world w @ [(True, info_ID c)]\<rparr>))"


section \<open>The chain of handlers\<close>

definition handleApiGroupMembers :: "Info \<Rightarrow> GlideMessage \<Rightarrow> msgw \<Rightarrow> msg_result" where
  "handleApiGroupMembers c m w = Ret (nil, w)"

definition handleAckGroupMsgRequest :: "msg_env \<Rightarrow> Info \<Rightarrow> GlideMessage \<Rightarrow> msgw \<Rightarrow> msg_result" where
  "handleAckGroupMsgRequest env c m w =
     (case Deserialize_AckGroup (me_json env) (Data m) of Inl _ \<Rightarrow> Ret (nil, w) | Inr _ \<Rightarrow> Ret (nil, w))"

definition handleHeartbeat :: "Info \<Rightarrow> GlideMessage \<Rightarrow> msgw \<Rightarrow> msg_result" where
  "handleHeartbeat c m w = Ret (nil, w)"

definition ClientCustom_Handle :: "GlideMessage \<Rightarrow> msgw \<Rightarrow> (bool \<times> msgw) outcome" where
  "ClientCustom_Handle m w =
     (if Action m \<noteq> ActionClientCustom then Ret (False, w)
      else bind_outcome (dispatch2AllDevice (To m) m w) (\<lambda>(_, w'). Ret (True, w')))"

definition InternalHandler_Handle :: "GlideMessage \<Rightarrow> msgw \<Rightarrow> (bool \<times> msgw) outcome" where
  "InternalHandler_Handle m w = Ret (IsInternal (GetAction m), w)"

datatype handler_fn = HChat | HGroup | HGroupMembers | HAckRequest | HAckGroup | HAckOffline
  | HHeartbeat | HOnline | HOffline | HSubState | HCustom "Info \<Rightarrow> GlideMessage \<Rightarrow> msgw \<Rightarrow> msg_result"

definition run_fn :: "msg_env \<Rightarrow> handler_fn \<Rightarrow> Info \<Rightarrow> GlideMessage \<Rightarrow> msgw \<Rightarrow> msg_result" where
  "run_fn env f c m w =
     (case f of
        HChat \<Rightarrow> handleChatMessage env c m w
      | HGroup \<Rightarrow> handleGroupMsg env c m w
      | HGroupMembers \<Rightarrow> handleApiGroupMembers c m w
      | HAckRequest \<Rightarrow> handleAckRequest env c m w
      | HAckGroup \<Rightarrow> handleAckGroupMsgRequest env c m w
      | HAckOffline \<Rightarrow> handleAckOffline c m w
      | HHeartbeat \<Rightarrow> handleHeartbeat c m w
      | HOnline \<Rightarrow> handleInternalOnline c m w
      | HOffline \<Rightarrow> handleInternalOffline c m w
      | HSubState \<Rightarrow>
          (case subUserStateApi (me_json env) c m (mw_state w) of
             (e, u) \<Rightarrow> Ret (e, w\<lparr>mw_state := u\<rparr>))
      | HCustom fn \<Rightarrow> fn c m w)"

text \<open>A validator gives an error and possibly the reply for it.\<close>
type_synonym validator = "GlideMessage \<Rightarrow> go_error \<times> GlideMessage option"

definition DefaultMessageValidator :: validator where
  "DefaultMessageValidator m =
     (if To m = '''' then (Some ''message.To is empty'', None)
      else if Action m = '''' then (Some ''message.Action is empty'', None)
      else (nil, None))"

datatype msg_handler = ActionHandler string handler_fn | ClientCustom | InternalHandler
  | Validation "validator list"

fun run_validators :: "validator list \<Rightarrow> Info \<Rightarrow> GlideMessage \<Rightarrow> msgw \<Rightarrow> (bool \<times> msgw) outcome" where
  "run_validators [] c m w = Ret (False, w)"
| "run_validators (v # vs) c m w =
     (case v m of
        (None, _) \<Rightarrow> run_validators vs c m w
      | (Some e, reply) \<Rightarrow>
          let r = (case reply of None \<Rightarrow> NewMessage (GetSeq m) ActionNotifyError (IString e) | Some r \<Rightarrow> r)
          in bind_outcome (gate_enqueue (info_ID c) r w) (\<lambda>(_, w'). Ret (True, w')))"

text \<open>\<^verbatim>\<open>OnHandleMessageError\<close>; \<open>notify\<close> is \<^verbatim>\<open>notifyOnSrvErr\<close>.\<close>
definition OnHandleMessageError :: "bool \<Rightarrow> Info \<Rightarrow> string \<Rightarrow> msgw \<Rightarrow> msgw outcome" where
  "OnHandleMessageError notify c err w =
     (if notify
      then bind_outcome (gate_enqueue (info_ID c) (NewMessage (-1) ActionNotifyError (IString err)) w)
             (\<lambda>(_, w'). Ret w')
      else Ret w)"

fun handler_Handle ::
    "msg_env \<Rightarrow> bool \<Rightarrow> msg_handler \<Rightarrow> Info \<Rightarrow> GlideMessage \<Rightarrow> msgw \<Rightarrow> (bool \<times> msgw) outcome" where
  "handler_Handle env notify (ActionHandler action fn) c m w =
     (if GetAction m = action
      then bind_outcome (run_fn env fn c m w) (\<lambda>(e, w1).
             case e of
               None \<Rightarrow> Ret (True, w1)
             | Some err \<Rightarrow> bind_outcome (OnHandleMessageError notify c err w1) (\<lambda>w2. Ret (True, w2)))
      else Ret (False, w))"
| "handler_Handle env notify ClientCustom c m w = ClientCustom_Handle m w"
| "handler_Handle env notify InternalHandler c m w = InternalHandler_Handle m w"
| "handler_Handle env notify (Validation vs) c m w = run_validators vs c m w"

definition NewActionHandler :: "string \<Rightarrow> handler_fn \<Rightarrow> msg_handler" where
  "NewActionHandler action fn = ActionHandler action fn"

definition NewMessageValidationHandler :: "validator list \<Rightarrow> msg_handler" where
  "NewMessageValidationHandler vs = Validation vs"

text \<open>
  \<^verbatim>\<open>ActionWithReplyHandler\<close>; \<open>enqueue\<close> is the gateway's \<^verbatim>\<open>EnqueueMessage\<close>, which takes the reply as a pointer that
  may be nil. No handler of the program is of this kind.
\<close>
record ActionWithReplyHandler =
  rh_action :: string
  rh_fn :: "Info \<Rightarrow> GlideMessage \<Rightarrow> msgw \<Rightarrow> ((GlideMessage option \<times> go_error) \<times> msgw) outcome"

definition NewActionWithReplyHandler ::
    "string \<Rightarrow> (Info \<Rightarrow> GlideMessage \<Rightarrow> msgw \<Rightarrow> ((GlideMessage option \<times> go_error) \<times> msgw) outcome) \<Rightarrow> ActionWithReplyHandler" where
  "NewActionWithReplyHandler action fn = \<lparr>rh_action = action, rh_fn = fn\<rparr>"

definition Reply_Handle ::
    "(ID \<Rightarrow> GlideMessage option \<Rightarrow> msgw \<Rightarrow> msg_result) \<Rightarrow> bool \<Rightarrow> ActionWithReplyHandler \<Rightarrow> Info \<Rightarrow> GlideMessage \<Rightarrow> msgw \<Rightarrow>
     (bool \<times> msgw) outcome" where
  "Reply_Handle enqueue notify rh c m w =
     (if GetAction m = rh_action rh
      then bind_outcome (rh_fn rh c m w) (\<lambda>((r, e), w1).
           bind_outcome (case e of None \<Rightarrow> Ret w1 | Some err \<Rightarrow> OnHandleMessageError notify c err w1) (\<lambda>w2.
           bind_outcome (enqueue (info_ID c) r w2) (\<lambda>(_, w3). Ret (True, w3))))
      else Ret (False, w))"

text \<open>\<^verbatim>\<open>handlerChain\<close>: a handler, possibly nil, and the rest of the chain, possibly nil.\<close>
datatype handlerChain = Chain "msg_handler option" "handlerChain option"

fun hc_add :: "msg_handler \<Rightarrow> handlerChain \<Rightarrow> handlerChain" where
  "hc_add i (Chain h None) = Chain h (Some (Chain (Some i) None))"
| "hc_add i (Chain h (Some nxt)) = Chain h (Some (hc_add i nxt))"

fun hc_handle ::
    "msg_env \<Rightarrow> bool \<Rightarrow> handlerChain \<Rightarrow> Info \<Rightarrow> GlideMessage \<Rightarrow> msgw \<Rightarrow> (bool \<times> msgw) outcome" where
  "hc_handle env notify (Chain h nxt) c m w =
     bind_outcome
       (case h of None \<Rightarrow> Ret (False, w) | Some i \<Rightarrow> handler_Handle env notify i c m w)
       (\<lambda>(handled, w1).
          if handled then Ret (True, w1)
          else case nxt of None \<Rightarrow> Ret (False, w1) | Some n \<Rightarrow> hc_handle env notify n c m w1)"

text \<open>The ten handlers of the map in \<^verbatim>\<open>InitDefaultHandler\<close>, in some order.\<close>
definition default_actions :: "(string \<times> handler_fn) list" where
  "default_actions =
     [(ActionChatMessage, HChat), (ActionGroupMessage, HGroup), (ActionApiGroupMembers, HGroupMembers),
      (ActionAckRequest, HAckRequest), (ActionAckGroupMsg, HAckGroup), (AckOffline, HAckOffline),
      (ActionHeartbeat, HHeartbeat), (ActionInternalOnline, HOnline),
      (ActionInternalOffline, HOffline), (ActionApiSubUserState, HSubState)]"

definition add_all :: "msg_handler list \<Rightarrow> handlerChain \<Rightarrow> handlerChain" where
  "add_all hs hc = foldl (\<lambda>h i. hc_add i h) hc hs"

text \<open>A callback can replace the handler of an action.\<close>
definition InitDefaultHandler ::
    "(string \<Rightarrow> handler_fn \<Rightarrow> handler_fn) option \<Rightarrow> (string \<times> handler_fn) list \<Rightarrow> handlerChain \<Rightarrow> handlerChain" where
  "InitDefaultHandler callback order hc =
     (let chosen = (\<lambda>action fn. case callback of None \<Rightarrow> fn | Some cb \<Rightarrow> cb action fn)
      in hc_add (NewActionHandler ActionHeartbeat HHeartbeat)
           (hc_add ClientCustom (add_all (map (\<lambda>(a, f). NewActionHandler a (chosen a f)) order) hc)))"

record MessageInterfaceImpl =
  hc :: handlerChain
  notifyOnSrvErr :: bool
  exec_cap :: nat
  exec_pool :: "(Info \<times> GlideMessage) list"

definition NewDefaultImpl :: "bool \<Rightarrow> nat \<Rightarrow> MessageInterfaceImpl" where
  "NewDefaultImpl notify n =
     \<lparr>hc = Chain None None, notifyOnSrvErr = notify, exec_cap = n, exec_pool = []\<rparr>"

definition SetNotifyErrorOnServer :: "bool \<Rightarrow> MessageInterfaceImpl \<Rightarrow> MessageInterfaceImpl" where
  "SetNotifyErrorOnServer enable d = d\<lparr>notifyOnSrvErr := enable\<rparr>"

declare SetNotifyErrorOnServer_def [simp]

definition NewHandlerWithOptions :: "bool \<Rightarrow> bool \<Rightarrow> (string \<times> handler_fn) list \<Rightarrow> MessageInterfaceImpl" where
  "NewHandlerWithOptions notifyOnErr dontInit order =
     (let impl = SetNotifyErrorOnServer notifyOnErr (NewDefaultImpl True 100000)
      in if dontInit then impl else impl\<lparr>hc := InitDefaultHandler None order (hc impl)\<rparr>)"

definition AddHandler :: "msg_handler \<Rightarrow> MessageInterfaceImpl \<Rightarrow> MessageInterfaceImpl" where
  "AddHandler i d = d\<lparr>hc := hc_add i (hc d)\<rparr>"

text \<open>
  The gateway and the subscription service are the ones of \<open>msgw\<close>. \<^verbatim>\<open>MessageHandlerImpl\<close> passes both setters on to
  the implementation it wraps.
\<close>
definition SetGate :: "gateway \<Rightarrow> msgw \<Rightarrow> msgw" where
  "SetGate g w = w\<lparr>mw_gate := g\<rparr>"

definition SetSubscription :: "realSubscription \<Rightarrow> msgw \<Rightarrow> msgw" where
  "SetSubscription u w = w\<lparr>mw_sub := u\<rparr>"

definition handler_SetGate :: "gateway \<Rightarrow> msgw \<Rightarrow> msgw" where
  "handler_SetGate g w = SetGate g w"

definition handler_AddHandler :: "msg_handler \<Rightarrow> MessageInterfaceImpl \<Rightarrow> MessageInterfaceImpl" where
  "handler_AddHandler i d = AddHandler i d"

definition handler_SetSubscription :: "realSubscription \<Rightarrow> msgw \<Rightarrow> msgw" where
  "handler_SetSubscription u w = SetSubscription u w"

definition GetClientInterface :: "msgw \<Rightarrow> gateway" where
  "GetClientInterface w = mw_gate w"

definition GetGroupInterface :: "msgw \<Rightarrow> realSubscription" where
  "GetGroupInterface w = mw_sub w"

definition dispatchGroupMessage :: "msg_env \<Rightarrow> int \<Rightarrow> ChatMessage \<Rightarrow> msgw \<Rightarrow> msg_result" where
  "dispatchGroupMessage env gid msg w =
     bind_outcome (impl_PublishMessage (me_chan env) '''' PubNil (GetGroupInterface w)) (\<lambda>(e, u). Ret (e, SetSubscription u w))"

definition unmarshalData :: "msg_env \<Rightarrow> gotype \<Rightarrow> GlideMessage \<Rightarrow> bool \<times> gostruct option" where
  "unmarshalData env to m =
     (case Deserialize (me_json env) to (Data m) of Inl _ \<Rightarrow> (False, None) | Inr x \<Rightarrow> (True, Some x))"

text \<open>The function submitted to the pool.\<close>
definition handle_task :: "msg_env \<Rightarrow> MessageInterfaceImpl \<Rightarrow> Info \<Rightarrow> GlideMessage \<Rightarrow> msgw \<Rightarrow> msgw outcome" where
  "handle_task env d c m w =
     bind_outcome (hc_handle env (notifyOnSrvErr d) (hc d) c m w) (\<lambda>(handled, w1).
       if \<not> handled \<and> \<not> IsInternal (GetAction m)
       then bind_outcome (gate_enqueue (info_ID c)
              (NewMessage (GetSeq m) ActionNotifyUnknownAction (IAction (GetAction m))) w1) (\<lambda>(_, w2). Ret w2)
       else Ret w1)"

definition pool_overload :: string where
  "pool_overload = ''too many goroutines blocked on submit or Nonblocking is set''"

definition Handle :: "Info \<Rightarrow> GlideMessage \<Rightarrow> MessageInterfaceImpl \<Rightarrow> msgw \<Rightarrow>
    (go_error \<times> MessageInterfaceImpl \<times> msgw) outcome" where
  "Handle c m d w =
     (let m1 = (if \<not> IsInternal (GetAction m) then m\<lparr>From := UID (info_ID c)\<rparr> else m)
      in if length (exec_pool d) < exec_cap d
         then Ret (nil, d\<lparr>exec_pool := exec_pool d @ [(c, m1)]\<rparr>, w)
         else bind_outcome (OnHandleMessageError (notifyOnSrvErr d) c pool_overload w) (\<lambda>w1.
              Ret (Some pool_overload, d, w1)))"

definition handler_Handle_msg :: "Info \<Rightarrow> GlideMessage \<Rightarrow> MessageInterfaceImpl \<Rightarrow> msgw \<Rightarrow>
    (go_error \<times> MessageInterfaceImpl \<times> msgw) outcome" where
  "handler_Handle_msg c m d w = Handle c m d w"

section \<open>The gateway behind the handlers\<close>

text \<open>The handlers see the gateway through \<open>gate_enqueue\<close>, which provides the same interface.\<close>

interpretation mwp: gateway_port gate_enqueue "\<lambda>w. \<not> mu (mw_gate w)" "\<lambda>w. gw_online (mw_gate w)"
  "\<lambda>w. gw_room (mw_gate w)" "\<lambda>w. gw_target (mw_gate w)" "\<lambda>w. pool (mw_gate w)"
proof
  fix w :: msgw and i m
  assume w: "\<not> mu (mw_gate w)" "0 < gw_room (mw_gate w)" "gw_online (mw_gate w) i"
  show "\<exists>w'. gate_enqueue i m w = Ret (nil, w') \<and> \<not> mu (mw_gate w') \<and>
      gw_online (mw_gate w') = gw_online (mw_gate w) \<and> gw_room (mw_gate w) = Suc (gw_room (mw_gate w')) \<and>
      gw_target (mw_gate w') = gw_target (mw_gate w) \<and>
      pool (mw_gate w') = pool (mw_gate w) @ [(gw_target (mw_gate w) i, m)]"
    using gwp.enqueue_ok [OF w, of m] by (auto simp: gate_enqueue_def)
next
  fix w :: msgw and i m
  assume w: "\<not> mu (mw_gate w)" "\<not> gw_online (mw_gate w) i"
  show "\<exists>e. gate_enqueue i m w = Ret (Some e, w)"
    using gwp.enqueue_err [OF w, of m] by (auto simp: gate_enqueue_def)
qed

text \<open>A message handed to the gateway changes nothing but the gateway.\<close>
lemma gate_enqueue_frame:
  "gate_enqueue i m w = Ret (e, w') \<Longrightarrow> w' = w\<lparr>mw_gate := mw_gate w'\<rparr>"
  by (cases "Impl_EnqueueMessage i m (mw_gate w)") (auto simp: gate_enqueue_def)

lemma dispatch_loop_all:
  "dispatch_loop ds uid m w = mwp.enqueue_all (map (NewID '''' uid) ds) m w"
  by (induction ds arbitrary: w) (simp_all add: mwp.enqueue_all.simps)

lemma dispatch_loop_frame:
  "dispatch_loop ds uid m w = Ret (ok, w') \<Longrightarrow> w' = w\<lparr>mw_gate := mw_gate w'\<rparr>"
proof (induction ds arbitrary: w ok)
  case (Cons d ds)
  then obtain e w1 ok1 where e: "gate_enqueue (NewID '''' uid d) m w = Ret (e, w1)"
    and l: "dispatch_loop ds uid m w1 = Ret (ok1, w')"
    by (auto simp: bind_outcome_eq_Ret)
  show ?case using gate_enqueue_frame [OF e] Cons.IH [OF l] by (cases w) (cases w1, cases w', auto)
qed simp

section \<open>Chat messages\<close>

text \<open>What \<open>ackChatMessage\<close> and the delivery send.\<close>
definition ack_message :: "ChatMessage \<Rightarrow> GlideMessage" where
  "ack_message m = NewMessage 0 ActionAckMessage (Ptr (SAckMessage
     \<lparr>am_CliMid = cm_CliMid m, am_Mid = cm_Mid m, am_From = cm_To m, am_Seq = cm_Seq m\<rparr>))"

definition chat_message :: "ChatMessage \<Rightarrow> GlideMessage" where
  "chat_message m = NewMessage 0 ActionChatMessage (Ptr (SChat m))"

text \<open>The entries that a message to the identifiers \<open>is\<close> adds to the pool of a gateway.\<close>
definition to_online :: "gateway \<Rightarrow> ID list \<Rightarrow> GlideMessage \<Rightarrow> (nat \<times> GlideMessage) list" where
  "to_online g is m = map (\<lambda>i. (gw_target g i, m)) (filter (gw_online g) is)"

lemma gate_enqueue_total:
  assumes "\<not> mu (mw_gate w)" "0 < gw_room (mw_gate w)"
  shows "\<exists>e w'. gate_enqueue i m w = Ret (e, w') \<and> w' = w\<lparr>mw_gate := mw_gate w'\<rparr> \<and>
    \<not> mu (mw_gate w') \<and> gw_online (mw_gate w') = gw_online (mw_gate w) \<and>
    gw_target (mw_gate w') = gw_target (mw_gate w) \<and> gw_room (mw_gate w) \<le> Suc (gw_room (mw_gate w')) \<and>
    (e = nil \<longleftrightarrow> gw_online (mw_gate w) i) \<and>
    pool (mw_gate w') = pool (mw_gate w) @ to_online (mw_gate w) [i] m"
  using mwp.enqueue_total [OF assms, of i m] gate_enqueue_frame [of i m w]
  by (fastforce simp: to_online_def)

lemma dispatchAllDevice_reaches:
  assumes "\<not> mu (mw_gate w)" "4 \<le> gw_room (mw_gate w)"
  shows "\<exists>w'. dispatchAllDevice uid m w = Ret (\<exists>d \<in> set devices. gw_online (mw_gate w) (NewID '''' uid d), w') \<and>
    w' = w\<lparr>mw_gate := mw_gate w'\<rparr> \<and> \<not> mu (mw_gate w') \<and> gw_online (mw_gate w') = gw_online (mw_gate w) \<and>
    gw_target (mw_gate w') = gw_target (mw_gate w) \<and>
    pool (mw_gate w') = pool (mw_gate w) @ to_online (mw_gate w) (map (NewID '''' uid) devices) m"
proof -
  have "length (map (NewID '''' uid) devices) \<le> gw_room (mw_gate w)" using assms(2) by (simp add: devices_def)
  from mwp.enqueue_all_reaches [OF assms(1) this, of m] obtain w' where
    w': "dispatchAllDevice uid m w = Ret (\<exists>d \<in> set devices. gw_online (mw_gate w) (NewID '''' uid d), w')"
      "\<not> mu (mw_gate w')" "gw_online (mw_gate w') = gw_online (mw_gate w)"
      "gw_target (mw_gate w') = gw_target (mw_gate w)"
      "pool (mw_gate w') = pool (mw_gate w) @ to_online (mw_gate w) (map (NewID '''' uid) devices) m"
    by (auto simp: dispatchAllDevice_def dispatch_loop_all to_online_def)
  moreover from w'(1) have "w' = w\<lparr>mw_gate := mw_gate w'\<rparr>"
    by (auto simp: dispatchAllDevice_def dest: dispatch_loop_frame)
  ultimately show ?thesis by blast
qed

text \<open>The notification of a receiver that is not online reaches nobody.\<close>
lemma ackNotify_offline:
  assumes "\<not> mu (mw_gate w)" "\<not> gw_online (mw_gate w) (NewID '''' (cm_To m) '''')"
  shows "\<exists>e. ackNotifyMessage c m w = Ret (Some e, w)"
  using mwp.enqueue_err [OF assms] by (simp add: ackNotifyMessage_def NewID2_NewID)

text \<open>The message after \<open>handleChatMessage\<close> set its sender and receiver and stored it.\<close>
definition chat_accepted :: "msg_env \<Rightarrow> Info \<Rightarrow> GlideMessage \<Rightarrow> ChatMessage \<Rightarrow> string + ChatMessage" where
  "chat_accepted env c m msg =
     (let msg1 = msg\<lparr>cm_From := UID (info_ID c), cm_To := To m\<rparr>
      in if cm_Mid msg = 0 \<and> Action m \<noteq> ActionChatMessageResend then me_store env msg1 else Inr msg1)"

lemma chat_delivery:
  assumes w: "\<not> mu (mw_gate w)" "5 \<le> gw_room (mw_gate w)"
    and d: "Deserialize_Chat (me_json env) (Data m) = Inr msg" "chat_accepted env c m msg = Inr acc"
  defines "g \<equiv> mw_gate w" and "receivers \<equiv> map (NewID '''' (cm_To acc)) devices"
  shows "\<exists>w'. pool (mw_gate w') =
        pool g @ to_online g [info_ID c] (ack_message acc) @ to_online g receivers (chat_message acc) \<and>
      mw_stored w' = mw_stored w @ (if cm_Mid msg = 0 \<and> Action m \<noteq> ActionChatMessageResend then [acc] else []) \<and>
      mw_offline w' = mw_offline w \<and> mw_sub w' = mw_sub w \<and> mw_state w' = mw_state w \<and>
      handleChatMessage env c m w =
        (if \<exists>i \<in> set receivers. gw_online g i then Ret (nil, w') else dispatchOffline env acc w')"
proof -
  define store where "store = (cm_Mid msg = 0 \<and> Action m \<noteq> ActionChatMessageResend)"
  define w1 where "w1 = (if store then w\<lparr>mw_stored := mw_stored w @ [acc]\<rparr> else w)"
  have w1: "mw_gate w1 = g" "mw_offline w1 = mw_offline w" "mw_sub w1 = mw_sub w" "mw_state w1 = mw_state w"
    "mw_stored w1 = mw_stored w @ (if store then [acc] else [])"
    by (simp_all add: w1_def g_def)
  obtain e w2 where a: "ackChatMessage c acc w1 = Ret (e, w2)" "w2 = w1\<lparr>mw_gate := mw_gate w2\<rparr>"
    "\<not> mu (mw_gate w2)" "gw_online (mw_gate w2) = gw_online g" "gw_target (mw_gate w2) = gw_target g"
    "4 \<le> gw_room (mw_gate w2)" "pool (mw_gate w2) = pool g @ to_online g [info_ID c] (ack_message acc)"
    using gate_enqueue_total [of w1 "info_ID c" "ack_message acc"] w w1
    by (auto simp: ackChatMessage_def ack_message_def g_def)
  obtain w3 where p: "dispatchAllDevice (cm_To acc) (chat_message acc) w2 =
        Ret (\<exists>i \<in> set receivers. gw_online g i, w3)"
      "w3 = w2\<lparr>mw_gate := mw_gate w3\<rparr>" "\<not> mu (mw_gate w3)" "gw_online (mw_gate w3) = gw_online g"
      "pool (mw_gate w3) = pool (mw_gate w2) @ to_online g receivers (chat_message acc)"
    using dispatchAllDevice_reaches [OF a(3,6), of "cm_To acc" "chat_message acc"] a(4,5)
    by (auto simp: receivers_def to_online_def)
  have "handleChatMessage env c m w =
      (if \<exists>i \<in> set receivers. gw_online g i then Ret (nil, w3) else dispatchOffline env acc w3)"
  proof (cases "\<exists>i \<in> set receivers. gw_online g i")
    case False
    then have "\<not> gw_online (mw_gate w3) (NewID '''' (cm_To acc) '''')"
      using p(4) by (auto simp: receivers_def devices_def)
    from ackNotify_offline [OF p(3) this] obtain e2 where "ackNotifyMessage c acc w3 = Ret (Some e2, w3)" by blast
    then show ?thesis using d a(1) p(1) False
      by (simp add: handleChatMessage_def chat_accepted_def Let_def store_def w1_def chat_message_def split: if_splits)
  next
    case True
    then show ?thesis using d a(1) p(1)
      by (simp add: handleChatMessage_def chat_accepted_def Let_def store_def w1_def chat_message_def split: if_splits)
  qed
  moreover have "mw_offline w3 = mw_offline w" "mw_sub w3 = mw_sub w" "mw_state w3 = mw_state w"
    "mw_stored w3 = mw_stored w @ (if store then [acc] else [])"
    using w1 arg_cong [OF p(2), of mw_offline] arg_cong [OF p(2), of mw_sub] arg_cong [OF p(2), of mw_state]
      arg_cong [OF p(2), of mw_stored] arg_cong [OF a(2), of mw_stored]
      arg_cong [OF a(2), of mw_offline] arg_cong [OF a(2), of mw_sub] arg_cong [OF a(2), of mw_state]
    by simp_all
  ultimately show ?thesis using p(5) a(7) unfolding store_def by (intro exI [of _ w3]) simp
qed

text \<open>
  C5: a chat message is stored (unless it already has an identifier or is a resend), acknowledged
  to its sender, and handed to every online device of its receiver; its sender is the user of the
  connection and its receiver the one of the envelope, whatever the body says. Nobody else is sent
  anything. When no device is online the message goes to the offline store. The call neither blocks
  nor fails on the way.
\<close>
theorem chat_message_delivery:
  assumes w: "\<not> mu (mw_gate w)" "5 \<le> gw_room (mw_gate w)"
    and d: "Deserialize_Chat (me_json env) (Data m) = Inr msg" "chat_accepted env c m msg = Inr acc"
    and store: "\<And>x y. me_store env x = Inr y \<Longrightarrow> cm_From y = cm_From x \<and> cm_To y = cm_To x"
  shows "cm_From acc = UID (info_ID c) \<and> cm_To acc = To m \<and>
    (\<exists>w'. handleChatMessage env c m w =
        (if \<exists>d \<in> set devices. gw_online (mw_gate w) (NewID '''' (To m) d) then Ret (nil, w')
         else dispatchOffline env acc w') \<and>
      pool (mw_gate w') = pool (mw_gate w) @
        to_online (mw_gate w) [info_ID c] (ack_message acc) @
        to_online (mw_gate w) (map (NewID '''' (To m)) devices) (chat_message acc) \<and>
      mw_stored w' = mw_stored w @ (if cm_Mid msg = 0 \<and> Action m \<noteq> ActionChatMessageResend then [acc] else []) \<and>
      mw_offline w' = mw_offline w \<and> mw_sub w' = mw_sub w \<and> mw_state w' = mw_state w)"
proof -
  have "cm_From acc = UID (info_ID c) \<and> cm_To acc = To m"
    using d(2) store by (auto simp: chat_accepted_def Let_def split: if_splits dest: store)
  then show ?thesis using chat_delivery [OF w d] by auto
qed

definition demo_chat :: ChatMessage where
  "demo_chat = \<lparr>cm_CliMid = ''c1'', cm_Mid = 0, cm_Seq = 0, cm_From = ''mallory'', cm_To = ''eve'',
     cm_Type = 1, cm_Content = ''hi'', cm_SendAt = 0\<rparr>"

definition demo_msgw :: msgw where
  "demo_msgw = \<lparr>mw_gate = demo_gateway, mw_sub = newRealSubscription, mw_state = NewUserState,
     mw_stored = [], mw_offline = [], mw_redis = [], mw_world = []\<rparr>"

definition demo_msg_env :: msg_env where
  "demo_msg_env = \<lparr>me_json = (\<lambda>t b. Inl ''''), me_store = (\<lambda>x. Inr (x\<lparr>cm_Mid := 7\<rparr>)),
     me_store_offline = (\<lambda>_. Ret nil), me_chan = demo_chan_env Idle_NextSegmentSequence\<rparr>"

definition demo_info :: Info where
  "demo_info = info (heap demo_gateway 0)"

definition demo_envelope :: GlideMessage where
  "demo_envelope = (NewMessage 1 ActionChatMessage (Ptr (SChat demo_chat)))\<lparr>To := ''bob''\<rparr>"

theorem chat_message_delivery_witness:
  "\<exists>acc. cm_Mid acc = 7 \<and> cm_From acc = UID (info_ID demo_info) \<and> cm_To acc = ''bob'' \<and>
    (\<exists>w'. handleChatMessage demo_msg_env demo_info demo_envelope demo_msgw =
        (if \<exists>d \<in> set devices. gw_online demo_gateway (NewID '''' ''bob'' d) then Ret (nil, w')
         else dispatchOffline demo_msg_env acc w') \<and>
      pool (mw_gate w') = pool demo_gateway @
        to_online demo_gateway [info_ID demo_info] (ack_message acc) @
        to_online demo_gateway (map (NewID '''' ''bob'') devices) (chat_message acc))"
proof -
  let ?acc = "demo_chat\<lparr>cm_From := UID (info_ID demo_info), cm_To := ''bob'', cm_Mid := 7\<rparr>"
  have "\<not> mu (mw_gate demo_msgw)" "5 \<le> gw_room (mw_gate demo_msgw)"
    using demo_gateway_simps(1) by (simp_all add: demo_msgw_def good_def gw_room_def demo_gateway_simps)
  moreover have "Deserialize_Chat (me_json demo_msg_env) (Data demo_envelope) = Inr demo_chat"
    by (simp add: Deserialize_Chat_def demo_envelope_def Deserialize_Ptr)
  moreover have "chat_accepted demo_msg_env demo_info demo_envelope demo_chat = Inr ?acc"
    by (simp add: chat_accepted_def demo_envelope_def demo_chat_def demo_msg_env_def action_defs)
  ultimately have "cm_From ?acc = UID (info_ID demo_info) \<and> cm_To ?acc = To demo_envelope \<and>
    (\<exists>w'. handleChatMessage demo_msg_env demo_info demo_envelope demo_msgw =
        (if \<exists>d \<in> set devices. gw_online (mw_gate demo_msgw) (NewID '''' (To demo_envelope) d) then Ret (nil, w')
         else dispatchOffline demo_msg_env ?acc w') \<and>
      pool (mw_gate w') = pool (mw_gate demo_msgw) @
        to_online (mw_gate demo_msgw) [info_ID demo_info] (ack_message ?acc) @
        to_online (mw_gate demo_msgw) (map (NewID '''' (To demo_envelope)) devices) (chat_message ?acc) \<and>
      mw_stored w' = mw_stored demo_msgw @
        (if cm_Mid demo_chat = 0 \<and> Action demo_envelope \<noteq> ActionChatMessageResend then [?acc] else []) \<and>
      mw_offline w' = mw_offline demo_msgw \<and> mw_sub w' = mw_sub demo_msgw \<and> mw_state w' = mw_state demo_msgw)"
    by (rule chat_message_delivery) (auto simp: demo_msg_env_def)
  then show ?thesis
    by (intro exI [of _ ?acc]) (auto simp: demo_msgw_def demo_envelope_def)
qed


section \<open>Dispatch over the chain\<close>

text \<open>The handlers of a chain, in the order in which they are asked.\<close>
fun chain_list :: "handlerChain \<Rightarrow> msg_handler list" where
  "chain_list (Chain h None) = (case h of None \<Rightarrow> [] | Some i \<Rightarrow> [i])"
| "chain_list (Chain h (Some n)) = (case h of None \<Rightarrow> [] | Some i \<Rightarrow> [i]) @ chain_list n"

fun first_handles ::
    "msg_env \<Rightarrow> bool \<Rightarrow> msg_handler list \<Rightarrow> Info \<Rightarrow> GlideMessage \<Rightarrow> msgw \<Rightarrow> (bool \<times> msgw) outcome" where
  "first_handles env nt [] c m w = Ret (False, w)"
| "first_handles env nt (h # hs) c m w =
     bind_outcome (handler_Handle env nt h c m w) (\<lambda>(handled, w1).
       if handled then Ret (True, w1) else first_handles env nt hs c m w1)"

lemma hc_handle_list: "hc_handle env nt ch c m w = first_handles env nt (chain_list ch) c m w"
proof (induction ch arbitrary: w rule: chain_list.induct)
  case (2 h n)
  then show ?case by (cases h) (simp_all cong: if_cong)
qed (simp split: option.split cong: if_cong)

lemma chain_list_add: "chain_list (hc_add i ch) = chain_list ch @ [i]"
  by (induction i ch rule: hc_add.induct) simp_all

lemma chain_list_add_all: "chain_list (add_all hs ch) = chain_list ch @ hs"
  unfolding add_all_def by (induction hs arbitrary: ch) (simp_all add: chain_list_add)

lemma chain_list_default:
  "chain_list (hc (NewHandlerWithOptions nt False order)) =
     map (\<lambda>(a, f). ActionHandler a f) order @ [ClientCustom, ActionHandler ActionHeartbeat HHeartbeat]"
  by (simp add: NewHandlerWithOptions_def NewDefaultImpl_def InitDefaultHandler_def NewActionHandler_def chain_list_add
      chain_list_add_all Let_def)

text \<open>A message runs through handlers of other actions untouched.\<close>
lemma first_handles_actions:
  assumes "distinct (map fst order)"
  shows "first_handles env nt (map (\<lambda>(a, f). ActionHandler a f) order @ hs) c m w =
    (case map_of order (GetAction m) of
       None \<Rightarrow> first_handles env nt hs c m w
     | Some f \<Rightarrow> handler_Handle env nt (ActionHandler (GetAction m) f) c m w)"
  using assms
proof (induction order)
  case (Cons p ps)
  obtain a f where p: "p = (a, f)" by (cases p)
  then show ?case using Cons
    by (cases "run_fn env f c m w")
      (auto simp: bind_outcome_assoc case_prod_unfold split: option.split)
qed simp

lemma default_handles:
  assumes "mset order = mset default_actions"
  shows "hc_handle env nt (hc (NewHandlerWithOptions ne False order)) c m w =
    (case map_of default_actions (GetAction m) of
       Some f \<Rightarrow> bind_outcome (run_fn env f c m w) (\<lambda>(e, w1).
         bind_outcome (case e of None \<Rightarrow> Ret w1 | Some err \<Rightarrow> OnHandleMessageError nt c err w1)
           (\<lambda>w2. Ret (True, w2)))
     | None \<Rightarrow>
         if GetAction m = ActionClientCustom
         then bind_outcome (dispatch2AllDevice (To m) m w) (\<lambda>(_, w'). Ret (True, w'))
         else Ret (False, w)) \<and>
    map_of default_actions ActionChatMessageResend = None"
proof -
  have dd: "distinct (map fst default_actions)"
    by (simp add: default_actions_def action_defs)
  have ms: "mset (map fst order) = mset (map fst default_actions)" using assms by simp
  then have d: "distinct (map fst order)" using dd by (metis mset_eq_imp_distinct_iff)
  have mo: "map_of order = map_of default_actions"
    using d dd assms by (intro map_of_inject_set [THEN iffD2]) (auto dest: mset_eq_setD)
  have hb: "map_of default_actions ActionHeartbeat = Some HHeartbeat"
    by (simp add: default_actions_def action_defs)
  show ?thesis
  proof (cases "map_of default_actions (GetAction m)")
    case None
    then have "GetAction m \<noteq> ActionHeartbeat" using hb by auto
    moreover have "hc_handle env nt (hc (NewHandlerWithOptions ne False order)) c m w =
        first_handles env nt [ClientCustom, ActionHandler ActionHeartbeat HHeartbeat] c m w"
      using None by (simp add: hc_handle_list chain_list_default first_handles_actions [OF d] mo)
    moreover have "map_of default_actions ActionChatMessageResend = None"
      by (simp add: default_actions_def action_defs)
    ultimately show ?thesis using None
      by (simp add: GetAction_def ClientCustom_Handle_def bind_outcome_assoc case_prod_unfold)
  next
    case (Some f)
    then have "hc_handle env nt (hc (NewHandlerWithOptions ne False order)) c m w =
        handler_Handle env nt (ActionHandler (GetAction m) f) c m w"
      by (simp add: hc_handle_list chain_list_default first_handles_actions [OF d] mo)
    also have "\<dots> = bind_outcome (run_fn env f c m w) (\<lambda>(e, w1).
         bind_outcome (case e of None \<Rightarrow> Ret w1 | Some err \<Rightarrow> OnHandleMessageError nt c err w1)
           (\<lambda>w2. Ret (True, w2)))"
      by (cases "run_fn env f c m w") (auto split: option.split)
    finally show ?thesis using Some by (simp add: default_actions_def action_defs)
  qed
qed

text \<open>
  C35: Go iterates over the map of default handlers in an arbitrary order, and the order does not
  matter: for every order of registration a message with a default action is given to the handler of
  that action only, a custom client message to all devices of its receiver, and every other message is
  not handled. In particular a resend of a chat message, which the chat handler has a case for, is not.
\<close>
theorem default_dispatch:
  assumes "mset order = mset default_actions"
  shows "hc_handle env nt (hc (NewHandlerWithOptions ne False order)) c m w =
    (case map_of default_actions (GetAction m) of
       Some f \<Rightarrow> bind_outcome (run_fn env f c m w) (\<lambda>(e, w1).
         bind_outcome (case e of None \<Rightarrow> Ret w1 | Some err \<Rightarrow> OnHandleMessageError nt c err w1)
           (\<lambda>w2. Ret (True, w2)))
     | None \<Rightarrow>
         if GetAction m = ActionClientCustom
         then bind_outcome (dispatch2AllDevice (To m) m w) (\<lambda>(_, w'). Ret (True, w'))
         else Ret (False, w)) \<and>
    map_of default_actions ActionChatMessageResend = None"
  by (rule default_handles [OF assms])

theorem default_dispatch_witness:
  "hc_handle demo_msg_env True (hc (NewHandlerWithOptions True False (rev default_actions)))
     demo_info (NewMessage 3 ActionHeartbeat INil) demo_msgw = Ret (True, demo_msgw) \<and>
   hc_handle demo_msg_env True (hc (NewHandlerWithOptions True False (rev default_actions)))
     demo_info (NewMessage 3 ActionChatMessageResend INil) demo_msgw = Ret (False, demo_msgw)"
  using default_dispatch [of "rev default_actions" demo_msg_env True True demo_info
      "NewMessage 3 ActionHeartbeat INil" demo_msgw]
    default_dispatch [of "rev default_actions" demo_msg_env True True demo_info
      "NewMessage 3 ActionChatMessageResend INil" demo_msgw]
  by (simp add: GetAction_def run_fn_def handleHeartbeat_def default_actions_def action_defs)

text \<open>
  The callback of \<^verbatim>\<open>InitDefaultHandler\<close> replaces handlers without changing what they are called for: the chain is the one
  that is built from the replaced handlers.
\<close>
lemma InitDefaultHandler_callback:
  "InitDefaultHandler (Some cb) order ch = InitDefaultHandler None (map (\<lambda>(a, f). (a, cb a f)) order) ch"
  by (simp add: InitDefaultHandler_def case_prod_unfold o_def)

text \<open>
  A handler that replies does so after an error as well, with whatever its function returned: a function that returns nil
  with its error puts nil into the queue of the client.
\<close>
lemma Reply_Handle_error:
  assumes "GetAction m = rh_action rh" "rh_fn rh c m w = Ret ((r, Some err), w1)"
    and "OnHandleMessageError notify c err w1 = Ret w2" "enqueue (info_ID c) r w2 = Ret (e, w3)"
  shows "Reply_Handle enqueue notify rh c m w = Ret (True, w3)"
  using assms by (simp add: Reply_Handle_def)

text \<open>
  What a client sends with an action that nobody handles is answered with a notification
  that names the action, when the client is online; no other client is sent anything.
\<close>
theorem unknown_action_answered:
  assumes "mset order = mset default_actions" "map_of default_actions (GetAction m) = None"
    and "GetAction m \<noteq> ActionClientCustom" "\<not> IsInternal (GetAction m)"
    and "\<not> mu (mw_gate w)" "0 < gw_room (mw_gate w)"
  shows "\<exists>w'. handle_task env (NewHandlerWithOptions ne False order) c m w = Ret w' \<and>
    w' = w\<lparr>mw_gate := mw_gate w'\<rparr> \<and>
    pool (mw_gate w') = pool (mw_gate w) @ to_online (mw_gate w) [info_ID c]
      (NewMessage (GetSeq m) ActionNotifyUnknownAction (IAction (GetAction m)))"
  using gate_enqueue_total [OF assms(5,6), of "info_ID c"
      "NewMessage (GetSeq m) ActionNotifyUnknownAction (IAction (GetAction m))"]
    default_handles [OF assms(1), of env _ ne c m w] assms(2-4)
  by (auto simp: handle_task_def)

theorem unknown_action_answered_witness:
  "\<exists>w'. handle_task demo_msg_env (NewHandlerWithOptions True False (rev default_actions)) demo_info
      (NewMessage 3 ActionChatMessageResend INil) demo_msgw = Ret w' \<and>
    w' = demo_msgw\<lparr>mw_gate := mw_gate w'\<rparr> \<and>
    pool (mw_gate w') = pool (mw_gate demo_msgw) @ to_online (mw_gate demo_msgw) [info_ID demo_info]
      (NewMessage (GetSeq (NewMessage 3 ActionChatMessageResend INil)) ActionNotifyUnknownAction
        (IAction (GetAction (NewMessage 3 ActionChatMessageResend INil))))"
proof (rule unknown_action_answered)
  show "\<not> mu (mw_gate demo_msgw)" "0 < gw_room (mw_gate demo_msgw)"
    using demo_gateway_simps(1) by (simp_all add: demo_msgw_def good_def gw_room_def demo_gateway_simps)
qed (simp_all add: GetAction_def default_actions_def action_defs IsInternal_def has_prefix_def)

section \<open>The pool of the handlers\<close>


definition demo_full :: MessageInterfaceImpl where
  "demo_full = (NewDefaultImpl True 1)\<lparr>exec_pool := [(demo_info, demo_envelope)]\<rparr>"



section \<open>Presence\<close>

lemma notify_all_push_loop: "notify_all is m g = push_loop Impl_EnqueueMessage is m g"
  by (induction "is" arbitrary: g) (simp_all add: case_prod_unfold)

lemma notify_all_reaches:
  assumes "\<not> mu g" "length is \<le> gw_room g"
  shows "\<exists>g'. notify_all is m g = Ret g' \<and> pool g' = pool g @ to_online g is m \<and> \<not> mu g' \<and>
    gw_online g' = gw_online g"
  using gwp.enqueue_all_reaches [OF assms, of m]
  by (auto simp: notify_all_push_loop push_loop_enqueue_all [OF gwp.gateway_port_axioms] to_online_def)

definition subscribers_of :: "UserState \<Rightarrow> string \<Rightarrow> string list" where
  "subscribers_of u uid = (case us_subscribers u uid of None \<Rightarrow> [] | Some l \<Rightarrow> l)"

definition subscriptions_of :: "UserState \<Rightarrow> string \<Rightarrow> string list" where
  "subscriptions_of u uid = (case us_mySubs u uid of None \<Rightarrow> [] | Some l \<Rightarrow> l)"

lemma onUserOnline_announces:
  assumes "\<not> mu g" "length (subscribers_of u (UID i)) \<le> gw_room g"
  shows "\<exists>u' g'. onUserOnline i (u, g) = Ret (u', g') \<and> subscribers_of u' = subscribers_of u \<and>
    pool g' = pool g @ to_online g (map NewID2 (subscribers_of u (UID i))) (state_message i False)"
proof -
  let ?is = "map NewID2 (subscribers_of u (UID i))"
  obtain g1 where g1: "notify_all ?is (state_message i False) g = Ret g1"
      "pool g1 = pool g @ to_online g ?is (state_message i False)"
    using notify_all_reaches [OF assms(1), of ?is] assms(2) by auto
  show ?thesis
  proof (cases "us_subscribers u (UID i)")
    case None
    then have "subscribers_of (u\<lparr>us_subscribers := (us_subscribers u)(UID i := Some [])\<rparr>) = subscribers_of u"
      by (auto simp: subscribers_of_def fun_eq_iff)
    then show ?thesis using g1 None by (simp add: onUserOnline_def notifyOnline_def subscribers_of_def)
  next
    case (Some l)
    then show ?thesis using g1 by (simp add: onUserOnline_def notifyOnline_def subscribers_of_def)
  qed
qed

lemma onUserOffline_announces:
  assumes "\<not> mu g" "length (subscribers_of u (UID i)) \<le> gw_room g"
  shows "\<exists>u' g'. onUserOffline i (u, g) = Ret (u', g') \<and>
    pool g' = pool g @ to_online g (map NewID2 (subscribers_of u (UID i))) (state_message i True)"
proof (cases "subscribers_of u (UID i) = []")
  case True
  then show ?thesis by (simp add: onUserOffline_def subscribers_of_def to_online_def split: option.splits)
next
  case False
  then obtain l where "us_subscribers u (UID i) = Some l" "l \<noteq> []" "subscribers_of u (UID i) = l"
    by (auto simp: subscribers_of_def split: option.splits)
  then show ?thesis
    using notify_all_reaches [OF assms(1), of "map NewID2 l" "state_message i True"] assms(2)
    by (auto simp: onUserOffline_def notifyOffline_def Let_def split: option.split)
qed

text \<open>
  A user that comes online or leaves is announced to exactly its subscribers that are online,
  without blocking. The announcement carries the wrong state: \<open>Online\<close> is false for a user that
  came online and true for one that left.
\<close>
theorem presence_announced:
  assumes "\<not> mu g" "length (subscribers_of u (UID i)) \<le> gw_room g"
  shows "(\<exists>u' g'. onUserOnline i (u, g) = Ret (u', g') \<and> subscribers_of u' = subscribers_of u \<and>
      pool g' = pool g @ to_online g (map NewID2 (subscribers_of u (UID i)))
        (NewMessage 0 ActionNotifyUserState (Val (SUserState \<lparr>us_Uid = UID i, us_Online = False\<rparr>)))) \<and>
    (\<exists>u' g'. onUserOffline i (u, g) = Ret (u', g') \<and>
      pool g' = pool g @ to_online g (map NewID2 (subscribers_of u (UID i)))
        (NewMessage 0 ActionNotifyUserState (Val (SUserState \<lparr>us_Uid = UID i, us_Online = True\<rparr>))))"
  using onUserOnline_announces [OF assms] onUserOffline_announces [OF assms]
  by (simp add: state_message_def)

lemma subscribe_targets_lists:
  "subscribers_of (subscribe_targets my us u) uid =
     (if uid \<in> set us then List.insert my (subscribers_of u uid) else subscribers_of u uid)"
  by (induction us arbitrary: u) (auto simp: subscribers_of_def Let_def split: option.split)

lemma subscribe_targets_subscriptions:
  "set (subscriptions_of (subscribe_targets my us u) v) =
     (if v = my then set us \<union> set (subscriptions_of u v) else set (subscriptions_of u v))"
  by (induction us arbitrary: u) (auto simp: subscriptions_of_def Let_def split: option.split)

lemma unsubscribe_targets_lists:
  "subscribers_of (unsubscribe_targets us u) uid =
     (if uid \<in> set us then removeAll uid (subscribers_of u uid) else subscribers_of u uid)"
  by (induction us arbitrary: u) (auto simp: subscribers_of_def split: option.split)

text \<open>The two maps of a \<open>UserState\<close> are converses of each other.\<close>
definition us_inv :: "UserState \<Rightarrow> bool" where
  "us_inv u = (\<forall>a b. a \<in> set (subscribers_of u b) \<longleftrightarrow> b \<in> set (subscriptions_of u a))"

lemma us_inv_subscribe: "us_inv u \<Longrightarrow> us_inv (snd (subUserStateApi js c m u))"
proof -
  assume u: "us_inv u"
  have "us_inv (u\<lparr>us_mySubs := (us_mySubs u)(my := Some [])\<rparr>)" if "us_mySubs u my = None" for my
  proof -
    have "subscriptions_of (u\<lparr>us_mySubs := (us_mySubs u)(my := Some [])\<rparr>) = subscriptions_of u"
      using that by (auto simp: subscriptions_of_def fun_eq_iff)
    moreover have "subscribers_of (u\<lparr>us_mySubs := (us_mySubs u)(my := Some [])\<rparr>) = subscribers_of u"
      by (auto simp: subscribers_of_def fun_eq_iff)
    ultimately show ?thesis using u by (simp add: us_inv_def)
  qed
  moreover have "us_inv (subscribe_targets my us v)" if "us_inv v" for my us v
    using that by (auto simp: us_inv_def subscribe_targets_lists subscribe_targets_subscriptions split: if_splits)
  ultimately show ?thesis using u
    by (auto simp: subUserStateApi_def Let_def split: sum.split option.split)
qed

lemma onUserOffline_state:
  assumes "onUserOffline i (u, g) = Ret (u', g')"
  shows "u' = (if subscribers_of u (UID i) = [] \<or> us_mySubs u (UID i) = None then u
     else (unsubscribe_targets (subscriptions_of u (UID i)) u)
       \<lparr>us_mySubs := (us_mySubs (unsubscribe_targets (subscriptions_of u (UID i)) u))(UID i := None)\<rparr>)"
  using assms
  by (cases "us_mySubs u (UID i)")
    (simp_all add: onUserOffline_def Let_def bind_outcome_eq_Ret subscribers_of_def subscriptions_of_def
      split: option.splits if_splits)

text \<open>
  Subscribing keeps the map of subscribers and the map of subscriptions converses of each
  other, going offline does not: a user that leaves stays a subscriber of every other user it
  subscribed to, and is announced their changes for ever.
\<close>
theorem offline_keeps_subscription:
  assumes "us_inv u" "b \<in> set (subscriptions_of u (UID i))" "b \<noteq> UID i"
    and "onUserOffline i (u, g) = Ret (u', g')"
  shows "us_inv (snd (subUserStateApi js c m u)) \<and> UID i \<in> set (subscribers_of u' b) \<and>
    (subscribers_of u (UID i) \<noteq> [] \<longrightarrow> subscriptions_of u' (UID i) = [] \<and> \<not> us_inv u')"
proof -
  have a: "UID i \<in> set (subscribers_of u b)" using assms(1,2) by (simp add: us_inv_def)
  have sb: "subscribers_of (v\<lparr>us_mySubs := x\<rparr>) = subscribers_of v" for v :: UserState and x
    by (simp add: subscribers_of_def fun_eq_iff)
  have ms: "us_mySubs u (UID i) \<noteq> None" using assms(2) by (cases "us_mySubs u (UID i)") (auto simp: subscriptions_of_def)
  have in': "UID i \<in> set (subscribers_of u' b)"
    using a assms(3) onUserOffline_state [OF assms(4)] by (simp add: sb unsubscribe_targets_lists)
  have "subscriptions_of u' (UID i) = []" if "subscribers_of u (UID i) \<noteq> []"
    using that ms onUserOffline_state [OF assms(4)] by (simp add: subscriptions_of_def)
  moreover have "\<not> us_inv u'" if "subscriptions_of u' (UID i) = []"
    using in' that unfolding us_inv_def by (metis empty_iff list.set(1))
  ultimately show ?thesis using us_inv_subscribe [OF assms(1)] in' by blast
qed

text \<open>Alice subscribed to Bob and Carol to Alice; nobody is connected.\<close>
definition demo_presence :: UserState where
  "demo_presence = subscribe_targets ''carol'' [''alice''] (subscribe_targets ''alice'' [''bob''] NewUserState)"

lemma demo_presence_inv: "us_inv demo_presence"
proof -
  have "us_inv (subscribe_targets my us v)" if "us_inv v" for my us v
    using that by (auto simp: us_inv_def subscribe_targets_lists subscribe_targets_subscriptions split: if_splits)
  moreover have "us_inv NewUserState"
    by (simp add: us_inv_def NewUserState_def subscribers_of_def subscriptions_of_def)
  ultimately show ?thesis unfolding demo_presence_def by blast
qed

lemma demo_presence_lists:
  "subscribers_of demo_presence ''alice'' = [''carol'']"
  "subscriptions_of demo_presence ''alice'' = [''bob'']"
  by (simp_all add: demo_presence_def NewUserState_def subscribers_of_def subscriptions_of_def Let_def)

lemma UID_NewID2_alice: "UID (NewID2 ''alice'') = ''alice''"
  by code_simp

theorem presence_announced_witness:
  "(\<exists>u' g'. onUserOnline (NewID2 ''alice'') (demo_presence, demo_gateway) = Ret (u', g') \<and>
      subscribers_of u' = subscribers_of demo_presence \<and>
      pool g' = pool demo_gateway @ to_online demo_gateway (map NewID2 [''carol''])
        (NewMessage 0 ActionNotifyUserState (Val (SUserState \<lparr>us_Uid = ''alice'', us_Online = False\<rparr>)))) \<and>
    (\<exists>u' g'. onUserOffline (NewID2 ''alice'') (demo_presence, demo_gateway) = Ret (u', g') \<and>
      pool g' = pool demo_gateway @ to_online demo_gateway (map NewID2 [''carol''])
        (NewMessage 0 ActionNotifyUserState (Val (SUserState \<lparr>us_Uid = ''alice'', us_Online = True\<rparr>))))"
proof -
  have "\<not> mu demo_gateway" "length (subscribers_of demo_presence (UID (NewID2 ''alice''))) \<le> gw_room demo_gateway"
    using demo_gateway_simps(1)
    by (simp_all add: good_def gw_room_def demo_gateway_simps UID_NewID2_alice demo_presence_lists)
  from presence_announced [OF this] show ?thesis
    unfolding UID_NewID2_alice demo_presence_lists .
qed

theorem offline_keeps_subscription_witness:
  "\<exists>u' g'. onUserOffline (NewID2 ''alice'') (demo_presence, demo_gateway) = Ret (u', g') \<and>
     ''alice'' \<in> set (subscribers_of u' ''bob'') \<and> subscriptions_of u' ''alice'' = [] \<and> \<not> us_inv u'"
proof -
  have "\<not> mu demo_gateway" "length (subscribers_of demo_presence (UID (NewID2 ''alice''))) \<le> gw_room demo_gateway"
    using demo_gateway_simps(1)
    by (simp_all add: good_def gw_room_def demo_gateway_simps UID_NewID2_alice demo_presence_lists)
  from onUserOffline_announces [OF this] obtain u' g' where
    o: "onUserOffline (NewID2 ''alice'') (demo_presence, demo_gateway) = Ret (u', g')" by blast
  have "''bob'' \<in> set (subscriptions_of demo_presence (UID (NewID2 ''alice'')))"
    by (simp add: UID_NewID2_alice demo_presence_lists)
  from offline_keeps_subscription [OF demo_presence_inv this _ o, of "\<lambda>_ _. Inl ''''" demo_info NewEmptyMessage]
  show ?thesis using o by (simp add: UID_NewID2_alice demo_presence_lists)
qed

end
