(* ===== verification/Stores.thy ===== *)
theory Stores
  imports Messaging Decimal
begin

text \<open>
  The message stores: \<^verbatim>\<open>internal/message_store_db\<close> and \<^verbatim>\<open>pkg/store\<close>.

  The stores are functions from the message to the error or to the message as the store leaves it
  (a store sets \<^verbatim>\<open>Mid\<close> through the pointer). What MySQL answers is the argument \<open>exec\<close>: the error, or
  the identifier of the inserted row. The Kafka producer and
  consumer work on logs, one for every topic and partition; the partition that sarama picks for a
  message is arbitrary, and the goroutines of the consumer are interleaved by the step relation
  \<open>kstep\<close>.
\<close>

section \<open>Chat message stores\<close>

text \<open>The values of the statement that inserts a message.\<close>
record chat_row =
  row_session_id :: string
  row_from :: int
  row_to :: int
  row_type :: int
  row_content :: string
  row_send_at :: int
  row_create_at :: int
  row_cli_seq :: int
  row_status :: int

text \<open>The session of two users: the larger number first.\<close>
definition session_id :: "int \<Rightarrow> int \<Rightarrow> string" where
  "session_id from to =
     (let (lg, sm) = (if from < to then (to, from) else (from, to))
      in show_int lg @ ''_'' @ show_int sm)"

text \<open>
  \<^verbatim>\<open>ChatMessageStore.StoreMessage\<close> with the time \<open>now\<close>: the rows handed to the database beside the
  result.
\<close>
definition DB_StoreMessage ::
    "(chat_row \<Rightarrow> string + int) \<Rightarrow> int \<Rightarrow> ChatMessage \<Rightarrow> (string + ChatMessage) \<times> chat_row list" where
  "DB_StoreMessage exec now m =
     (case ParseInt (cm_From m) of
        Inl _ \<Rightarrow> (Inr m, [])
      | Inr from \<Rightarrow>
          (case ParseInt (cm_To m) of
             Inl _ \<Rightarrow> (Inr m, [])
           | Inr to \<Rightarrow>
               let row = \<lparr>row_session_id = session_id from to, row_from = from, row_to = to,
                          row_type = cm_Type m, row_content = cm_Content m, row_send_at = cm_SendAt m,
                          row_create_at = now, row_cli_seq = 0, row_status = 0\<rparr>
               in case exec row of
                    Inl e \<Rightarrow> (Inl e, [row])
                  | Inr mid \<Rightarrow> (Inr (m\<lparr>cm_Mid := mid\<rparr>), [row])))"

definition DB_StoreOffline :: "ChatMessage \<Rightarrow> go_error outcome" where
  "DB_StoreOffline m = Panic ''implement me''"

definition IdleChat_StoreMessage :: "int \<Rightarrow> ChatMessage \<Rightarrow> string + ChatMessage" where
  "IdleChat_StoreMessage now m = Inr (m\<lparr>cm_Mid := now\<rparr>)"

definition IdleChat_StoreOffline :: "ChatMessage \<Rightarrow> go_error outcome" where
  "IdleChat_StoreOffline m = Ret nil"

definition IdleMessageStore_StoreMessage :: "ChatMessage \<Rightarrow> string + ChatMessage" where
  "IdleMessageStore_StoreMessage m = Inr m"

definition IdleMessageStore_StoreOffline :: "ChatMessage \<Rightarrow> go_error outcome" where
  "IdleMessageStore_StoreOffline m = Ret nil"

text \<open>The subscription stores hand out one segment and keep nothing.\<close>

definition Sub_NextSegmentSequence :: "ChanID \<Rightarrow> nat \<Rightarrow> string + (i64 \<times> i64)" where
  "Sub_NextSegmentSequence i k = Inr (1, 0x7FFFFFFFFFFFFFFF)"

definition Sub_StoreChannelMessage :: "ChanID \<Rightarrow> ChatMessage \<Rightarrow> go_error" where
  "Sub_StoreChannelMessage c m = nil"

definition Idle_StoreChannelMessage :: "ChanID \<Rightarrow> ChatMessage \<Rightarrow> go_error" where
  "Idle_StoreChannelMessage c m = nil"

lemma show_nat_digits: "c \<in> set (show_nat n) \<Longrightarrow> digit_value c \<noteq> None"
proof (induction n rule: show_nat.induct)
  case (1 n)
  then show ?case by (cases "n < 10") (auto simp: show_nat.simps [of n] digit_value_digit_char)
qed

lemma show_int_no_sep: "CHR ''_'' \<notin> set (show_int i)"
proof -
  have "digit_value (CHR ''_'') = None" by (simp add: digit_value_def)
  then have "CHR ''_'' \<notin> set (show_nat n)" for n using show_nat_digits [of "CHR ''_''" n] by auto
  then show ?thesis by (simp add: show_int_def)
qed

lemma show_int_inj:
  assumes "show_int i = show_int j" "- (2 ^ 63) \<le> i" "i < 2 ^ 63" "- (2 ^ 63) \<le> j" "j < 2 ^ 63"
  shows "i = j"
  using ParseInt_show_int [OF assms(2,3)] ParseInt_show_int [OF assms(4,5)] assms(1) by (metis sum.inject(2))

lemma sep_append_inj:
  "c \<notin> set xs \<Longrightarrow> c \<notin> set us \<Longrightarrow> xs @ c # ys = us @ c # vs \<Longrightarrow> xs = us \<and> ys = vs"
proof (induction xs arbitrary: us)
  case Nil
  then show ?case by (cases us) auto
next
  case (Cons x xs)
  then show ?case by (cases us) auto
qed

lemma session_id_sym: "session_id a b = session_id b a"
  by (auto simp: session_id_def)

lemma session_id_inj:
  assumes "session_id a b = session_id c d"
    and "ParseInt x = Inr a" "ParseInt y = Inr b" "ParseInt u = Inr c" "ParseInt v = Inr d"
  shows "{a, b} = {c, d}"
proof -
  have max: "session_id i j = show_int (max i j) @ ''_'' @ show_int (min i j)" for i j
    by (auto simp: session_id_def max_def min_def)
  then have "show_int (max a b) = show_int (max c d)" "show_int (min a b) = show_int (min c d)"
    using assms(1) sep_append_inj [OF show_int_no_sep show_int_no_sep] by auto
  then have "max a b = max c d" "min a b = min c d"
    using assms(2-5) [THEN ParseInt_range] by (auto intro!: show_int_inj)
  then show ?thesis by (auto simp: max_def min_def split: if_splits)
qed

section \<open>The contract of a message store\<close>

text \<open>
  What \<^verbatim>\<open>handleChatMessage\<close> relies on: a store may set the identifier of the message and nothing else.
\<close>
locale message_store =
  fixes store :: "ChatMessage \<Rightarrow> string + ChatMessage"
  assumes sets_mid_only: "store x = Inr y \<Longrightarrow> y = x\<lparr>cm_Mid := cm_Mid y\<rparr>"
begin

lemma accepted:
  assumes "me_store env = store" "chat_accepted env c m msg = Inr acc"
  shows "acc = msg\<lparr>cm_From := UID (info_ID c), cm_To := To m, cm_Mid := cm_Mid acc\<rparr>"
  using assms sets_mid_only [of "msg\<lparr>cm_From := UID (info_ID c), cm_To := To m\<rparr>" acc]
  by (auto simp: chat_accepted_def Let_def split: if_splits)

lemma delivered:
  assumes "me_store env = store" "\<not> mu (mw_gate w)" "5 \<le> gw_room (mw_gate w)"
    and "Deserialize_Chat (me_json env) (Data m) = Inr msg" "chat_accepted env c m msg = Inr acc"
  shows "\<exists>w'. handleChatMessage env c m w =
      (if \<exists>d \<in> set devices. gw_online (mw_gate w) (NewID '''' (To m) d) then Ret (nil, w')
       else dispatchOffline env acc w')"
proof -
  have "cm_To acc = To m" using arg_cong [OF accepted [OF assms(1,5)], of cm_To] by simp
  then show ?thesis using chat_delivery [OF assms(2-5)] by auto
qed

end

interpretation idle_chat: message_store "IdleChat_StoreMessage now" for now
  by unfold_locales (auto simp: IdleChat_StoreMessage_def)

interpretation idle_message: message_store IdleMessageStore_StoreMessage
  by unfold_locales (auto simp: IdleMessageStore_StoreMessage_def)

interpretation db_store: message_store "\<lambda>m. fst (DB_StoreMessage exec now m)" for exec now
  by unfold_locales (auto simp: DB_StoreMessage_def Let_def split: sum.splits)

text \<open>
  C30: the session of a message in the database. A message between two users whose identifiers are
  64-bit numbers is inserted once, with these numbers; two messages are in the same session exactly when
  they are between the same two users, in either direction; on success the message comes back with
  the identifier of its row and is otherwise unchanged. When one of the identifiers is not a
  number the store reports success and inserts nothing.
\<close>
theorem DB_StoreMessage_sessions:
  assumes "ParseInt (cm_From m) = Inr a" "ParseInt (cm_To m) = Inr b"
    and "ParseInt (cm_From m') = Inr a'" "ParseInt (cm_To m') = Inr b'"
  shows "\<exists>row row'. snd (DB_StoreMessage exec now m) = [row] \<and> snd (DB_StoreMessage exec now' m') = [row'] \<and>
      row_from row = a \<and> row_to row = b \<and> row_content row = cm_Content m \<and>
      (row_session_id row = row_session_id row' \<longleftrightarrow> {a, b} = {a', b'}) \<and>
      fst (DB_StoreMessage exec now m) = (case exec row of Inl e \<Rightarrow> Inl e | Inr mid \<Rightarrow> Inr (m\<lparr>cm_Mid := mid\<rparr>)) \<and>
    ((\<forall>i. ParseInt (cm_From x) \<noteq> Inr i) \<or> (\<forall>i. ParseInt (cm_To x) \<noteq> Inr i) \<longrightarrow>
      DB_StoreMessage exec now x = (Inr x, []))"
proof -
  have "session_id a b = session_id a' b' \<longleftrightarrow> {a, b} = {a', b'}"
    using session_id_inj [OF _ assms] session_id_sym by (auto simp: doubleton_eq_iff)
  then show ?thesis using assms
    by (auto simp: DB_StoreMessage_def Let_def split: sum.split)
qed

theorem DB_StoreMessage_sessions_witness:
  "\<exists>row row'. snd (DB_StoreMessage (\<lambda>r. Inr 9) 0 (demo_chat\<lparr>cm_From := ''7'', cm_To := ''-12''\<rparr>)) = [row] \<and>
    snd (DB_StoreMessage (\<lambda>r. Inr 9) 1 (demo_chat\<lparr>cm_From := ''-12'', cm_To := ''+7''\<rparr>)) = [row'] \<and>
    row_session_id row = row_session_id row' \<and>
    DB_StoreMessage (\<lambda>r. Inr 9) 0 demo_chat = (Inr demo_chat, [])"
proof -
  have "ParseInt ''7'' = Inr 7" "ParseInt ''-12'' = Inr (-12)" "ParseInt ''+7'' = Inr 7"
    and "\<forall>i. ParseInt (cm_From demo_chat) \<noteq> Inr i"
    by (simp_all add: ParseInt_def ParseUint_def digit_value_def demo_chat_def)
  then show ?thesis
    using DB_StoreMessage_sessions [of "demo_chat\<lparr>cm_From := ''7'', cm_To := ''-12''\<rparr>" 7 "-12"
        "demo_chat\<lparr>cm_From := ''-12'', cm_To := ''+7''\<rparr>" "-12" 7 "\<lambda>r. Inr 9" 0 1 demo_chat]
    by auto
qed

text \<open>
  With the MySQL store a chat message to a user that has no device online stops the handler
  by a panic, although the message was accepted; with the idle store it is handled.
\<close>
theorem DB_offline_panics:
  assumes w: "\<not> mu (mw_gate w)" "5 \<le> gw_room (mw_gate w)"
    and off: "\<And>d. d \<in> set devices \<Longrightarrow> \<not> gw_online (mw_gate w) (NewID '''' (To m) d)"
    and d: "Deserialize_Chat (me_json env) (Data m) = Inr msg"
    and db: "me_store env = (\<lambda>m. fst (DB_StoreMessage exec now m))" "chat_accepted env c m msg = Inr acc"
  shows "handleChatMessage (env\<lparr>me_store_offline := DB_StoreOffline\<rparr>) c m w = Panic ''implement me'' \<and>
    (\<exists>w'. handleChatMessage (env\<lparr>me_store := IdleChat_StoreMessage now, me_store_offline := IdleChat_StoreOffline\<rparr>)
       c m w = Ret (nil, w'))"
proof -
  let ?db = "env\<lparr>me_store_offline := DB_StoreOffline\<rparr>"
  let ?idle = "env\<lparr>me_store := IdleChat_StoreMessage now, me_store_offline := IdleChat_StoreOffline\<rparr>"
  have "chat_accepted ?db c m msg = Inr acc" using db(2) by (auto simp: chat_accepted_def Let_def split: if_splits)
  then have panics: "\<exists>w'. handleChatMessage ?db c m w = dispatchOffline ?db acc w'"
    using db_store.delivered [of ?db exec now w m msg c acc] w off d db(1) by auto
  have "\<exists>acc'. chat_accepted ?idle c m msg = Inr acc'"
    by (simp add: chat_accepted_def Let_def IdleChat_StoreMessage_def)
  then have "\<exists>acc' w'. handleChatMessage ?idle c m w = dispatchOffline ?idle acc' w'"
    using idle_chat.delivered [of ?idle now w m msg c] w off d by auto
  with panics show ?thesis
    by (auto simp: dispatchOffline_def DB_StoreOffline_def IdleChat_StoreOffline_def)
qed

theorem DB_offline_panics_witness:
  "handleChatMessage (demo_msg_env\<lparr>me_store := \<lambda>m. fst (DB_StoreMessage (\<lambda>r. Inr 9) 0 m),
        me_store_offline := DB_StoreOffline\<rparr>) demo_info demo_envelope
      (demo_msgw\<lparr>mw_gate := NewServer ''gw'' ''key'' 10\<rparr>) = Panic ''implement me''"
proof -
  let ?env = "demo_msg_env\<lparr>me_store := \<lambda>m. fst (DB_StoreMessage (\<lambda>r. Inr 9) 0 m)\<rparr>"
  let ?w = "demo_msgw\<lparr>mw_gate := NewServer ''gw'' ''key'' 10\<rparr>"
  have "\<exists>acc. chat_accepted ?env demo_info demo_envelope demo_chat = Inr acc"
    by (simp add: chat_accepted_def Let_def DB_StoreMessage_def split: sum.split)
  moreover have "\<not> mu (mw_gate ?w)" "5 \<le> gw_room (mw_gate ?w)"
    "\<And>d. \<not> gw_online (mw_gate ?w) (NewID '''' (To demo_envelope) d)"
    by (simp_all add: NewServer_def gw_room_def gw_online_def)
  moreover have "Deserialize_Chat (me_json ?env) (Data demo_envelope) = Inr demo_chat"
    by (simp add: Deserialize_Chat_def demo_envelope_def Deserialize_Ptr)
  ultimately show ?thesis
    using DB_offline_panics [of ?w demo_envelope ?env demo_chat "\<lambda>r. Inr 9" 0 demo_info] by auto
qed

section \<open>Kafka\<close>

definition KafkaChatMessageTopic :: string where "KafkaChatMessageTopic = ''getaway_chat_message''"
definition KafkaChatOfflineMessageTopic :: string where
  "KafkaChatOfflineMessageTopic = ''getaway_chat_offline_message''"
definition KafkaChannelMessageTopic :: string where "KafkaChannelMessageTopic = ''gateway_channel_message''"

lemmas topic_defs = KafkaChatMessageTopic_def KafkaChatOfflineMessageTopic_def KafkaChannelMessageTopic_def

text \<open>Which callbacks of the consumer are set.\<close>
record KafkaConsumer =
  cf :: bool
  offlineCf :: bool
  channelCf :: bool

text \<open>
  The log of every topic and partition, the partitions the consumer reads with the offset of the next
  message, the consumer, and the calls of its callbacks.
\<close>
record kafka =
  k_log :: "string \<Rightarrow> nat \<Rightarrow> bytes list"
  k_offset :: "string \<Rightarrow> nat \<Rightarrow> nat option"
  k_consumer :: KafkaConsumer
  k_calls :: "(string \<times> nat \<times> ChatMessage) list"

text \<open>
  \<^verbatim>\<open>NewKafkaProducer\<close>; \<open>newAsync\<close> is sarama's \<^verbatim>\<open>NewAsyncProducer\<close>. The store wraps the producer, and a message is
  encoded as its bytes.
\<close>
datatype partitioner = HashPartitioner | RandomPartitioner

record ProducerConfig =
  pc_RequiredAcks :: int
  pc_Partitioner :: partitioner

definition WaitForAll :: int where "WaitForAll = - 1"

definition NewKafkaProducer :: "(string list \<Rightarrow> ProducerConfig \<Rightarrow> go_error) \<Rightarrow> string list \<Rightarrow> go_error" where
  "NewKafkaProducer newAsync address =
     newAsync address \<lparr>pc_RequiredAcks = WaitForAll, pc_Partitioner = RandomPartitioner\<rparr>"

definition Kafka_Close :: "go_error \<Rightarrow> go_error" where
  "Kafka_Close close = close"

record kafka_msg =
  kmsg_data :: bytes

definition kmsg_Encode :: "kafka_msg \<Rightarrow> string + bytes" where
  "kmsg_Encode m = Inr (kmsg_data m)"

definition kmsg_Length :: "kafka_msg \<Rightarrow> nat" where
  "kmsg_Length m = length (kmsg_data m)"

text \<open>\<open>p\<close> is the partition the random partitioner picks, \<open>enc\<close> the JSON encoder.\<close>
definition produce :: "string \<Rightarrow> (ChatMessage \<Rightarrow> string + bytes) \<Rightarrow> nat \<Rightarrow> ChatMessage \<Rightarrow> kafka \<Rightarrow> go_error \<times> kafka" where
  "produce t enc p m k =
     (case enc m of
        Inl e \<Rightarrow> (Some e, k)
      | Inr b \<Rightarrow> (nil, k\<lparr>k_log := (k_log k)(t := (k_log k t)(p := k_log k t p @ [b]))\<rparr>))"

definition Kafka_StoreMessage :: "(ChatMessage \<Rightarrow> string + bytes) \<Rightarrow> nat \<Rightarrow> ChatMessage \<Rightarrow> kafka \<Rightarrow> go_error \<times> kafka" where
  "Kafka_StoreMessage enc p m k = produce KafkaChatMessageTopic enc p m k"

definition Kafka_StoreOffline :: "(ChatMessage \<Rightarrow> string + bytes) \<Rightarrow> nat \<Rightarrow> ChatMessage \<Rightarrow> kafka \<Rightarrow> go_error \<times> kafka" where
  "Kafka_StoreOffline enc p m k = produce KafkaChatOfflineMessageTopic enc p m k"

definition Kafka_StoreChannelMessage ::
    "(ChatMessage \<Rightarrow> string + bytes) \<Rightarrow> nat \<Rightarrow> ChanID \<Rightarrow> ChatMessage \<Rightarrow> kafka \<Rightarrow> go_error \<times> kafka" where
  "Kafka_StoreChannelMessage enc p c m k = produce KafkaChannelMessageTopic enc p m k"

text \<open>\<^verbatim>\<open>ConsumePartition\<close> at the newest offset; \<open>avail\<close> is its error.\<close>
definition ConsumePartition :: "(string \<Rightarrow> nat \<Rightarrow> go_error) \<Rightarrow> string \<Rightarrow> nat \<Rightarrow> kafka \<Rightarrow> string + kafka" where
  "ConsumePartition avail t p k =
     (case avail t p of
        Some e \<Rightarrow> Inl e
      | None \<Rightarrow> Inr (k\<lparr>k_offset := (k_offset k)(t := (k_offset k t)(p := Some (length (k_log k t p))))\<rparr>))"

fun consumer_run :: "(string \<Rightarrow> nat \<Rightarrow> go_error) \<Rightarrow> nat list \<Rightarrow> kafka \<Rightarrow> string + kafka" where
  "consumer_run avail [] k = Inr k"
| "consumer_run avail (p # ps) k =
     (case ConsumePartition avail KafkaChatMessageTopic p k of
        Inl e \<Rightarrow> Inl e
      | Inr k1 \<Rightarrow>
          (case ConsumePartition avail KafkaChannelMessageTopic p k1 of
             Inl e \<Rightarrow> Inl e
           | Inr k2 \<Rightarrow>
               (case ConsumePartition avail KafkaChatOfflineMessageTopic p k2 of
                  Inl e \<Rightarrow> Inl e
                | Inr k3 \<Rightarrow> consumer_run avail ps k3)))"

text \<open>\<open>partitions\<close> is the answer for the chat topic; its partitions are used for the other topics too.\<close>
definition NewKafkaConsumer ::
    "(string \<Rightarrow> nat \<Rightarrow> go_error) \<Rightarrow> string + nat list \<Rightarrow> kafka \<Rightarrow> string + kafka" where
  "NewKafkaConsumer avail partitions k =
     (case partitions of
        Inl e \<Rightarrow> Inl e
      | Inr ps \<Rightarrow>
          consumer_run avail ps (k\<lparr>k_consumer := \<lparr>cf = False, offlineCf = False, channelCf = False\<rparr>\<rparr>))"

definition ConsumeChatMessage :: "kafka \<Rightarrow> kafka" where
  "ConsumeChatMessage k = k\<lparr>k_consumer := (k_consumer k)\<lparr>cf := True\<rparr>\<rparr>"

definition ConsumeChannelMessage :: "kafka \<Rightarrow> kafka" where
  "ConsumeChannelMessage k = k\<lparr>k_consumer := (k_consumer k)\<lparr>channelCf := True\<rparr>\<rparr>"

definition ConsumeOfflineMessage :: "kafka \<Rightarrow> kafka" where
  "ConsumeOfflineMessage k = k\<lparr>k_consumer := (k_consumer k)\<lparr>offlineCf := True\<rparr>\<rparr>"

text \<open>The callback the goroutine of a topic calls.\<close>
definition callback_set :: "string \<Rightarrow> KafkaConsumer \<Rightarrow> bool" where
  "callback_set t c =
     (if t = KafkaChatMessageTopic then cf c
      else if t = KafkaChannelMessageTopic then channelCf c
      else offlineCf c)"

text \<open>The body of the loop of a goroutine, for the message \<open>b\<close> at the offset \<open>n\<close>.\<close>
definition consume_one :: "(bytes \<Rightarrow> string + ChatMessage) \<Rightarrow> string \<Rightarrow> nat \<Rightarrow> nat \<Rightarrow> bytes \<Rightarrow> kafka \<Rightarrow> kafka" where
  "consume_one dec t p n b k =
     (let k1 = k\<lparr>k_offset := (k_offset k)(t := (k_offset k t)(p := Some (Suc n)))\<rparr>
      in case dec b of
           Inl _ \<Rightarrow> k1
         | Inr cm \<Rightarrow>
             if callback_set t (k_consumer k) then k1\<lparr>k_calls := k_calls k1 @ [(t, p, cm)]\<rparr> else k1)"

text \<open>Stores and goroutines in any order.\<close>
inductive kstep :: "(ChatMessage \<Rightarrow> string + bytes) \<Rightarrow> (bytes \<Rightarrow> string + ChatMessage) \<Rightarrow> kafka \<Rightarrow> kafka \<Rightarrow> bool"
  for enc dec where
  k_chat: "Kafka_StoreMessage enc p m k = (e, k') \<Longrightarrow> kstep enc dec k k'"
| k_off: "Kafka_StoreOffline enc p m k = (e, k') \<Longrightarrow> kstep enc dec k k'"
| k_channel: "Kafka_StoreChannelMessage enc p c m k = (e, k') \<Longrightarrow> kstep enc dec k k'"
| k_read: "k_offset k t p = Some n \<Longrightarrow> n < length (k_log k t p) \<Longrightarrow>
    kstep enc dec k (consume_one dec t p n (k_log k t p ! n) k)"

inductive kreach :: "(ChatMessage \<Rightarrow> string + bytes) \<Rightarrow> (bytes \<Rightarrow> string + ChatMessage) \<Rightarrow> kafka \<Rightarrow> kafka \<Rightarrow> bool"
  for enc dec k0 where
  kreach_refl: "kreach enc dec k0 k0"
| kreach_step: "kreach enc dec k0 k \<Longrightarrow> kstep enc dec k k' \<Longrightarrow> kreach enc dec k0 k'"

definition calls_at :: "string \<Rightarrow> nat \<Rightarrow> kafka \<Rightarrow> ChatMessage list" where
  "calls_at t p k = map (snd \<circ> snd) (filter (\<lambda>(t', p', _). t' = t \<and> p' = p) (k_calls k))"

text \<open>
  What holds of a partition that is read: it grew by the encodings of \<open>ms\<close> since the consumer
  started at the length \<open>n0\<close>, and the callback got the messages below the offset.
\<close>
definition kafka_inv :: "(ChatMessage \<Rightarrow> string + bytes) \<Rightarrow> nat \<Rightarrow> string \<Rightarrow> nat \<Rightarrow> ChatMessage list \<Rightarrow> kafka \<Rightarrow> bool" where
  "kafka_inv enc n0 t p ms k =
     (callback_set t (k_consumer k) \<and> n0 \<le> length (k_log k t p) \<and>
      list_all2 (\<lambda>m b. enc m = Inr b) ms (drop n0 (k_log k t p)) \<and>
      (\<exists>n. k_offset k t p = Some (n0 + n) \<and> n \<le> length ms \<and> calls_at t p k = take n ms))"

lemma produce_inv:
  assumes "kafka_inv enc n0 t p ms k" "produce t' enc p' m k = (e, k')"
  shows "\<exists>ms'. kafka_inv enc n0 t p (ms @ ms') k'"
proof (cases "e = nil \<and> t' = t \<and> p' = p")
  case True
  then show ?thesis using assms
    by (intro exI [of _ "[m]"])
      (auto simp: produce_def kafka_inv_def calls_at_def intro!: list_all2_appendI split: sum.splits)
next
  case False
  then show ?thesis using assms
    by (intro exI [of _ "[]"]) (auto simp: produce_def kafka_inv_def calls_at_def split: sum.splits)
qed

lemma consume_inv:
  assumes inv: "kafka_inv enc n0 t p ms k" and codec: "\<And>m b. enc m = Inr b \<Longrightarrow> dec b = Inr m"
    and rd: "k_offset k t' p' = Some n" "n < length (k_log k t' p')"
  shows "kafka_inv enc n0 t p ms (consume_one dec t' p' n (k_log k t' p' ! n) k)"
proof (cases "t' = t \<and> p' = p")
  case True
  from inv obtain j where j: "k_offset k t p = Some (n0 + j)" "j \<le> length ms" "calls_at t p k = take j ms"
    and all: "list_all2 (\<lambda>m b. enc m = Inr b) ms (drop n0 (k_log k t p))" "n0 \<le> length (k_log k t p)"
    and cb: "callback_set t (k_consumer k)"
    by (auto simp: kafka_inv_def)
  have "n = n0 + j" using True rd(1) j(1) by simp
  moreover have "j < length ms"
    using list_all2_lengthD [OF all(1)] rd(2) True \<open>n = n0 + j\<close> by auto
  moreover from this have "dec (k_log k t p ! (n0 + j)) = Inr (ms ! j)"
    using list_all2_nthD [OF all(1)] all(2) codec by auto
  ultimately show ?thesis using True all cb j
    by (auto simp: consume_one_def kafka_inv_def calls_at_def take_Suc_conv_app_nth intro!: exI [of _ "Suc j"])
next
  case False
  then show ?thesis using inv
    by (auto simp: consume_one_def kafka_inv_def calls_at_def Let_def split: sum.split)
qed

definition topics :: "string list" where
  "topics = [KafkaChatMessageTopic, KafkaChannelMessageTopic, KafkaChatOfflineMessageTopic]"

lemma consumer_run_offsets:
  assumes "consumer_run avail ps k = Inr k'"
  shows "k_log k' = k_log k \<and> k_calls k' = k_calls k \<and> k_consumer k' = k_consumer k \<and>
    (\<forall>t p. k_offset k' t p =
      (if t \<in> set topics \<and> p \<in> set ps then Some (length (k_log k t p)) else k_offset k t p))"
  using assms
proof (induction ps arbitrary: k)
  case (Cons p ps)
  then obtain k1 k2 k3 where "ConsumePartition avail KafkaChatMessageTopic p k = Inr k1"
      "ConsumePartition avail KafkaChannelMessageTopic p k1 = Inr k2"
      "ConsumePartition avail KafkaChatOfflineMessageTopic p k2 = Inr k3" "consumer_run avail ps k3 = Inr k'"
    by (auto split: sum.splits)
  moreover from this have "k3 = k\<lparr>k_offset := \<lambda>t q. if t \<in> set topics \<and> q = p
      then Some (length (k_log k t q)) else k_offset k t q\<rparr>"
    by (auto simp: ConsumePartition_def topics_def topic_defs fun_eq_iff split: option.splits)
  ultimately show ?case using Cons.IH [of k3] by auto
qed simp

text \<open>A consumer with its three callbacks.\<close>
definition listening :: "kafka \<Rightarrow> kafka" where
  "listening k = ConsumeOfflineMessage (ConsumeChannelMessage (ConsumeChatMessage k))"

lemma listening_inv:
  assumes "NewKafkaConsumer avail (Inr ps) k = Inr k'" "k_calls k = []" "t \<in> set topics" "p \<in> set ps"
  shows "kafka_inv enc (length (k_log k t p)) t p [] (listening k')"
  using assms consumer_run_offsets [of avail ps _ k']
  by (auto simp: NewKafkaConsumer_def kafka_inv_def listening_def ConsumeOfflineMessage_def
      ConsumeChannelMessage_def ConsumeChatMessage_def callback_set_def calls_at_def)

lemma kreach_inv:
  assumes "kreach enc dec k0 k" "kafka_inv enc n0 t p [] k0" "\<And>m b. enc m = Inr b \<Longrightarrow> dec b = Inr m"
  shows "\<exists>ms. kafka_inv enc n0 t p ms k"
  using assms
proof induction
  case (kreach_step k k')
  then obtain ms where ms: "kafka_inv enc n0 t p ms k" by blast
  have produced: "\<exists>ms. kafka_inv enc n0 t p ms k'" if "produce t' enc p' m k = (e, k')" for t' p' m e
    using produce_inv [OF ms that] by blast
  from kreach_step.hyps(2) show ?case
  proof cases
    case (k_read t' p' n)
    then show ?thesis using consume_inv [where dec = dec, OF ms kreach_step.prems(2)] by blast
  qed (auto simp: Kafka_StoreMessage_def Kafka_StoreOffline_def Kafka_StoreChannelMessage_def dest!: produced)
qed blast


definition demo_kafka :: kafka where
  "demo_kafka = \<lparr>k_log = (\<lambda>_ _. []), k_offset = (\<lambda>_ _. None),
     k_consumer = \<lparr>cf = False, offlineCf = False, channelCf = False\<rparr>, k_calls = []\<rparr>"

definition demo_enc :: "ChatMessage \<Rightarrow> string + bytes" where
  "demo_enc m = (if m = demo_chat then Inr [1] else Inl ''unsupported value'')"

definition demo_dec :: "bytes \<Rightarrow> string + ChatMessage" where
  "demo_dec b = Inr demo_chat"


text \<open>The Kafka store as the message handler sees it: the message is not changed.\<close>
definition kafka_view :: "(ChatMessage \<Rightarrow> string + bytes) \<Rightarrow> nat \<Rightarrow> kafka \<Rightarrow> ChatMessage \<Rightarrow> string + ChatMessage" where
  "kafka_view enc p k m = (case fst (Kafka_StoreMessage enc p m k) of Some e \<Rightarrow> Inl e | None \<Rightarrow> Inr m)"

interpretation kafka_chat: message_store "kafka_view enc p k" for enc p k
  by unfold_locales (auto simp: kafka_view_def split: option.splits)

end
