(* ===== verification/Reader.thy ===== *)
theory Reader
  imports Client
begin

text \<open>
  The goroutine that reads a connection (\<^verbatim>\<open>defaultReader.ReadCh\<close> of \<^verbatim>\<open>pkg/gate/reader.go\<close>), the
  channel of five results to the read loop of the client, and the pool \<^verbatim>\<open>recyclePool\<close> of result objects that
  all connections share.

  Results are objects in a heap, because the code passes pointers: the reader takes an object from the
  pool and sets one of its two fields, the read loop empties it and puts it back. The
  state of a connection also records, as history, what the connection answered and what
  the read loop saw. The steps of \<open>runRead\<close> here are the ones on the channel; what it does with a
  message is in the theory \<open>Gateway\<close>.
\<close>

section \<open>State and steps\<close>

text \<open>
  Where the reader is: before its \<^verbatim>\<open>select\<close>, in \<^verbatim>\<open>Read\<close>, with an object to fill, in the send (with
  the flag whether the loop goes on), at \<^verbatim>\<open>CLOSE\<close>, or ended.
\<close>
datatype reader_pos =
    AtSelect
  | Reading
  | Filling nat "string + GlideMessage"
  | Sending nat bool
  | Closing
  | Ended

record reader_conn =
  rc_chan :: "nat gochan"
  rc_done :: bool
  rc_pos :: reader_pos
  rc_hold :: "nat option"
  rc_stopped :: bool
  rc_reads :: "(string + bytes) list"
  rc_seen :: "readerRes list"

record reader_sys =
  rs_heap :: "nat \<Rightarrow> readerRes"
  rs_next :: nat
  recyclePool :: "nat list"
  rs_conn :: "nat \<Rightarrow> reader_conn"

definition blank :: readerRes where
  "blank = \<lparr>rr_err = nil, rr_m = None\<rparr>"

text \<open>The channels and the goroutine that \<open>ReadCh\<close> starts.\<close>
definition ReadCh :: reader_conn where
  "ReadCh = \<lparr>rc_chan = make_chan 5, rc_done = False, rc_pos = AtSelect, rc_hold = None,
     rc_stopped = False, rc_reads = [], rc_seen = []\<rparr>"

definition reader_init :: reader_sys where
  "reader_init = \<lparr>rs_heap = (\<lambda>_. blank), rs_next = 0, recyclePool = [], rs_conn = (\<lambda>_. ReadCh)\<rparr>"

definition set_conn :: "nat \<Rightarrow> reader_conn \<Rightarrow> reader_sys \<Rightarrow> reader_sys" where
  "set_conn i c s = s\<lparr>rs_conn := (rs_conn s)(i := c)\<rparr>"

text \<open>The field that the reader sets; the other one stays what it was.\<close>
definition fill :: "string + GlideMessage \<Rightarrow> readerRes \<Rightarrow> readerRes" where
  "fill r x = (case r of Inl e \<Rightarrow> x\<lparr>rr_err := Some e\<rparr> | Inr m \<Rightarrow> x\<lparr>rr_m := Some m\<rparr>)"

definition go_on :: "string + GlideMessage \<Rightarrow> bool" where
  "go_on r = (case r of Inl e \<Rightarrow> IsDecodeError (Some e) | Inr m \<Rightarrow> True)"

text \<open>
  One step of the reader or the read loop of the connection \<open>i\<close>. \<^verbatim>\<open>sync.Pool\<close> hands out any of its
  objects or a new one. \<open>runRead\<close> drops a result (with \<^verbatim>\<open>continue\<close> or \<^verbatim>\<open>break\<close>) or recycles it; it leaves
  the loop at \<^verbatim>\<open>STOP\<close>, where it closes \<^verbatim>\<open>done\<close>, or by a panic, where it does not.
\<close>
inductive rstep :: "(bytes \<Rightarrow> string + GlideMessage) \<Rightarrow> nat \<Rightarrow> reader_sys \<Rightarrow> reader_sys \<Rightarrow> bool" for js i where
  r_default: "rs_conn s i = c \<Longrightarrow> rc_pos c = AtSelect \<Longrightarrow> \<not> rc_done c \<Longrightarrow>
    rstep js i s (set_conn i (c\<lparr>rc_pos := Reading\<rparr>) s)"
| r_done: "rs_conn s i = c \<Longrightarrow> rc_pos c = AtSelect \<Longrightarrow> rc_done c \<Longrightarrow>
    rstep js i s (set_conn i (c\<lparr>rc_pos := Closing\<rparr>) s)"
| r_reuse: "rs_conn s i = c \<Longrightarrow> rc_pos c = Reading \<Longrightarrow> recyclePool s = xs @ a # ys \<Longrightarrow>
    rstep js i s (set_conn i (c\<lparr>rc_pos := Filling a (reader_Read js rd), rc_reads := rc_reads c @ [rd]\<rparr>)
      (s\<lparr>recyclePool := xs @ ys\<rparr>))"
| r_new: "rs_conn s i = c \<Longrightarrow> rc_pos c = Reading \<Longrightarrow> a = rs_next s \<Longrightarrow>
    rstep js i s (set_conn i (c\<lparr>rc_pos := Filling a (reader_Read js rd), rc_reads := rc_reads c @ [rd]\<rparr>)
      (s\<lparr>rs_heap := (rs_heap s)(a := blank), rs_next := a + 1\<rparr>))"
| r_fill: "rs_conn s i = c \<Longrightarrow> rc_pos c = Filling a r \<Longrightarrow>
    rstep js i s (set_conn i (c\<lparr>rc_pos := Sending a (go_on r)\<rparr>)
      (s\<lparr>rs_heap := (rs_heap s)(a := fill r (rs_heap s a))\<rparr>))"
| r_send: "rs_conn s i = c \<Longrightarrow> rc_pos c = Sending a b \<Longrightarrow> try_send (rc_chan c) a = Ret (Some ch) \<Longrightarrow>
    rstep js i s (set_conn i (c\<lparr>rc_chan := ch, rc_pos := if b then AtSelect else Closing\<rparr>) s)"
| r_close: "rs_conn s i = c \<Longrightarrow> rc_pos c = Closing \<Longrightarrow> close_chan (rc_chan c) = Ret ch \<Longrightarrow>
    rstep js i s (set_conn i (c\<lparr>rc_chan := ch, rc_pos := Ended\<rparr>) s)"
| m_recv: "rs_conn s i = c \<Longrightarrow> \<not> rc_stopped c \<Longrightarrow> rc_hold c = None \<Longrightarrow> try_recv (rc_chan c) = Received a ch \<Longrightarrow>
    rstep js i s (set_conn i (c\<lparr>rc_chan := ch, rc_hold := Some a, rc_seen := rc_seen c @ [rs_heap s a]\<rparr>) s)"
| m_recycle: "rs_conn s i = c \<Longrightarrow> \<not> rc_stopped c \<Longrightarrow> rc_hold c = Some a \<Longrightarrow> rr_err (rs_heap s a) = nil \<Longrightarrow>
    rstep js i s (set_conn i (c\<lparr>rc_hold := None\<rparr>)
      (s\<lparr>rs_heap := (rs_heap s)(a := Recycle (rs_heap s a)), recyclePool := a # recyclePool s\<rparr>))"
| m_drop: "rs_conn s i = c \<Longrightarrow> \<not> rc_stopped c \<Longrightarrow> rc_hold c = Some a \<Longrightarrow>
    rstep js i s (set_conn i (c\<lparr>rc_hold := None\<rparr>) s)"
| m_stop: "rs_conn s i = c \<Longrightarrow> \<not> rc_stopped c \<Longrightarrow> rc_hold c = None \<Longrightarrow>
    rstep js i s (set_conn i (c\<lparr>rc_stopped := True, rc_done := True\<rparr>) s)"
| m_panic: "rs_conn s i = c \<Longrightarrow> \<not> rc_stopped c \<Longrightarrow> rc_hold c = Some a \<Longrightarrow> rr_err (rs_heap s a) = nil \<Longrightarrow>
    rstep js i s (set_conn i (c\<lparr>rc_stopped := True\<rparr>) s)"

inductive_cases rstep_cases: "rstep js i s t"

text \<open>Any number of connections, each with its own reader and read loop, in any interleaving.\<close>
inductive rreach :: "(bytes \<Rightarrow> string + GlideMessage) \<Rightarrow> reader_sys \<Rightarrow> reader_sys \<Rightarrow> bool" for js s where
  rreach_refl: "rreach js s s"
| rreach_step: "rreach js s t \<Longrightarrow> rstep js i t u \<Longrightarrow> rreach js s u"


section \<open>Ownership\<close>

fun pos_refs :: "reader_pos \<Rightarrow> nat list" where
  "pos_refs (Filling a r) = [a]"
| "pos_refs (Sending a b) = [a]"
| "pos_refs p = []"

definition owned :: "reader_conn \<Rightarrow> nat list" where
  "owned c = (case rc_hold c of None \<Rightarrow> [] | Some a \<Rightarrow> [a]) @ buf (rc_chan c) @ pos_refs (rc_pos c)"

text \<open>Every object belongs to one connection or to the pool, and an object in the pool is empty.\<close>
definition owner_inv :: "reader_sys \<Rightarrow> bool" where
  "owner_inv s =
     ((\<forall>i. distinct (owned (rs_conn s i) @ recyclePool s)) \<and>
      (\<forall>i j. i \<noteq> j \<longrightarrow> set (owned (rs_conn s i)) \<inter> set (owned (rs_conn s j)) = {}) \<and>
      (\<forall>i. \<forall>a \<in> set (owned (rs_conn s i)). a < rs_next s) \<and>
      (\<forall>a \<in> set (recyclePool s). a < rs_next s \<and> rs_heap s a = blank) \<and>
      (\<forall>i a r. rc_pos (rs_conn s i) = Filling a r \<longrightarrow> rs_heap s a = blank))"

text \<open>What the reader has of the result of the last read.\<close>
fun pos_results :: "(nat \<Rightarrow> readerRes) \<Rightarrow> reader_pos \<Rightarrow> readerRes list" where
  "pos_results h (Filling a r) = [fill r blank]"
| "pos_results h (Sending a b) = [h a]"
| "pos_results h p = []"

text \<open>The results of the reads are the ones seen, the ones in the channel and the one being sent.\<close>
definition results_inv :: "(bytes \<Rightarrow> string + GlideMessage) \<Rightarrow> (nat \<Rightarrow> readerRes) \<Rightarrow> reader_conn \<Rightarrow> bool" where
  "results_inv js h c =
     (rc_seen c @ map h (buf (rc_chan c)) @ pos_results h (rc_pos c) = map (\<lambda>rd. fst (reader_round js rd)) (rc_reads c) \<and>
      (\<forall>a. rc_hold c = Some a \<longrightarrow> rc_seen c \<noteq> [] \<and> h a = last (rc_seen c)) \<and>
      chan_wf (rc_chan c) \<and> cap (rc_chan c) = 5 \<and> closed (rc_chan c) = (rc_pos c = Ended))"

definition reader_inv :: "(bytes \<Rightarrow> string + GlideMessage) \<Rightarrow> reader_sys \<Rightarrow> bool" where
  "reader_inv js s = (owner_inv s \<and> (\<forall>i. results_inv js (rs_heap s) (rs_conn s i)))"

section \<open>The invariant\<close>

lemma results_inv_heap:
  assumes "results_inv js h c" "\<And>a. a \<in> set (owned c) \<Longrightarrow> h' a = h a"
  shows "results_inv js h' c"
proof -
  have "map h' (buf (rc_chan c)) = map h (buf (rc_chan c))" using assms(2) by (simp add: owned_def)
  moreover have "pos_results h' (rc_pos c) = pos_results h (rc_pos c)"
    using assms(2) by (cases "rc_pos c") (simp_all add: owned_def)
  moreover have "h' a = h a" if "rc_hold c = Some a" for a using that assms(2) by (simp add: owned_def)
  ultimately show ?thesis using assms(1) by (simp add: results_inv_def del: map_eq_conv)
qed

lemma owner_invD:
  assumes "owner_inv s"
  shows "distinct (owned (rs_conn s i) @ recyclePool s)"
    and "i \<noteq> j \<Longrightarrow> set (owned (rs_conn s i)) \<inter> set (owned (rs_conn s j)) = {}"
    and "a \<in> set (owned (rs_conn s i)) \<Longrightarrow> a < rs_next s"
    and "a \<in> set (recyclePool s) \<Longrightarrow> a < rs_next s"
    and "a \<in> set (recyclePool s) \<Longrightarrow> rs_heap s a = blank"
    and "rc_pos (rs_conn s i) = Filling a r \<Longrightarrow> rs_heap s a = blank"
  using assms unfolding owner_inv_def by blast+

text \<open>
  A step touches its own connection, its objects, the pool and new objects only; it remains to look at
  that connection.
\<close>
lemma reader_inv_local:
  assumes inv: "reader_inv js s" and other: "\<And>j. j \<noteq> i \<Longrightarrow> rs_conn t j = rs_conn s j"
    and refs: "set (owned (rs_conn t i)) \<union> set (recyclePool t)
      \<subseteq> set (owned (rs_conn s i)) \<union> set (recyclePool s) \<union> {rs_next s..<rs_next t}"
    and le: "rs_next s \<le> rs_next t" and dist: "distinct (owned (rs_conn t i) @ recyclePool t)"
    and heap: "\<And>a. a < rs_next s \<Longrightarrow> a \<notin> set (owned (rs_conn s i)) \<Longrightarrow> rs_heap t a = rs_heap s a"
    and pool: "\<And>a. a \<in> set (recyclePool t) \<Longrightarrow> rs_heap t a = blank"
    and fil: "\<And>a r. rc_pos (rs_conn t i) = Filling a r \<Longrightarrow> rs_heap t a = blank"
    and res: "results_inv js (rs_heap t) (rs_conn t i)"
  shows "reader_inv js t"
proof -
  have o: "owner_inv s" and r: "\<And>j. results_inv js (rs_heap s) (rs_conn s j)"
    using inv by (simp_all add: reader_inv_def)
  have lt: "a < rs_next s" if "a \<in> set (owned (rs_conn s j)) \<or> a \<in> set (recyclePool s)" for j a
    using that o by (auto simp: owner_inv_def)
  have dj: "set (owned (rs_conn s j)) \<inter> (set (owned (rs_conn t i)) \<union> set (recyclePool t)) = {}" if "j \<noteq> i" for j
  proof -
    have "set (owned (rs_conn s j)) \<inter> set (owned (rs_conn s i)) = {}" using o that by (simp add: owner_inv_def)
    moreover have "set (owned (rs_conn s j)) \<inter> set (recyclePool s) = {}" using o by (simp add: owner_inv_def)
    moreover have "set (owned (rs_conn s j)) \<inter> {rs_next s..<rs_next t} = {}" using lt by force
    ultimately show ?thesis using refs by blast
  qed
  have same: "rs_heap t a = rs_heap s a" if "j \<noteq> i" "a \<in> set (owned (rs_conn s j))" for j a
    using heap [of a] lt [of a j] that o unfolding owner_inv_def by blast
  have "distinct (owned (rs_conn t j) @ recyclePool t)" for j
    using dist dj [of j] o other [of j] by (cases "j = i") (auto simp: owner_inv_def)
  moreover have "set (owned (rs_conn t j)) \<inter> set (owned (rs_conn t k)) = {}" if "j \<noteq> k" for j k
    using that dj [of j] dj [of k] o other [of j] other [of k]
    by (cases "j = i"; cases "k = i") (auto simp: owner_inv_def)
  moreover have "a < rs_next t" if "a \<in> set (owned (rs_conn t j)) \<or> a \<in> set (recyclePool t)" for j a
    using that lt [of a] refs le other [of j] by (cases "j = i") (force simp: subset_eq)+
  moreover have "rs_heap t a = blank" if "rc_pos (rs_conn t j) = Filling a x" for j a x
  proof (cases "j = i")
    case False
    then have "rc_pos (rs_conn s j) = Filling a x" using that other by simp
    moreover from this have "a \<in> set (owned (rs_conn s j))" by (simp add: owned_def)
    ultimately show ?thesis using same [OF False] owner_invD(6) [OF o] by simp
  qed (use that fil in simp)
  ultimately have "owner_inv t" using pool unfolding owner_inv_def by blast
  moreover have "results_inv js (rs_heap t) (rs_conn t j)" for j
    using results_inv_heap [OF r, of j "rs_heap t"] res same other [of j] by (cases "j = i") auto
  ultimately show ?thesis by (simp add: reader_inv_def)
qed

lemma fill_blank: "fill (reader_Read js rd) blank = fst (reader_round js rd)"
  by (simp add: fill_def blank_def reader_round_def split: sum.split)

lemma Recycle_blank [simp]: "Recycle x = blank"
  by (cases x) (simp add: Recycle_def blank_def)

lemma rstep_other: "rstep js i s t \<Longrightarrow> j \<noteq> i \<Longrightarrow> rs_conn t j = rs_conn s j"
  by (auto elim!: rstep_cases simp: set_conn_def)

lemma rstep_inv:
  assumes "rstep js i s t" "reader_inv js s"
  shows "reader_inv js t"
proof -
  have inv: "owner_inv s" "results_inv js (rs_heap s) (rs_conn s i)" using assms(2) by (simp_all add: reader_inv_def)
  have o: "distinct (owned (rs_conn s i) @ recyclePool s)"
      "\<And>a. a \<in> set (owned (rs_conn s i)) \<union> set (recyclePool s) \<Longrightarrow> a < rs_next s"
      "\<And>a. a \<in> set (recyclePool s) \<Longrightarrow> rs_heap s a = blank"
      "\<And>a r. rc_pos (rs_conn s i) = Filling a r \<Longrightarrow> rs_heap s a = blank"
      "results_inv js (rs_heap s) (rs_conn s i)"
    using owner_invD [OF inv(1)] inv(2) by auto
  note loc = reader_inv_local [OF assms(2) rstep_other [OF assms(1)]]
  show ?thesis
    using assms(1)
  proof (cases rule: rstep.cases)
    case (r_default c)
    show ?thesis by (rule loc) (use r_default o in \<open>auto simp: set_conn_def owned_def results_inv_def\<close>)
  next
    case (r_done c)
    show ?thesis by (rule loc) (use r_done o in \<open>auto simp: set_conn_def owned_def results_inv_def\<close>)
  next
    case (r_reuse c xs a ys rd)
    show ?thesis by (rule loc) (use r_reuse o in \<open>auto simp: set_conn_def owned_def results_inv_def fill_blank\<close>)
  next
    case (r_new c a rd)
    have ne: "a \<notin> set (owned (rs_conn s i)) \<union> set (recyclePool s)" using o(2) [of a] r_new by auto
    have res: "results_inv js ((rs_heap s)(a := blank)) (rs_conn s i)"
      by (rule results_inv_heap [OF o(5)]) (use ne in auto)
    show ?thesis by (rule loc) (use r_new o(1-3) ne res in \<open>auto simp: set_conn_def owned_def results_inv_def fill_blank\<close>)
  next
    case (r_fill c a r)
    then have "a \<in> set (owned (rs_conn s i))" "a \<notin> set (buf (rc_chan c))" "rc_hold c \<noteq> Some a"
      using o(1) by (auto simp: owned_def)
    then show ?thesis
      by (intro loc) (use r_fill o in \<open>auto simp: set_conn_def owned_def results_inv_def\<close>)
  next
    case (r_send c a b ch)
    show ?thesis by (rule loc) (use r_send o in \<open>auto simp: set_conn_def owned_def results_inv_def go_chan_simps chan_wf_def split: if_splits\<close>)
  next
    case (r_close c ch)
    show ?thesis by (rule loc) (use r_close o in \<open>auto simp: set_conn_def owned_def results_inv_def close_chan_def chan_wf_def split: if_splits\<close>)
  next
    case (m_recv c a ch)
    show ?thesis by (rule loc) (use m_recv o in \<open>auto simp: set_conn_def owned_def results_inv_def go_chan_simps chan_wf_def split: if_splits\<close>)
  next
    case (m_recycle c a)
    then have a: "a \<in> set (owned (rs_conn s i))" "a \<notin> set (buf (rc_chan c))" "a \<notin> set (pos_refs (rc_pos c))"
      using o(1) by (auto simp: owned_def)
    have res: "results_inv js ((rs_heap s)(a := blank)) (c\<lparr>rc_hold := None\<rparr>)"
      by (rule results_inv_heap [of js "rs_heap s"]) (use m_recycle a o(5) in \<open>auto simp: owned_def results_inv_def\<close>)
    have own: "owned (rs_conn s i) = a # owned (c\<lparr>rc_hold := None\<rparr>)" using m_recycle by (simp add: owned_def)
    have ne: "b \<noteq> a" if "rc_pos c = Filling b r" for b r using that a(3) by auto
    show ?thesis
      by (rule loc) (use m_recycle o(1-4) res own a ne in \<open>auto simp: set_conn_def\<close>)
  next
    case (m_drop c a)
    show ?thesis by (rule loc) (use m_drop o in \<open>auto simp: set_conn_def owned_def results_inv_def\<close>)
  next
    case (m_stop c)
    show ?thesis by (rule loc) (use m_stop o in \<open>auto simp: set_conn_def owned_def results_inv_def\<close>)
  next
    case (m_panic c a)
    show ?thesis by (rule loc) (use m_panic o in \<open>auto simp: set_conn_def owned_def results_inv_def\<close>)
  qed
qed

lemma reader_inv_init: "reader_inv js reader_init"
  by (simp add: reader_inv_def owner_inv_def results_inv_def reader_init_def ReadCh_def owned_def make_chan_def
      chan_wf_def)

lemma rreach_inv: "rreach js s t \<Longrightarrow> reader_inv js s \<Longrightarrow> reader_inv js t"
  by (induction rule: rreach.induct) (auto intro: rstep_inv)


section \<open>Delivery\<close>

text \<open>
  C14: the results of a connection reach its read loop unchanged. Whatever the interleaving of any number of
  readers and read loops that share the pool of result objects, the read loop of a connection has seen the
  results of a prefix of the reads of its own connection, in order, each once; the others are in the
  channel or being sent, at most six of them. The object the read loop works on is still the one it
  received: no other goroutine has reused it. No object is in the pool twice or while somebody uses
  it, and the ones in the pool are empty, so that the one field the reader sets is the whole result.
\<close>
theorem reader_delivers:
  assumes "rreach js reader_init s"
  shows "\<exists>rest. rc_seen (rs_conn s i) @ rest = map (\<lambda>rd. fst (reader_round js rd)) (rc_reads (rs_conn s i)) \<and>
      length rest \<le> 6 \<and>
    (\<forall>a. rc_hold (rs_conn s i) = Some a \<longrightarrow> rs_heap s a = last (rc_seen (rs_conn s i))) \<and>
    distinct (recyclePool s) \<and>
    (\<forall>a \<in> set (recyclePool s). rs_heap s a = blank \<and> (\<forall>j. a \<notin> set (owned (rs_conn s j)))) \<and>
    (\<forall>j. j \<noteq> i \<longrightarrow> set (owned (rs_conn s i)) \<inter> set (owned (rs_conn s j)) = {})"
proof -
  let ?c = "rs_conn s i"
  let ?rest = "map (rs_heap s) (buf (rc_chan ?c)) @ pos_results (rs_heap s) (rc_pos ?c)"
  have inv: "owner_inv s" "results_inv js (rs_heap s) ?c"
    using rreach_inv [OF assms reader_inv_init] by (simp_all add: reader_inv_def)
  have "length (pos_results (rs_heap s) (rc_pos ?c)) \<le> 1" by (cases "rc_pos ?c") simp_all
  then have "length ?rest \<le> 6" using inv(2) by (simp add: results_inv_def chan_wf_def)
  moreover have "rc_seen ?c @ ?rest = map (\<lambda>rd. fst (reader_round js rd)) (rc_reads ?c)"
    "\<forall>a. rc_hold ?c = Some a \<longrightarrow> rs_heap s a = last (rc_seen ?c)"
    using inv(2) by (simp_all add: results_inv_def)
  moreover have "distinct (recyclePool s)"
    "\<forall>a \<in> set (recyclePool s). rs_heap s a = blank \<and> (\<forall>j. a \<notin> set (owned (rs_conn s j)))"
    "\<forall>j. j \<noteq> i \<longrightarrow> set (owned ?c) \<inter> set (owned (rs_conn s j)) = {}"
    using owner_invD [OF inv(1)] by auto
  ultimately show ?thesis by blast
qed

text \<open>
  The goroutine of a reader can be left behind. When the read loop has ended while the
  channel is full and the reader has a further result to send, the reader stays in that send for ever: it does not look at
  \<^verbatim>\<open>done\<close> there.
\<close>
definition reader_blocked :: "reader_conn \<Rightarrow> bool" where
  "reader_blocked c = (rc_stopped c \<and> (case rc_pos c of Sending a b \<Rightarrow> cap (rc_chan c) \<le> length (buf (rc_chan c)) | _ \<Rightarrow> False))"

lemma reader_blocked_step: "rstep js i s t \<Longrightarrow> reader_blocked (rs_conn s j) \<Longrightarrow> rs_conn t j = rs_conn s j"
  by (cases "j = i")
    (auto elim!: rstep_cases dest: rstep_other simp: reader_blocked_def set_conn_def go_chan_simps)

theorem reader_blocked_forever:
  assumes "rreach js s t" "reader_blocked (rs_conn s j)"
  shows "rs_conn t j = rs_conn s j"
  using assms
proof (induction rule: rreach.induct)
  case (rreach_step t i u)
  then show ?case using reader_blocked_step [OF rreach_step.hyps(2), of j] by simp
qed simp

text \<open>The reader reads \<open>rd\<close> into a new object, and sends it.\<close>
definition read_new :: "(bytes \<Rightarrow> string + GlideMessage) \<Rightarrow> nat \<Rightarrow> string + bytes \<Rightarrow> reader_sys \<Rightarrow> reader_sys" where
  "read_new js i rd s =
     set_conn i ((rs_conn s i)\<lparr>rc_reads := rc_reads (rs_conn s i) @ [rd], rc_pos := Sending (rs_next s) (go_on (reader_Read js rd))\<rparr>)
       (s\<lparr>rs_next := rs_next s + 1, rs_heap := (rs_heap s)(rs_next s := fst (reader_round js rd))\<rparr>)"

definition send_result :: "nat \<Rightarrow> reader_sys \<Rightarrow> reader_sys" where
  "send_result i s =
     (let c = rs_conn s i in
      case rc_pos c of
        Sending a b \<Rightarrow> set_conn i (c\<lparr>rc_chan := (rc_chan c)\<lparr>buf := buf (rc_chan c) @ [a]\<rparr>, rc_pos := if b then AtSelect else Closing\<rparr>) s
      | _ \<Rightarrow> s)"

lemma rreach_read_new:
  assumes "rreach js s0 s" "rc_pos (rs_conn s i) = AtSelect" "\<not> rc_done (rs_conn s i)"
  shows "rreach js s0 (read_new js i rd s)"
proof -
  let ?c = "rs_conn s i" and ?a = "rs_next s" and ?r = "reader_Read js rd"
  let ?s1 = "set_conn i (?c\<lparr>rc_pos := Reading\<rparr>) s"
  let ?s2 = "set_conn i (?c\<lparr>rc_pos := Filling ?a ?r, rc_reads := rc_reads ?c @ [rd]\<rparr>)
    (s\<lparr>rs_heap := (rs_heap s)(?a := blank), rs_next := ?a + 1\<rparr>)"
  have 1: "rstep js i s ?s1" using r_default [OF refl assms(2,3)] .
  have 2: "rstep js i ?s1 ?s2"
    using r_new [of ?s1 i "?c\<lparr>rc_pos := Reading\<rparr>" ?a js rd] by (simp add: set_conn_def)
  have 3: "rstep js i ?s2 (read_new js i rd s)"
    using r_fill [of ?s2 i "?c\<lparr>rc_pos := Filling ?a ?r, rc_reads := rc_reads ?c @ [rd]\<rparr>" ?a ?r js]
    by (simp add: set_conn_def read_new_def fill_blank)
  show ?thesis using assms(1) 1 2 3 by (blast intro: rreach_step)
qed

lemma rreach_send_result:
  assumes "rreach js s0 s" "rc_pos (rs_conn s i) = Sending a b"
    "\<not> closed (rc_chan (rs_conn s i))" "length (buf (rc_chan (rs_conn s i))) < cap (rc_chan (rs_conn s i))"
  shows "rreach js s0 (send_result i s)"
  using rreach_step [OF assms(1) r_send [OF refl assms(2)]] assms by (simp add: try_send_def send_result_def Let_def)

lemma rreach_reads:
  assumes "rreach js s0 s" "rc_pos (rs_conn s i) = AtSelect" "\<not> rc_done (rs_conn s i)" "\<not> closed (rc_chan (rs_conn s i))"
    and "length (buf (rc_chan (rs_conn s i))) + length rds \<le> cap (rc_chan (rs_conn s i))"
    and "\<And>rd. rd \<in> set rds \<Longrightarrow> go_on (reader_Read js rd)"
  shows "\<exists>t. rreach js s0 t \<and> rc_pos (rs_conn t i) = AtSelect \<and> \<not> rc_done (rs_conn t i) \<and> \<not> closed (rc_chan (rs_conn t i)) \<and>
    rc_hold (rs_conn t i) = rc_hold (rs_conn s i) \<and> rc_stopped (rs_conn t i) = rc_stopped (rs_conn s i) \<and>
    rc_reads (rs_conn t i) = rc_reads (rs_conn s i) @ rds \<and>
    cap (rc_chan (rs_conn t i)) = cap (rc_chan (rs_conn s i)) \<and>
    length (buf (rc_chan (rs_conn t i))) = length (buf (rc_chan (rs_conn s i))) + length rds"
  using assms
proof (induction rds arbitrary: s)
  case Nil
  then show ?case by auto
next
  case (Cons rd rds)
  let ?t = "send_result i (read_new js i rd s)"
  have "rreach js s0 ?t"
    by (rule rreach_send_result [OF rreach_read_new [OF Cons.prems(1-3)]])
      (use Cons.prems in \<open>auto simp: read_new_def set_conn_def\<close>)
  from Cons.IH [OF this] Cons.prems show ?case by (simp add: send_result_def read_new_def set_conn_def)
qed

text \<open>
  Six messages that arrive while the read loop is about to stop are enough: it is left
  with a full channel and a reader that will never end.
\<close>
theorem reader_leaks:
  assumes "length rds = 6" "\<And>rd. rd \<in> set rds \<Longrightarrow> go_on (reader_Read js rd)"
  shows "\<exists>s. rreach js reader_init s \<and> rc_reads (rs_conn s i) = rds \<and> rc_seen (rs_conn s i) = [] \<and> rc_done (rs_conn s i) \<and>
    (\<forall>t. rreach js s t \<longrightarrow> rs_conn t i = rs_conn s i \<and> rc_pos (rs_conn t i) \<noteq> Ended)"
proof -
  have c0: "rc_pos (rs_conn reader_init i) = AtSelect" "\<not> rc_done (rs_conn reader_init i)" "\<not> closed (rc_chan (rs_conn reader_init i))"
    "cap (rc_chan (rs_conn reader_init i)) = 5" "buf (rc_chan (rs_conn reader_init i)) = []" "\<not> rc_stopped (rs_conn reader_init i)"
    "rc_hold (rs_conn reader_init i) = None" "rc_reads (rs_conn reader_init i) = []"
    by (simp_all add: reader_init_def ReadCh_def make_chan_def)
  obtain rs rd where rds: "rds = rs @ [rd]" "length rs = 5"
    using assms(1) by (cases rds rule: rev_cases) auto
  obtain s where s: "rreach js reader_init s" "rc_pos (rs_conn s i) = AtSelect" "\<not> rc_done (rs_conn s i)"
      "rc_hold (rs_conn s i) = None" "\<not> rc_stopped (rs_conn s i)" "rc_reads (rs_conn s i) = rs"
      "cap (rc_chan (rs_conn s i)) = 5" "length (buf (rc_chan (rs_conn s i))) = 5"
    using rreach_reads [OF rreach_refl c0(1-3), of rs js] c0 rds assms(2) by auto
  let ?s1 = "read_new js i rd s"
  let ?c = "rs_conn ?s1 i"
  let ?s2 = "set_conn i (?c\<lparr>rc_stopped := True, rc_done := True\<rparr>) ?s1"
  have r1: "rreach js reader_init ?s1" by (rule rreach_read_new [OF s(1-3)])
  have f: "?c = (rs_conn s i)\<lparr>rc_reads := rds, rc_pos := Sending (rs_next s) (go_on (reader_Read js rd))\<rparr>"
    by (simp add: read_new_def set_conn_def s(6) rds(1))
  have r2: "rreach js reader_init ?s2" by (rule rreach_step [OF r1 m_stop]) (use f s in auto)
  have "length (rc_seen ?c) = 0"
    using rreach_inv [OF r1 reader_inv_init] f s(8) assms(1)
    by (auto simp: reader_inv_def results_inv_def dest!: spec [of _ i] arg_cong [where f = length])
  moreover have b: "reader_blocked (rs_conn ?s2 i)" using f s by (simp add: reader_blocked_def set_conn_def)
  ultimately show ?thesis
    using r2 reader_blocked_forever [OF _ b] f by (intro exI [of _ ?s2]) (auto simp: set_conn_def)
qed

theorem reader_delivers_witness:
  "\<exists>s rest. rreach (\<lambda>b. Inr (NewMessage 0 ActionHeartbeat INil)) reader_init s \<and>
     rc_reads (rs_conn s 0) = [Inr [], Inl ''closed''] \<and> rc_hold (rs_conn s 0) = Some 0 \<and>
     rc_seen (rs_conn s 0) = [\<lparr>rr_err = nil, rr_m = Some (NewMessage 0 ActionHeartbeat INil)\<rparr>] \<and>
     rs_heap s 0 = last (rc_seen (rs_conn s 0)) \<and> length rest \<le> 6 \<and>
     rc_seen (rs_conn s 0) @ rest =
       [\<lparr>rr_err = nil, rr_m = Some (NewMessage 0 ActionHeartbeat INil)\<rparr>, \<lparr>rr_err = Some ''closed'', rr_m = None\<rparr>]"
proof -
  let ?js = "\<lambda>b. Inr (NewMessage 0 ActionHeartbeat INil) :: string + GlideMessage"
  let ?s1 = "read_new ?js 0 (Inr []) reader_init"
  let ?s2 = "send_result 0 ?s1"
  let ?s3 = "read_new ?js 0 (Inl ''closed'') ?s2"
  let ?c = "rs_conn ?s3 0"
  let ?s4 = "set_conn 0 (?c\<lparr>rc_chan := (rc_chan ?c)\<lparr>buf := []\<rparr>, rc_hold := Some 0, rc_seen := rc_seen ?c @ [rs_heap ?s3 0]\<rparr>) ?s3"
  note ev = reader_init_def ReadCh_def make_chan_def read_new_def send_result_def set_conn_def Let_def reader_round_def
    reader_Read_def JsonCodec_Decode_def go_on_def IsDecodeError_def errDecode_def has_prefix_def
  have 1: "rreach ?js reader_init ?s1" by (rule rreach_read_new [OF rreach_refl]) (simp_all add: ev)
  have 2: "rreach ?js reader_init ?s2" by (rule rreach_send_result [OF 1]) (simp_all add: ev)
  have 3: "rreach ?js reader_init ?s3" by (rule rreach_read_new [OF 2]) (simp_all add: ev)
  have 4: "rreach ?js reader_init ?s4"
    by (rule rreach_step [OF 3 m_recv [OF refl]]) (simp_all add: ev try_recv_def)
  from reader_delivers [OF 4, of 0] show ?thesis
    by (intro exI [of _ ?s4]) (use 4 in \<open>auto simp: ev\<close>)
qed

end
