(* ===== verification/Loops.thy ===== *)
theory Loops
  imports Gateway Reader
begin

text \<open>
  The two goroutines of a client as wholes: the loops \<open>runRead\<close> and \<open>runWrite\<close> of
  \<^verbatim>\<open>pkg/gate/client_impl.go\<close>, whose single rounds are in the theory \<open>Gateway\<close>, and the set-up of the
  WebSocket server around them (\<^verbatim>\<open>SetMessageHandler\<close>, \<^verbatim>\<open>HandleConnection\<close>).

  A loop is run on the list of the cases its \<^verbatim>\<open>select\<close> takes, one after the other; which cases are ready and which one
  Go picks is up to the list. The result tells whether the loop has ended.
\<close>

section \<open>The loops\<close>

datatype read_case = ReadClosed | ReadHeartbeat | ReadMessage "readerRes option"

fun runRead_case :: "auth_env \<Rightarrow> nat \<Rightarrow> read_case \<Rightarrow> gateway \<Rightarrow> (bool \<times> gateway) outcome" where
  "runRead_case env r ReadClosed g = Ret (runRead_closed r g)"
| "runRead_case env r ReadHeartbeat g = runRead_heartbeat r g"
| "runRead_case env r (ReadMessage res) g = runRead_recover env r res g"

fun runRead :: "auth_env \<Rightarrow> nat \<Rightarrow> read_case list \<Rightarrow> gateway \<Rightarrow> (bool \<times> gateway) outcome" where
  "runRead env r [] g = Ret (False, g)"
| "runRead env r (e # es) g =
     bind_outcome (runRead_case env r e g) (\<lambda>(stop, g'). if stop then Ret (True, g') else runRead env r es g')"

datatype write_case = WriteClosed | WriteHeartbeat | WriteMessage "GlideMessage option"

fun runWrite_case :: "client_io \<Rightarrow> nat \<Rightarrow> write_case \<Rightarrow> gateway \<Rightarrow> (bool \<times> gateway) outcome" where
  "runWrite_case io r WriteClosed g = Ret (runWrite_closed r g)"
| "runWrite_case io r WriteHeartbeat g = runWrite_heartbeat r g"
| "runWrite_case io r (WriteMessage m) g = runWrite_message io r m g"

fun runWrite :: "client_io \<Rightarrow> nat \<Rightarrow> write_case list \<Rightarrow> gateway \<Rightarrow> (bool \<times> gateway) outcome" where
  "runWrite io r [] g = Ret (False, g)"
| "runWrite io r (e # es) g =
     bind_outcome (runWrite_case io r e g) (\<lambda>(stop, g'). if stop then Ret (True, g') else runWrite io r es g')"


section \<open>No round fails\<close>

text \<open>The outcome is a good state with the same clients in the heap.\<close>
definition returns_good :: "gateway \<Rightarrow> (bool \<times> gateway) outcome \<Rightarrow> bool" where
  "returns_good g x = (case x of Ret (b, g') \<Rightarrow> good g' \<and> next_ref g' = next_ref g | Panic m \<Rightarrow> False)"

lemma safe_returns:
  "safe_from g snd x \<Longrightarrow> \<exists>y. x = Ret y \<Longrightarrow> returns_good g x"
  by (auto simp: returns_good_def)

lemma self_enqueue_returns: "good g \<Longrightarrow> \<exists>g'. self_enqueue r m g = Ret g'"
  using EnqueueMessage_returns [of g m r] by (auto simp: good_def self_enqueue_def)

lemma Exit_returns: "good g \<Longrightarrow> r < next_ref g \<Longrightarrow> \<exists>g'. Exit r g = Ret g' \<and> good g' \<and> next_ref g' = next_ref g"
  using Exit_inv [of g r] safe_Exit [of g r] by (auto simp: good_def)

lemma runRead_heartbeat_returns:
  assumes "good g" "r < next_ref g"
  shows "returns_good g (runRead_heartbeat r g)"
proof (rule safe_returns [OF safe_runRead_heartbeat [OF assms]])
  let ?g = "upd r (\<lambda>c. c\<lparr>hbLost := hbLost c + 1\<rparr>) g"
  have g1: "good ?g" by (rule good_upd' [OF assms(1)]) simp_all
  then have e: "\<exists>g'. (if c then Exit r ?g else Ret ?g) = Ret g' \<and> good g'" for c
    using Exit_returns [OF g1] assms(2) by auto
  have "\<exists>y. bind_outcome (if c then Exit r ?g else Ret ?g)
      (\<lambda>g2. bind_outcome (self_enqueue r m (rearm_hbC r g2)) (\<lambda>g3. Ret (False, g3))) = Ret y" for c m
  proof -
    obtain g2 where "(if c then Exit r ?g else Ret ?g) = Ret g2" "good g2" using e by blast
    then show ?thesis using self_enqueue_returns [OF good_rearm(1), of g2 r m r] by auto
  qed
  from this [of "hbLost (heap ?g r) > HeartbeatLostLimit (config (heap ?g r))" "NewMessage 0 ActionHeartbeat INil"]
  show "\<exists>y. runRead_heartbeat r g = Ret y"
    unfolding runRead_heartbeat_def Let_def by (cases "IsRunning (heap g r)") (simp_all add: ex_bool_eq)
qed

lemma runRead_recover_returns:
  assumes "good g" "r < next_ref g" "env_ok env"
  shows "returns_good g (runRead_recover env r res g)"
proof (rule safe_returns [OF safe_runRead_recover [OF assms]])
  have s: "good (read_state r res g)" "next_ref (read_state r res g) = next_ref g"
    using assms(1) by (auto simp: read_state_def intro!: good_rearm good_upd' split: option.split)
  obtain g' where "Exit r (read_state r res g) = Ret g'" using Exit_returns [OF s(1)] assms(2) s(2) by auto
  then show "\<exists>y. runRead_recover env r res g = Ret y"
    using safe_runRead_message [OF assms, of res]
    by (cases "runRead_message env r res g") (auto simp: runRead_recover_def safe_from_def)
qed

lemma runRead_case_returns:
  assumes "good g" "r < next_ref g" "env_ok env"
  shows "returns_good g (runRead_case env r e g)"
proof (cases e)
  case ReadClosed
  then show ?thesis using good_runRead_closed [OF assms(1), of r] by (simp add: returns_good_def runRead_closed_def)
qed (use runRead_heartbeat_returns [OF assms(1,2)] runRead_recover_returns [OF assms] in simp_all)

lemma runWrite_case_returns:
  assumes "good g" "r < next_ref g"
  shows "returns_good g (runWrite_case io r e g)"
proof (cases e)
  case WriteClosed
  then show ?thesis using good_runWrite_closed [OF assms(1), of r] by (simp add: returns_good_def runWrite_closed_def)
next
  case WriteHeartbeat
  then show ?thesis
    using safe_runWrite(1) [OF assms] self_enqueue_returns [OF assms(1), of r "NewMessage 0 ActionHeartbeat INil"]
    by (cases "IsRunning (heap g r)") (auto simp: runWrite_heartbeat_def returns_good_def)
next
  case (WriteMessage m)
  then show ?thesis
    using safe_runWrite(2) [OF assms, of io m] Exit_returns [OF assms]
    by (cases m) (auto simp: runWrite_message_def returns_good_def)
qed

lemma loop_returns:
  assumes "\<And>e g. good g \<Longrightarrow> r < next_ref g \<Longrightarrow> returns_good g (f e g)"
    and "\<And>g. loop [] g = Ret (False, g)"
    and "\<And>e es g. loop (e # es) g = bind_outcome (f e g) (\<lambda>(stop, g'). if stop then Ret (True, g') else loop es g')"
    and "good g" "r < next_ref g"
  shows "returns_good g (loop es g)"
  using assms(4,5)
proof (induction es arbitrary: g)
  case (Cons e es)
  from assms(1) [OF Cons.prems, of e] obtain b g' where "f e g = Ret (b, g')" "good g'" "next_ref g' = next_ref g"
    by (auto simp: returns_good_def split: outcome.splits)
  then show ?case using Cons.IH [of g'] Cons.prems(2) by (cases b; cases "loop es g'") (simp_all add: assms(3) returns_good_def)
qed (simp add: assms(2) returns_good_def)

lemma runRead_returns:
  assumes "good g" "r < next_ref g" "env_ok env"
  shows "returns_good g (runRead env r es g)"
  by (rule loop_returns [where f = "runRead_case env r"]) (use assms runRead_case_returns in auto)

lemma runWrite_returns:
  assumes "good g" "r < next_ref g"
  shows "returns_good g (runWrite io r es g)"
  by (rule loop_returns [where f = "runWrite_case io r"]) (use assms runWrite_case_returns in auto)


section \<open>After the end\<close>

lemma upd_same: "upd r (\<lambda>_. heap g r) g = g"
  by (simp add: upd_def)

lemma closed_enqueue: "state (heap g r) = stateClosed \<Longrightarrow> self_enqueue r m g = Ret g"
  by (simp add: self_enqueue_def EnqueueMessage_def upd_same)

lemma closed_read:
  assumes "state (heap g r) = stateClosed" "info_ID (info (heap g r)) = ''''"
  shows "runRead_recover env r res g = Ret (False, g)"
  using assms closed_enqueue [OF assms(1)]
  by (auto simp: runRead_recover_def runRead_message_def Exit_closed split: option.split)

definition read_stops :: "read_case \<Rightarrow> bool" where
  "read_stops e = (case e of ReadMessage res \<Rightarrow> False | _ \<Rightarrow> True)"

lemma closed_runRead:
  assumes "state (heap g r) = stateClosed" "info_ID (info (heap g r)) = ''''"
  shows "runRead env r es g =
    (if list_ex read_stops es then Ret (True, upd r (\<lambda>c. c\<lparr>hbC := None\<rparr>) g) else Ret (False, g))"
proof (induction es)
  case (Cons e es)
  then show ?case using assms
    by (cases e) (simp_all add: closed_read read_stops_def runRead_closed_def runRead_heartbeat_def IsRunning_def)
qed simp



end
