(* ===== verification/Conn.thy ===== *)
theory Conn
  imports Loops
begin

text \<open>
  Connections (\<^verbatim>\<open>pkg/conn\<close>) and the reader on top of them.

  What gorilla/websocket and the network answer to a call is an argument: \<open>ws_err\<close> is an error with
  the answers of \<^verbatim>\<open>IsUnexpectedCloseError\<close> and \<^verbatim>\<open>IsCloseError\<close> for it, a read answers an error or a
  message type with its bytes. The state of a connection is what the code sets: the deadlines, whether
  it was closed, and what was written. Times are in nanoseconds.
\<close>

section \<open>WebSocket connections\<close>

definition ErrForciblyClosed :: string where "ErrForciblyClosed = ''connection was forcibly closed''"
definition ErrClosed :: string where "ErrClosed = ''closed''"
definition ErrConnectionClosed :: string where "ErrConnectionClosed = ''connection closed''"
definition ErrBadPackage :: string where "ErrBadPackage = ''bad package data''"
definition ErrReadTimeout :: string where "ErrReadTimeout = ''i/o timeout''"

lemmas conn_errors = ErrClosed_def ErrBadPackage_def ErrReadTimeout_def

record WsServerOptions =
  ReadTimeout :: int
  WriteTimeout :: int

record WsConnection =
  ws_options :: WsServerOptions
  ws_closed :: bool
  ws_readDeadline :: int
  ws_writeDeadline :: int
  ws_written :: "bytes list"

record ws_err =
  we_text :: string
  we_unexpected :: bool
  we_close :: bool

text \<open>\<^verbatim>\<open>strings.Contains\<close>.\<close>
fun contains :: "string \<Rightarrow> string \<Rightarrow> bool" where
  "contains [] sub = (sub = [])"
| "contains (c # s) sub = (has_prefix (c # s) sub \<or> contains s sub)"

definition forcibly_text :: string where
  "forcibly_text = ''An existing connection was forcibly closed by the remote host''"

definition closed_text :: string where
  "closed_text = ''use of closed network conn''"

definition NewWsConnection :: "WsServerOptions \<Rightarrow> WsConnection" where
  "NewWsConnection opts =
     \<lparr>ws_options = opts, ws_closed = False, ws_readDeadline = 0, ws_writeDeadline = 0, ws_written = []\<rparr>"

definition wrapError :: "ws_err option \<Rightarrow> WsConnection \<Rightarrow> go_error \<times> WsConnection" where
  "wrapError err c =
     (case err of
        None \<Rightarrow> (nil, c)
      | Some e \<Rightarrow>
          if we_unexpected e then (Some ErrClosed, c)
          else if we_close e then (Some ErrClosed, c)
          else if contains (we_text e) forcibly_text then (Some ErrClosed, c\<lparr>ws_closed := True\<rparr>)
          else if contains (we_text e) closed_text then (Some ErrClosed, c\<lparr>ws_closed := True\<rparr>)
          else if contains (we_text e) ''i/o timeout'' then (Some ErrReadTimeout, c)
          else (Some (we_text e), c))"

text \<open>\<open>now\<close> is the time, \<open>err\<close> what \<^verbatim>\<open>WriteMessage\<close> answers.\<close>
definition Ws_Write :: "int \<Rightarrow> ws_err option \<Rightarrow> bytes \<Rightarrow> WsConnection \<Rightarrow> go_error \<times> WsConnection" where
  "Ws_Write now err b c =
     (let c1 = c\<lparr>ws_writeDeadline := now + WriteTimeout (ws_options c)\<rparr>;
          c2 = (if err = None then c1\<lparr>ws_written := ws_written c1 @ [b]\<rparr> else c1)
      in wrapError err c2)"

definition TextMessage :: int where "TextMessage = 1"
definition BinaryMessage :: int where "BinaryMessage = 2"
definition PingMessage :: int where "PingMessage = 9"

definition Ws_Read :: "int \<Rightarrow> ws_err + int \<times> bytes \<Rightarrow> WsConnection \<Rightarrow> (string + bytes) \<times> WsConnection" where
  "Ws_Read now a c =
     (let c1 = c\<lparr>ws_readDeadline := now + ReadTimeout (ws_options c)\<rparr>
      in case a of
           Inl e \<Rightarrow> (case wrapError (Some e) c1 of (x, c2) \<Rightarrow> (Inl (the x), c2))
         | Inr (t, b) \<Rightarrow>
             if t = TextMessage \<or> t = PingMessage \<or> t = BinaryMessage then (Inr b, c1)
             else (Inl ErrBadPackage, c1))"

definition Ws_Close :: "ws_err option \<Rightarrow> WsConnection \<Rightarrow> go_error \<times> WsConnection" where
  "Ws_Close err c = wrapError err (c\<lparr>ws_closed := True\<rparr>)"


section \<open>Servers\<close>

text \<open>The options of a server; nil stands for eight minutes.\<close>
definition NewWsServer :: "WsServerOptions option \<Rightarrow> WsServerOptions" where
  "NewWsServer opts =
     (case opts of
        None \<Rightarrow> \<lparr>ReadTimeout = 8 * 60 * second, WriteTimeout = 8 * 60 * second\<rparr>
      | Some o' \<Rightarrow> o')"

text \<open>The options \<^verbatim>\<open>NewWebsocketServer\<close> gives to its server.\<close>
definition ws_server_options :: WsServerOptions where
  "ws_server_options = NewWsServer (Some \<lparr>ReadTimeout = 3 * 60 * second, WriteTimeout = 3 * 60 * second\<rparr>)"

text \<open>
  \<^verbatim>\<open>TcpConnection.Read\<close> reads into a nil slice; \<open>err\<close> is the error of the read of no bytes. The bytes
  that wait in the socket stay there.
\<close>
definition Tcp_Read :: "go_error \<Rightarrow> bytes \<Rightarrow> (string + bytes) \<times> bytes" where
  "Tcp_Read err socket = (case err of Some e \<Rightarrow> Inl e | None \<Rightarrow> Inr [], socket)"

definition Tcp_Write :: "go_error \<Rightarrow> bytes \<Rightarrow> bytes \<Rightarrow> go_error \<times> bytes" where
  "Tcp_Write err b out = (err, if err = nil then out @ b else out)"

text \<open>The methods of \<^verbatim>\<open>WebsocketGatewayServer\<close> that clients and other components call.\<close>

definition ws_GetClient :: "ID \<Rightarrow> gateway \<Rightarrow> nat option" where
  "ws_GetClient i g = Impl_GetClient i g"

definition ws_GetAll :: "gateway \<Rightarrow> ID \<Rightarrow> Info option" where
  "ws_GetAll g = Impl_GetAll g"

definition ws_AddClient :: "nat \<Rightarrow> gateway \<Rightarrow> gateway outcome" where
  "ws_AddClient r g = Impl_AddClient r g"

definition ws_SetClientID :: "ID \<Rightarrow> ID \<Rightarrow> gateway \<Rightarrow> (go_error \<times> gateway) outcome" where
  "ws_SetClientID old new g = Impl_SetClientID old new g"

definition ws_UpdateClient :: "ID \<Rightarrow> ClientSecrets \<Rightarrow> gateway \<Rightarrow> (go_error \<times> gateway) outcome" where
  "ws_UpdateClient i sec g = Impl_UpdateClient i sec g"

definition ws_ExitClient :: "ID \<Rightarrow> gateway \<Rightarrow> (go_error \<times> gateway) outcome" where
  "ws_ExitClient i g = Impl_ExitClient i g"

definition ws_EnqueueMessage :: "ID \<Rightarrow> GlideMessage \<Rightarrow> gateway \<Rightarrow> (go_error \<times> gateway) outcome" where
  "ws_EnqueueMessage i m g = Impl_EnqueueMessage i m g"


section \<open>The connection interface\<close>

text \<open>
  The interface \<^verbatim>\<open>Connection\<close>: a WebSocket, a TCP connection (what waits in the socket, what was written, and whether it was
  closed), or a \<^verbatim>\<open>ConnectionProxy\<close> around another one. \<open>err\<close> is the answer of the network; for TCP only its text counts.
\<close>
datatype Connection =
    WsConn WsConnection
  | TcpConn bytes bytes bool
  | ConnectionProxy Connection

definition NewTcpConn :: "bytes \<Rightarrow> Connection" where
  "NewTcpConn socket = TcpConn socket [] False"

fun Conn_Write :: "int \<Rightarrow> ws_err option \<Rightarrow> bytes \<Rightarrow> Connection \<Rightarrow> go_error \<times> Connection" where
  "Conn_Write now err b (WsConn c) = (case Ws_Write now err b c of (e, c') \<Rightarrow> (e, WsConn c'))"
| "Conn_Write now err b (TcpConn i out cl) =
     (case Tcp_Write (map_option we_text err) b out of (e, out') \<Rightarrow> (e, TcpConn i out' cl))"
| "Conn_Write now err b (ConnectionProxy c) =
     (case Conn_Write now err b c of (e, c') \<Rightarrow> (e, ConnectionProxy c'))"

fun Conn_Read :: "int \<Rightarrow> ws_err + int \<times> bytes \<Rightarrow> Connection \<Rightarrow> (string + bytes) \<times> Connection" where
  "Conn_Read now a (WsConn c) = (case Ws_Read now a c of (x, c') \<Rightarrow> (x, WsConn c'))"
| "Conn_Read now a (TcpConn i out cl) =
     (case Tcp_Read (case a of Inl e \<Rightarrow> Some (we_text e) | Inr _ \<Rightarrow> nil) i of (x, i') \<Rightarrow> (x, TcpConn i' out cl))"
| "Conn_Read now a (ConnectionProxy c) = (case Conn_Read now a c of (x, c') \<Rightarrow> (x, ConnectionProxy c'))"

text \<open>\<^verbatim>\<open>TcpConnection.Close\<close> returns the error of the socket.\<close>
definition Tcp_Close :: "go_error \<Rightarrow> Connection \<Rightarrow> go_error \<times> Connection" where
  "Tcp_Close err c = (case c of TcpConn i out cl \<Rightarrow> (err, TcpConn i out True) | _ \<Rightarrow> (err, c))"

fun Conn_Close :: "ws_err option \<Rightarrow> Connection \<Rightarrow> go_error \<times> Connection" where
  "Conn_Close err (WsConn c) = (case Ws_Close err c of (e, c') \<Rightarrow> (e, WsConn c'))"
| "Conn_Close err (TcpConn i out cl) = Tcp_Close (map_option we_text err) (TcpConn i out cl)"
| "Conn_Close err (ConnectionProxy c) = (case Conn_Close err c of (e, c') \<Rightarrow> (e, ConnectionProxy c'))"

text \<open>The address of the peer; only a TCP address can be looked into, the type assertion panics on any other.\<close>
datatype net_addr = TCPAddr string int string | OtherAddr string

record ConnectionInfo =
  ci_Ip :: string
  ci_Port :: int
  ci_Addr :: string

definition GetConnInfo :: "net_addr \<Rightarrow> ConnectionInfo outcome" where
  "GetConnInfo remote =
     (case remote of
        TCPAddr ip port text \<Rightarrow> Ret \<lparr>ci_Ip = ip, ci_Port = port, ci_Addr = text\<rparr>
      | OtherAddr text \<Rightarrow> Panic ''interface conversion'')"

definition Tcp_GetConnInfo :: "net_addr \<Rightarrow> ConnectionInfo outcome" where
  "Tcp_GetConnInfo remote =
     (case remote of
        TCPAddr ip port text \<Rightarrow> Ret \<lparr>ci_Ip = ip, ci_Port = port, ci_Addr = text\<rparr>
      | OtherAddr text \<Rightarrow> Panic ''interface conversion'')"

text \<open>What a connection has passed on to its peer.\<close>
fun conn_sent :: "Connection \<Rightarrow> bytes" where
  "conn_sent (WsConn c) = concat (ws_written c)"
| "conn_sent (TcpConn i out cl) = out"
| "conn_sent (ConnectionProxy c) = conn_sent c"

fun unproxy :: "Connection \<Rightarrow> Connection" where
  "unproxy (ConnectionProxy c) = unproxy c"
| "unproxy c = c"

text \<open>A sequence of writes, each with the answer of the network; the results are the errors returned.\<close>
fun write_all :: "(ws_err option \<Rightarrow> bytes \<Rightarrow> 'c \<Rightarrow> go_error \<times> 'c) \<Rightarrow> (ws_err option \<times> bytes) list \<Rightarrow> 'c \<Rightarrow> go_error list \<times> 'c" where
  "write_all wr [] c = ([], c)"
| "write_all wr ((err, b) # ws) c =
     (let r = wr err b c; rs = write_all wr ws (snd r) in (fst r # fst rs, snd rs))"

text \<open>What the client relies on: a write returns nil exactly when the network took all of its bytes.\<close>
locale connection =
  fixes wr :: "ws_err option \<Rightarrow> bytes \<Rightarrow> 'c \<Rightarrow> go_error \<times> 'c"
    and sent :: "'c \<Rightarrow> bytes"
  assumes write_ok: "fst (wr None b c) = nil" "sent (snd (wr None b c)) = sent c @ b"
    and write_fails: "fst (wr (Some e) b c) \<noteq> nil" "sent (snd (wr (Some e) b c)) = sent c"
begin

lemma write_error: "(fst (wr err b c) = nil) = (err = None)"
  using write_ok write_fails by (cases err) auto

lemma write_all_sent:
  "sent (snd (write_all wr ws c)) = sent c @ concat (map snd (filter (\<lambda>w. fst w = None) ws))"
proof (induction ws arbitrary: c)
  case (Cons w ws)
  obtain err b where w: "w = (err, b)" by (cases w)
  have "sent (snd (wr err b c)) = sent c @ (if err = None then b else [])"
    using write_ok write_fails by (cases err) auto
  then show ?case using Cons.IH by (simp add: w Let_def)
qed simp

lemma write_all_errors: "map (\<lambda>e. e = nil) (fst (write_all wr ws c)) = map (\<lambda>w. fst w = None) ws"
proof (induction ws arbitrary: c)
  case (Cons w ws)
  obtain err b where w: "w = (err, b)" by (cases w)
  show ?case using Cons.IH write_error [of err b c] by (simp add: w Let_def)
qed simp

end

lemma wrapError_sent: "ws_written (snd (wrapError err c)) = ws_written c"
  by (simp add: wrapError_def split: option.split)

lemma wrapError_nil: "(fst (wrapError err c) = nil) = (err = None)"
  by (simp add: wrapError_def split: option.split)

interpretation ws_conn: connection "Ws_Write now" "\<lambda>c. concat (ws_written c)" for now
  by unfold_locales (simp_all add: Ws_Write_def Let_def wrapError_sent wrapError_nil)

interpretation tcp_conn: connection "\<lambda>err. Tcp_Write (map_option we_text err)" "\<lambda>out. out"
  by unfold_locales (simp_all add: Tcp_Write_def)

lemma Conn_Write_laws:
  "fst (Conn_Write now None b c) = nil \<and> conn_sent (snd (Conn_Write now None b c)) = conn_sent c @ b"
  "fst (Conn_Write now (Some e) b c) \<noteq> nil \<and> conn_sent (snd (Conn_Write now (Some e) b c)) = conn_sent c"
proof (induction c)
  case (WsConn c)
  case 1 show ?case using ws_conn.write_ok [of now b c] by (auto split: prod.splits)
  case 2 show ?case using ws_conn.write_fails [of now e b c] by (auto split: prod.splits)
qed (auto simp: Tcp_Write_def split: prod.splits)

interpretation any_conn: connection "Conn_Write now" conn_sent for now
  using Conn_Write_laws by unfold_locales auto



section \<open>Listening\<close>

text \<open>What a server has done so far: it still waits for connections, or it has returned.\<close>
datatype 's serving = Waiting 's | Returned go_error 's

text \<open>A call of a connection handler: it returns, or panics and leaves the state behind.\<close>
datatype 's served = Done 's | Panicked string 's

definition nil_call :: string where
  "nil_call = ''invalid memory address or nil pointer dereference''"

text \<open>The handler of a server is nil until \<^verbatim>\<open>SetConnHandler\<close> is called; calling nil panics.\<close>
definition call_handler :: "('c \<Rightarrow> 's \<Rightarrow> 's served) option \<Rightarrow> 'c \<Rightarrow> 's \<Rightarrow> 's served" where
  "call_handler h c s = (case h of None \<Rightarrow> Panicked nil_call s | Some f \<Rightarrow> f c s)"

record 's TcpServer =
  ts_handler :: "(Connection \<Rightarrow> 's \<Rightarrow> 's served) option"

definition NewTcpServer :: "'s TcpServer" where
  "NewTcpServer = \<lparr>ts_handler = None\<rparr>"

definition Tcp_SetConnHandler :: "(Connection \<Rightarrow> 's \<Rightarrow> 's served) \<Rightarrow> 's TcpServer \<Rightarrow> 's TcpServer" where
  "Tcp_SetConnHandler h t = t\<lparr>ts_handler := Some h\<rparr>"

text \<open>The loop of \<^verbatim>\<open>TcpServer.Run\<close>, on the answers of \<^verbatim>\<open>AcceptTCP\<close> so far: an error, or a socket.\<close>
fun accept_loop :: "'s TcpServer \<Rightarrow> (string + bytes) list \<Rightarrow> 's \<Rightarrow> 's serving outcome" where
  "accept_loop t [] s = Ret (Waiting s)"
| "accept_loop t (Inl e # as) s = Ret (Returned (Some e) s)"
| "accept_loop t (Inr socket # as) s =
     (case call_handler (ts_handler t) (ConnectionProxy (NewTcpConn socket)) s of
        Done s' \<Rightarrow> accept_loop t as s'
      | Panicked m _ \<Rightarrow> Panic m)"

text \<open>
  \<open>parseIP\<close> is \<^verbatim>\<open>net.ParseIP\<close>, \<open>listen\<close> the answer of \<^verbatim>\<open>net.ListenTCP\<close> for an address and a port: an
  error, or what is accepted there.
\<close>
definition Tcp_Run ::
    "(string \<Rightarrow> 'ip option) \<Rightarrow> ('ip option \<Rightarrow> int \<Rightarrow> string + (string + bytes) list) \<Rightarrow>
     string \<Rightarrow> int \<Rightarrow> 's TcpServer \<Rightarrow> 's \<Rightarrow> 's serving outcome" where
  "Tcp_Run parseIP listen host port t s =
     (case listen (parseIP host) port of
        Inl e \<Rightarrow> Ret (Returned (Some e) s)
      | Inr as \<Rightarrow> accept_loop t as s)"

record 's WsServer =
  wsrv_options :: WsServerOptions
  wsrv_handler :: "(Connection \<Rightarrow> 's \<Rightarrow> 's served) option"

definition new_WsServer :: "WsServerOptions option \<Rightarrow> 's WsServer" where
  "new_WsServer opts = \<lparr>wsrv_options = NewWsServer opts, wsrv_handler = None\<rparr>"

definition Ws_SetConnHandler :: "(Connection \<Rightarrow> 's \<Rightarrow> 's served) \<Rightarrow> 's WsServer \<Rightarrow> 's WsServer" where
  "Ws_SetConnHandler h w = w\<lparr>wsrv_handler := Some h\<rparr>"

text \<open>
  \<^verbatim>\<open>handleWebSocketRequest\<close>; \<open>upgrade\<close> is the error of the upgrade. The requests that arrive at \<^verbatim>\<open>/ws\<close> are served one
  after the other; the HTTP server recovers a panic of a handler and goes on. \<^verbatim>\<open>ListenAndServe\<close> returns with an error only.
\<close>
definition handleWebSocketRequest :: "'s WsServer \<Rightarrow> go_error \<Rightarrow> 's \<Rightarrow> 's served" where
  "handleWebSocketRequest w upgrade s =
     (if upgrade \<noteq> nil then Done s
      else call_handler (wsrv_handler w) (ConnectionProxy (WsConn (NewWsConnection (wsrv_options w)))) s)"

fun serve_requests :: "('r \<Rightarrow> 's \<Rightarrow> 's served) \<Rightarrow> 'r list \<Rightarrow> 's \<Rightarrow> 's" where
  "serve_requests f [] s = s"
| "serve_requests f (r # rs) s =
     serve_requests f rs (case f r s of Done s' \<Rightarrow> s' | Panicked _ s' \<Rightarrow> s')"

definition Ws_Run ::
    "(string \<Rightarrow> go_error list \<times> go_error) \<Rightarrow> string \<Rightarrow> int \<Rightarrow> 's WsServer \<Rightarrow> 's \<Rightarrow> go_error \<times> 's" where
  "Ws_Run listenAndServe host port w s =
     (case listenAndServe (host @ '':'' @ show_int port) of
        (reqs, err) \<Rightarrow> (err, serve_requests (handleWebSocketRequest w) reqs s))"


text \<open>
  The TCP server hands every connection it accepts to its handler, in order, until accepting fails, and
  returns that error; without a handler the first connection panics.
\<close>
lemma accept_loop_serves:
  assumes "ts_handler t = Some (\<lambda>c s. Done (f c s))"
  shows "accept_loop t (map Inr socks @ Inl e # as) s =
      Ret (Returned (Some e) (foldl (\<lambda>s b. f (ConnectionProxy (NewTcpConn b)) s) s socks))"
    and "accept_loop t (map Inr socks) s = Ret (Waiting (foldl (\<lambda>s b. f (ConnectionProxy (NewTcpConn b)) s) s socks))"
  using assms by (induction socks arbitrary: s) (simp_all add: call_handler_def)

lemma accept_loop_nil: "accept_loop NewTcpServer (Inr b # as) s = Panic nil_call"
  by (simp add: call_handler_def NewTcpServer_def)


section \<open>The server of the gateway\<close>

text \<open>
  \<^verbatim>\<open>WebsocketGatewayServer\<close>: \<open>wg_h\<close> and \<open>wg_decorator_h\<close> tell that a message handler was set for new
  clients and in the gateway. The state of its connection handler is the gateway with the random inputs,
  times and addresses of the connections to come.
\<close>
type_synonym arrival = "(bytes \<times> go_error) \<times> int \<times> string"

record WebsocketGatewayServer =
  wg_addr :: string
  wg_port :: int
  wg_server :: "(gateway \<times> arrival list) WsServer"
  wg_decorator :: gateway
  wg_decorator_h :: bool
  wg_h :: bool

definition new_WebsocketServer :: "string \<Rightarrow> string \<Rightarrow> int \<Rightarrow> string \<Rightarrow> WebsocketGatewayServer" where
  "new_WebsocketServer gateId addr port secretKey =
     \<lparr>wg_addr = addr, wg_port = port, wg_server = (new_WsServer (Some ws_server_options)),
      wg_decorator = NewWebsocketServer gateId secretKey, wg_decorator_h = False, wg_h = False\<rparr>"

text \<open>\<open>h\<close> tells that the handler is not nil.\<close>
definition Impl_SetMessageHandler :: "bool \<Rightarrow> WebsocketGatewayServer \<Rightarrow> WebsocketGatewayServer" where
  "Impl_SetMessageHandler h w = w\<lparr>wg_decorator_h := h\<rparr>"

definition ws_SetMessageHandler :: "bool \<Rightarrow> WebsocketGatewayServer \<Rightarrow> WebsocketGatewayServer" where
  "ws_SetMessageHandler h w = Impl_SetMessageHandler h (w\<lparr>wg_h := h\<rparr>)"

text \<open>
  \<open>AddClient\<close> calls the handler of the gateway to announce the client. Without one it panics there: the lock is released,
  and the client stays registered, not announced and not running.
\<close>
definition unannounced :: "ID \<Rightarrow> int \<Rightarrow> string \<Rightarrow> gateway \<Rightarrow> gateway" where
  "unannounced i now addr g =
     (let r = next_ref g;
          g1 = upd r (\<lambda>_. AddMessageInterceptor (SetID i (NewClientWithConfig now addr True (Some ws_config)))) (g\<lparr>next_ref := r + 1\<rparr>)
      in g1\<lparr>clients := (clients g1)(normID (gw_id g1) i := Some r)\<rparr>)"

definition ws_HandleConnection ::
    "WebsocketGatewayServer \<Rightarrow> Connection \<Rightarrow> gateway \<times> arrival list \<Rightarrow> (gateway \<times> arrival list) served" where
  "ws_HandleConnection w c s =
     (case s of
        (g, []) \<Rightarrow> Done s
      | (g, (rd, now, addr) # as) \<Rightarrow>
          (case GenTempID rd (gw_id g) of
             (i, None) \<Rightarrow>
               if \<not> wg_decorator_h w then Panicked nil_call (unannounced i now addr g, as)
               else (case HandleConnection rd now addr g of
                       Ret (_, g') \<Rightarrow> Done (g', as)
                     | Panic m \<Rightarrow> Panicked m (g, as))
           | (_, Some _) \<Rightarrow> Done (g, as)))"

definition ws_server_Run ::
    "(string \<Rightarrow> go_error list \<times> go_error) \<Rightarrow> arrival list \<Rightarrow> WebsocketGatewayServer \<Rightarrow> go_error \<times> WebsocketGatewayServer" where
  "ws_server_Run listenAndServe as w =
     (let srv = Ws_SetConnHandler (ws_HandleConnection w) (wg_server w)
      in case Ws_Run listenAndServe (wg_addr w) (wg_port w) srv (wg_decorator w, as) of
           (err, (g, _)) \<Rightarrow> (err, w\<lparr>wg_server := srv, wg_decorator := g\<rparr>))"


text \<open>The identifier a connection gets.\<close>
definition arrival_id :: "string \<Rightarrow> arrival \<Rightarrow> ID" where
  "arrival_id gid a = fst (GenTempID (fst a) gid)"

lemma ws_HandleConnection_registers:
  assumes "good g" "wg_decorator_h w" "snd (GenTempID (fst a) (gw_id g)) = nil" "clients g (arrival_id (gw_id g) a) = None"
  shows "\<exists>g'. ws_HandleConnection w c (g, a # as) = Done (g', as) \<and> good g' \<and> gw_id g' = gw_id g \<and>
    next_ref g' = Suc (next_ref g) \<and> dom (clients g') = insert (arrival_id (gw_id g) a) (dom (clients g))"
proof -
  obtain rd now addr where a: "a = (rd, now, addr)" by (cases a)
  let ?i = "arrival_id (gw_id g) a"
  have t: "GenTempID rd (gw_id g) = (?i, nil)"
    using assms(3) by (cases "GenTempID rd (gw_id g)") (simp add: a arrival_id_def)
  have mu: "\<not> mu g" using assms(1) by (simp add: good_def)
  obtain g' where h: "HandleConnection rd now addr g = Ret (?i, g')" "good g'" "next_ref g' = Suc (next_ref g)" "gw_id g' = gw_id g"
    using HandleConnection_inv [OF assms(1) t assms(4)] by blast
  moreover have "dom (clients g') = insert ?i (dom (clients g))"
    using HandleConnection_eq [OF mu t, of now addr] h(1) by auto
  ultimately show ?thesis using assms(2) t by (simp add: ws_HandleConnection_def a)
qed

lemma serve_requests_connects:
  assumes "wg_decorator_h w" "good g" "length (filter (\<lambda>e. e = nil) reqs) \<le> length as"
    and "\<And>a. a \<in> set as \<Longrightarrow> snd (GenTempID (fst a) (gw_id g)) = nil \<and> clients g (arrival_id (gw_id g) a) = None"
    and "distinct (map (arrival_id (gw_id g)) as)"
    and srv: "wsrv_handler srv = Some (ws_HandleConnection w)"
  shows "\<exists>g' as'. serve_requests (handleWebSocketRequest srv) reqs (g, as) = (g', as') \<and> good g' \<and>
    next_ref g' = next_ref g + length (filter (\<lambda>e. e = nil) reqs) \<and>
    dom (clients g') = dom (clients g) \<union> set (map (arrival_id (gw_id g)) (take (length (filter (\<lambda>e. e = nil) reqs)) as))"
  using assms(2-5)
proof (induction reqs arbitrary: g as)
  case (Cons e reqs)
  show ?case
  proof (cases "e = nil")
    case False
    then have "handleWebSocketRequest srv e (g, as) = Done (g, as)" by (simp add: handleWebSocketRequest_def)
    moreover have "filter (\<lambda>e. e = nil) (e # reqs) = filter (\<lambda>e. e = nil) reqs" using False by simp
    ultimately show ?thesis using Cons.IH [OF Cons.prems(1) _ Cons.prems(3,4)] Cons.prems(2) by simp
  next
    case True
    with Cons.prems(2) obtain a rest where as: "as = a # rest" by (cases as) auto
    have fresh: "snd (GenTempID (fst a) (gw_id g)) = nil" "clients g (arrival_id (gw_id g) a) = None"
      using Cons.prems(3) by (simp_all add: as)
    obtain g1 where g1: "\<And>c. ws_HandleConnection w c (g, a # rest) = Done (g1, rest)" "good g1" "gw_id g1 = gw_id g"
        "next_ref g1 = Suc (next_ref g)" "dom (clients g1) = insert (arrival_id (gw_id g) a) (dom (clients g))"
      using ws_HandleConnection_registers [OF Cons.prems(1) assms(1) fresh, of undefined rest]
      by (auto simp: ws_HandleConnection_def split: prod.splits)
    have "snd (GenTempID (fst b) (gw_id g1)) = nil \<and> clients g1 (arrival_id (gw_id g1) b) = None" if "b \<in> set rest" for b
    proof -
      have "arrival_id (gw_id g) a \<notin> arrival_id (gw_id g) ` set rest" using Cons.prems(4) by (simp add: as)
      then have "arrival_id (gw_id g) b \<noteq> arrival_id (gw_id g) a" using that by (metis imageI)
      then have "arrival_id (gw_id g) b \<notin> dom (clients g1)"
        using that Cons.prems(3) [of b] by (auto simp: as g1(5) domIff)
      then show ?thesis using that Cons.prems(3) [of b] by (simp add: as g1(3) domIff)
    qed
    with Cons.IH [OF g1(2), of rest] Cons.prems(2,4) True
    obtain g2 as2 where "serve_requests (handleWebSocketRequest srv) reqs (g1, rest) = (g2, as2)" "good g2"
        "next_ref g2 = next_ref g1 + length (filter (\<lambda>e. e = nil) reqs)"
        "dom (clients g2) = dom (clients g1) \<union> set (map (arrival_id (gw_id g1)) (take (length (filter (\<lambda>e. e = nil) reqs)) rest))"
      by (auto simp: as g1(3))
    moreover have "handleWebSocketRequest srv e (g, as) = Done (g1, rest)"
      using True g1(1) by (simp add: as handleWebSocketRequest_def call_handler_def srv)
    ultimately show ?thesis using True g1(3-5) by (simp add: as)
  qed
qed simp

text \<open>Without a message handler the clients are left where the panic left them.\<close>
lemma serve_requests_unset:
  assumes "\<not> wg_decorator_h w" "wsrv_handler srv = Some (ws_HandleConnection w)"
    and "serve_requests (handleWebSocketRequest srv) reqs (g, as) = (g', as')"
  shows "events g' = events g \<and> next_ref g \<le> next_ref g' \<and> (\<forall>r < next_ref g. heap g' r = heap g r) \<and>
    (\<forall>r. next_ref g \<le> r \<and> r < next_ref g' \<longrightarrow> \<not> IsRunning (heap g' r))"
  using assms(3)
proof (induction reqs arbitrary: g as)
  case (Cons e reqs)
  let ?x = "case handleWebSocketRequest srv e (g, as) of Done s' \<Rightarrow> s' | Panicked _ s' \<Rightarrow> s'"
  obtain g1 as1 where g1: "?x = (g1, as1)" by fastforce
  have "g1 = g \<or> (\<exists>i now addr. g1 = unannounced i now addr g)"
  proof (cases "e = nil \<and> as \<noteq> []")
    case True
    then obtain rd now addr rest where "as = (rd, now, addr) # rest" by (cases as) auto
    then show ?thesis using g1 True assms(1,2)
      by (cases "GenTempID rd (gw_id g)")
        (auto simp: handleWebSocketRequest_def call_handler_def ws_HandleConnection_def split: option.splits)
  next
    case False
    then show ?thesis using g1 assms(2)
      by (cases e) (auto simp: handleWebSocketRequest_def call_handler_def ws_HandleConnection_def)
  qed
  then have step: "events g1 = events g" "next_ref g \<le> next_ref g1" "next_ref g1 \<le> Suc (next_ref g)"
      "\<forall>r < next_ref g. heap g1 r = heap g r" "next_ref g < next_ref g1 \<longrightarrow> \<not> IsRunning (heap g1 (next_ref g))"
    by (auto simp: unannounced_def Let_def upd_def IsRunning_def stateRunning_def AddMessageInterceptor_def SetID_def NewClientWithConfig_def)
  have rest: "serve_requests (handleWebSocketRequest srv) reqs (g1, as1) = (g', as')" using Cons.prems g1 by simp
  note IH = Cons.IH [OF rest]
  have "\<not> IsRunning (heap g' r)" if "next_ref g \<le> r" "r < next_ref g'" for r
  proof (cases "r < next_ref g1")
    case True
    with that step(2,3) have "r = next_ref g" "heap g' r = heap g1 r" using IH by auto
    then show ?thesis using step(5) True by simp
  qed (use IH that in auto)
  then show ?case using IH step by auto
qed auto

text \<open>
  C33: once its message handler is set, the server of the gateway serves every connection. Whatever requests arrive, each one
  that is upgraded to a WebSocket becomes a client registered under the temporary identifier drawn for it, the
  others are ignored, the invariant of the gateway holds throughout, and \<open>Run\<close> returns the error of the
  listener. If the handler was never set, nobody is announced and no client runs.
\<close>
theorem gateway_server_serves:
  assumes "good (wg_decorator w0)" "listenAndServe (wg_addr w0 @ '':'' @ show_int (wg_port w0)) = (reqs, Some e)"
    and "length as = length (filter (\<lambda>e. e = nil) reqs)"
    and "\<And>a. a \<in> set as \<Longrightarrow> snd (GenTempID (fst a) (gw_id (wg_decorator w0))) = nil \<and>
      clients (wg_decorator w0) (arrival_id (gw_id (wg_decorator w0)) a) = None"
    and "distinct (map (arrival_id (gw_id (wg_decorator w0))) as)"
  shows "(\<exists>w. ws_server_Run listenAndServe as (ws_SetMessageHandler True w0) = (Some e, w) \<and> good (wg_decorator w) \<and>
      next_ref (wg_decorator w) = next_ref (wg_decorator w0) + length as \<and>
      dom (clients (wg_decorator w)) =
        dom (clients (wg_decorator w0)) \<union> set (map (arrival_id (gw_id (wg_decorator w0))) as)) \<and>
    (\<exists>w. ws_server_Run listenAndServe as (ws_SetMessageHandler False w0) = (Some e, w) \<and>
      events (wg_decorator w) = events (wg_decorator w0) \<and>
      (\<forall>r. next_ref (wg_decorator w0) \<le> r \<and> r < next_ref (wg_decorator w) \<longrightarrow> \<not> IsRunning (heap (wg_decorator w) r)))"
proof -
  let ?w = "ws_SetMessageHandler True w0" and ?v = "ws_SetMessageHandler False w0"
  let ?srv = "\<lambda>w. Ws_SetConnHandler (ws_HandleConnection w) (wg_server w)"
  have w: "wg_decorator_h ?w" "\<not> wg_decorator_h ?v" "wg_decorator (ws_SetMessageHandler h w0) = wg_decorator w0"
    "wg_addr (ws_SetMessageHandler h w0) = wg_addr w0" "wg_port (ws_SetMessageHandler h w0) = wg_port w0" for h
    by (simp_all add: ws_SetMessageHandler_def Impl_SetMessageHandler_def)
  have h: "wsrv_handler (?srv w) = Some (ws_HandleConnection w)" for w by (simp add: Ws_SetConnHandler_def)
  obtain g' as' where r: "serve_requests (handleWebSocketRequest (?srv ?w)) reqs (wg_decorator w0, as) = (g', as')" "good g'"
      "next_ref g' = next_ref (wg_decorator w0) + length as"
      "dom (clients g') = dom (clients (wg_decorator w0)) \<union> set (map (arrival_id (gw_id (wg_decorator w0))) as)"
    using serve_requests_connects [OF w(1) assms(1) _ assms(4,5) h, of reqs] assms(3) by auto
  obtain u as'' where v: "serve_requests (handleWebSocketRequest (?srv ?v)) reqs (wg_decorator w0, as) = (u, as'')" by fastforce
  show ?thesis using r v serve_requests_unset [OF w(2) h v] assms(2) w(3-)
    by (auto simp: ws_server_Run_def Ws_Run_def Let_def)
qed


theorem gateway_server_serves_witness:
  "\<exists>w. ws_server_Run (\<lambda>a. ([Some ''bad handshake'', nil], Some ''closed'')) [((replicate 16 0, nil), 0, ''addr'')]
      (ws_SetMessageHandler True (new_WebsocketServer ''gw'' ''127.0.0.1'' 8080 ''key'')) = (Some ''closed'', w) \<and>
    next_ref (wg_decorator w) = 1"
proof -
  let ?w = "new_WebsocketServer ''gw'' ''127.0.0.1'' 8080 ''key''"
  have g: "good (wg_decorator ?w)" by (simp add: new_WebsocketServer_def NewWebsocketServer_def good_NewServer)
  from gateway_server_serves [OF g, of "\<lambda>a. ([Some ''bad handshake'', nil], Some ''closed'')"
      "[Some ''bad handshake'', nil]" "''closed''" "[((replicate 16 0, nil), 0, ''addr'')]"]
  show ?thesis
    by (auto simp: new_WebsocketServer_def NewWebsocketServer_def NewServer_def GenTempID_def newUUID_def Let_def)
qed


section \<open>Failing reads\<close>

lemma wrapError_not_decode:
  "\<not> has_prefix (we_text e) errDecode \<Longrightarrow> \<not> IsDecodeError (fst (wrapError (Some e) c))"
  by (auto simp: wrapError_def IsDecodeError_def conn_errors errDecode_def has_prefix_def)

lemma wrapError_Some: "\<exists>y d. wrapError (Some e) c = (Some y, d)"
proof -
  have "fst (wrapError (Some e) c) \<noteq> nil" by (simp add: wrapError_def)
  then show ?thesis by (metis not_Some_eq prod.collapse)
qed

lemma Ws_Read_not_decode:
  assumes "Ws_Read now a c = (Inl e, c')" "\<And>x. a = Inl x \<Longrightarrow> \<not> has_prefix (we_text x) errDecode"
  shows "\<not> IsDecodeError (Some e)"
proof (cases a)
  case (Inl x)
  moreover obtain y d where "wrapError (Some x) (c\<lparr>ws_readDeadline := now + ReadTimeout (ws_options c)\<rparr>) = (Some y, d)"
    using wrapError_Some by blast
  ultimately show ?thesis
    using assms wrapError_not_decode [of x "c\<lparr>ws_readDeadline := now + ReadTimeout (ws_options c)\<rparr>"]
    by (simp add: Ws_Read_def)
next
  case (Inr tb)
  then show ?thesis using assms
    by (cases tb) (auto simp: Ws_Read_def Let_def IsDecodeError_def conn_errors errDecode_def has_prefix_def split: if_splits)
qed

text \<open>
  C32: a client whose connection fails is removed. Whatever makes a read of its WebSocket fail (the peer
  closed it, the deadline passed, a frame of another kind, any other error), the reader hands the
  error over and stops, and \<open>runRead\<close> ends the client: it is closed and unregistered, all other
  registrations stay. Text and binary frames are passed on unchanged, and every read
  moves the deadline.
\<close>
theorem ws_failure_ends_client:
  assumes g: "good g" "r < next_ref g" "state (heap g r) \<noteq> stateClosed" "info_ID (info (heap g r)) \<noteq> ''''"
    and fail: "Ws_Read now a c = (Inl e, c')" "\<And>x. a = Inl x \<Longrightarrow> \<not> has_prefix (we_text x) errDecode"
  shows "\<exists>res g'. reader_round js (Inl e) = (res, False) \<and> runRead_message env r (Some res) g = Ret (False, g') \<and>
      good g' \<and> state (heap g' r) = stateClosed \<and>
      clients g' = (clients g)(normID (gw_id g) (info_ID (info (heap g r))) := None) \<and>
    ws_readDeadline c' = now + ReadTimeout (ws_options c) \<and>
    fst (Ws_Read now (Inr (TextMessage, b)) c) = Inr b \<and> fst (Ws_Read now (Inr (BinaryMessage, b)) c) = Inr b"
proof -
  have inv: "gw_inv g" "\<not> mu g" using g(1) by (simp_all add: good_def)
  obtain g' where x: "Exit r g = Ret g'" "good g'" "state (heap g' r) = stateClosed"
      "clients g' = (clients g)(normID (gw_id g) (info_ID (info (heap g r))) := None)"
    using Exit_managed [OF inv g(3,2) gw_invD(6) [OF inv(1) g(2,3)] g(4)] safe_Exit [OF g(1,2)] by auto
  have d: "\<not> IsDecodeError (Some e)" using Ws_Read_not_decode [OF fail] .
  have "ws_readDeadline c' = now + ReadTimeout (ws_options c)"
    using fail(1) by (auto simp: Ws_Read_def wrapError_def Let_def split: sum.splits prod.splits if_splits)
  with x d show ?thesis
    by (simp add: reader_round_def reader_Read_def runRead_message_def Ws_Read_def)
qed

theorem ws_failure_ends_client_witness:
  "\<exists>res g'. reader_round (\<lambda>b. Inl '''') (Inl ErrReadTimeout) = (res, False) \<and>
    runRead_message demo_env 0 (Some res) demo_gateway = Ret (False, g') \<and>
    state (heap g' 0) = stateClosed"
proof -
  let ?e = "\<lparr>we_text = ''read tcp: i/o timeout'', we_unexpected = False, we_close = False\<rparr>"
  let ?c = "NewWsConnection ws_server_options"
  have "Ws_Read 0 (Inl ?e) ?c = (Inl ErrReadTimeout, ?c\<lparr>ws_readDeadline := 3 * 60 * second\<rparr>)"
    by (simp add: Ws_Read_def wrapError_def has_prefix_def forcibly_text_def closed_text_def
        NewWsConnection_def ws_server_options_def NewWsServer_def)
  from ws_failure_ends_client [OF demo_gateway_simps(1) _ _ demo_gateway_simps(5) this, of "\<lambda>b. Inl ''''" demo_env "[]"]
  show ?thesis by (auto simp: demo_gateway_simps has_prefix_def errDecode_def stateRunning_def stateClosed_def)
qed

text \<open>
  Over TCP a client can never send anything. Every read returns no bytes, whatever waits in the
  socket; JSON rejects the empty text, so the reader reports a decoding error for each of them
  and goes on: as many errors as reads, and its channel stays open.
\<close>
theorem tcp_reader_spins:
  assumes "js [] = Inl e"
  shows "fst (Tcp_Read nil socket) = Inr [] \<and> snd (Tcp_Read nil socket) = socket \<and>
    reader_loop js (replicate n (fst (Tcp_Read nil socket))) =
      (replicate n \<lparr>rr_err = Some (errDecode @ e), rr_m = None\<rparr>, False)"
proof -
  have "reader_round js (Inr []) = (\<lparr>rr_err = Some (errDecode @ e), rr_m = None\<rparr>, True)"
    using assms by (simp add: reader_round_def reader_Read_def JsonCodec_Decode_def IsDecodeError_def)
  then have "reader_loop js (replicate n (Inr [])) =
      (replicate n \<lparr>rr_err = Some (errDecode @ e), rr_m = None\<rparr>, False)"
    by (induction n) simp_all
  then show ?thesis by (simp add: Tcp_Read_def)
qed

theorem tcp_reader_spins_witness:
  "reader_loop (\<lambda>b. Inl ''unexpected end of JSON input'') (replicate 5 (fst (Tcp_Read nil [123, 125]))) =
     (replicate 5 \<lparr>rr_err = Some (errDecode @ ''unexpected end of JSON input''), rr_m = None\<rparr>, False)"
  by (rule tcp_reader_spins [where js = "\<lambda>b. Inl ''unexpected end of JSON input''", THEN conjunct2, THEN conjunct2])
     (rule refl)

end
