(* ===== verification/Rpc.thy ===== *)
theory Rpc
  imports Prelude "HOL-Library.Multiset"
begin

text \<open>
  The RPC base of \<^verbatim>\<open>pkg/rpc\<close>: the round-robin selector (\<^verbatim>\<open>service_router.go\<close>), the selector that
  routes by target or tag (\<^verbatim>\<open>selector.go\<close>), the metadata of a call (\<^verbatim>\<open>context.go\<close>), the server
  (\<^verbatim>\<open>server.go\<close>) and the client (\<^verbatim>\<open>client.go\<close>).

  Go iterates over a map in an arbitrary order: \<open>UpdateServer\<close> takes the servers as the list of
  pairs in the order of the iteration. The metadata maps of a context are shared by all contexts
  derived from it, so they are objects of a heap. The rpcx library and etcd are parameters: their
  answers are arguments of the operations that ask for them.
\<close>

section \<open>Round robin\<close>

record RoundRobinSelector =
  rr_servers :: "string list"
  rr_i :: nat

definition NewRoundRobinSelector :: RoundRobinSelector where
  "NewRoundRobinSelector = \<lparr>rr_servers = [], rr_i = 0\<rparr>"

definition SelectNext :: "RoundRobinSelector \<Rightarrow> string \<times> RoundRobinSelector" where
  "SelectNext s =
     (let ss = rr_servers s
      in if length ss = 0 then ('''', s)
         else let i = rr_i s mod length ss in (ss ! i, s\<lparr>rr_i := i + 1\<rparr>))"

definition RR_Select :: "RoundRobinSelector \<Rightarrow> string \<times> RoundRobinSelector" where
  "RR_Select s = SelectNext s"

definition RR_UpdateServer :: "(string \<times> string) list \<Rightarrow> RoundRobinSelector \<Rightarrow> RoundRobinSelector" where
  "RR_UpdateServer servers s = s\<lparr>rr_servers := map fst servers\<rparr>"


section \<open>Routing by target and tag\<close>

type_synonym meta = "string \<Rightarrow> string option"

record selector =
  sl_services :: meta
  sl_round :: RoundRobinSelector
  sl_tags :: meta

definition newSelector :: selector where
  "newSelector = \<lparr>sl_services = (\<lambda>_. None), sl_round = NewRoundRobinSelector, sl_tags = (\<lambda>_. None)\<rparr>"

text \<open>\<open>m\<close> is the request metadata of the context; without it the type assertion panics.\<close>
definition selector_Select :: "meta option \<Rightarrow> selector \<Rightarrow> (string \<times> selector) outcome" where
  "selector_Select m r =
     (let round = (case RR_Select (sl_round r) of (x, rr) \<Rightarrow> Ret (x, r\<lparr>sl_round := rr\<rparr>))
      in case m of
           None \<Rightarrow> Panic ''interface conversion: interface {} is nil, not map[string]string''
         | Some m \<Rightarrow>
             (let by_tag =
                (case m ''ExtraTag'' of
                   None \<Rightarrow> round
                 | Some tag \<Rightarrow>
                     (case sl_tags r tag of
                        None \<Rightarrow> round
                      | Some path \<Rightarrow> if sl_services r path \<noteq> None then Ret (path, r) else round))
              in case m ''ExtraTarget'' of
                   None \<Rightarrow> by_tag
                 | Some target \<Rightarrow> if sl_services r target \<noteq> None then Ret (target, r) else by_tag))"

fun put_services :: "(string \<times> string) list \<Rightarrow> meta \<Rightarrow> meta" where
  "put_services [] m = m"
| "put_services ((k, v) # kvs) m = put_services kvs (m(k \<mapsto> v))"

definition selector_UpdateServer :: "(string \<times> string) list \<Rightarrow> selector \<Rightarrow> selector" where
  "selector_UpdateServer servers r =
     r\<lparr>sl_round := RR_UpdateServer servers (sl_round r), sl_services := put_services servers (sl_services r)\<rparr>"


section \<open>Metadata of a call\<close>

text \<open>The maps allocated so far, and the addresses of the two maps of a context, nil at first.\<close>
record meta_heap =
  mh_maps :: "nat \<Rightarrow> meta"
  mh_next :: nat

record ExtraContext =
  ec_req :: "nat option"
  ec_res :: "nat option"

definition NewContextFrom :: "ExtraContext \<Rightarrow> ExtraContext" where
  "NewContextFrom c = c"

definition NewContext :: ExtraContext where
  "NewContext = NewContextFrom \<lparr>ec_req = None, ec_res = None\<rparr>"

definition alloc_map :: "meta_heap \<Rightarrow> nat \<times> meta_heap" where
  "alloc_map h =
     (mh_next h, h\<lparr>mh_maps := (mh_maps h)(mh_next h := (\<lambda>_. None)), mh_next := mh_next h + 1\<rparr>)"

definition put_map :: "nat \<Rightarrow> string \<Rightarrow> string \<Rightarrow> meta_heap \<Rightarrow> meta_heap" where
  "put_map a k v h = h\<lparr>mh_maps := (mh_maps h)(a := (mh_maps h a)(k \<mapsto> v))\<rparr>"

definition PutReqExtra :: "string \<Rightarrow> string \<Rightarrow> ExtraContext \<times> meta_heap \<Rightarrow> ExtraContext \<times> meta_heap" where
  "PutReqExtra k v s =
     (case s of (c, h) \<Rightarrow>
        case ec_req c of
          Some a \<Rightarrow> (c, put_map a k v h)
        | None \<Rightarrow> (case alloc_map h of (a, h') \<Rightarrow> (c\<lparr>ec_req := Some a\<rparr>, put_map a k v h')))"

definition PutResExtra :: "string \<Rightarrow> string \<Rightarrow> ExtraContext \<times> meta_heap \<Rightarrow> ExtraContext \<times> meta_heap" where
  "PutResExtra k v s =
     (case s of (c, h) \<Rightarrow>
        case ec_res c of
          Some a \<Rightarrow> (c, put_map a k v h)
        | None \<Rightarrow> (case alloc_map h of (a, h') \<Rightarrow> (c\<lparr>ec_res := Some a\<rparr>, put_map a k v h')))"

definition GetReqExtra :: "string \<Rightarrow> ExtraContext \<times> meta_heap \<Rightarrow> string \<times> bool" where
  "GetReqExtra k s =
     (case s of (c, h) \<Rightarrow>
        case ec_req c of
          None \<Rightarrow> ('''', False)
        | Some a \<Rightarrow> (case mh_maps h a k of None \<Rightarrow> ('''', False) | Some v \<Rightarrow> (v, True)))"

definition GetResExtra :: "string \<Rightarrow> ExtraContext \<times> meta_heap \<Rightarrow> string \<times> bool" where
  "GetResExtra k s =
     (case s of (c, h) \<Rightarrow>
        case ec_res c of
          None \<Rightarrow> ('''', False)
        | Some a \<Rightarrow> (case mh_maps h a k of None \<Rightarrow> ('''', False) | Some v \<Rightarrow> (v, True)))"


section \<open>Server\<close>

record ServerOptions =
  so_Name :: string
  so_Network :: string
  so_Addr :: string
  so_Port :: int
  so_EtcdServers :: "string list"

record BaseServer =
  bs_Options :: ServerOptions
  bs_etcd :: bool
  bs_ServiceAddress :: string
  bs_reg :: "string list"
  bs_id :: string

definition server_id :: "ServerOptions \<Rightarrow> string" where
  "server_id o1 = so_Name o1 @ ''@'' @ so_Addr o1 @ '':'' @ show_int (so_Port o1)"

definition NewBaseServer :: "ServerOptions \<Rightarrow> BaseServer" where
  "NewBaseServer o1 =
     (let o2 = (if so_Network o1 = '''' then o1\<lparr>so_Network := ''tcp''\<rparr> else o1)
      in \<lparr>bs_Options = o2, bs_etcd = (length (so_EtcdServers o2) \<noteq> 0), bs_ServiceAddress = '''',
          bs_reg = [], bs_id = server_id o1\<rparr>)"

definition GetServerID :: "BaseServer \<Rightarrow> string \<times> BaseServer" where
  "GetServerID s =
     (let s' = (if length (bs_id s) = 0 then s\<lparr>bs_id := server_id (bs_Options s)\<rparr> else s)
      in (bs_id s', s'))"

definition Register :: "string \<Rightarrow> BaseServer \<Rightarrow> BaseServer" where
  "Register name s = s\<lparr>bs_reg := bs_reg s @ [name]\<rparr>"

text \<open>The registrations are carried out in order until one fails.\<close>
fun run_reg :: "(string \<Rightarrow> go_error) \<Rightarrow> string list \<Rightarrow> go_error" where
  "run_reg register [] = nil"
| "run_reg register (n # ns) =
     (case register n of None \<Rightarrow> run_reg register ns | Some e \<Rightarrow> Some e)"

text \<open>\<open>start\<close>, \<open>register\<close> and \<open>serve\<close> are the answers of etcd and rpcx.\<close>
definition BaseServer_Run ::
    "(string \<Rightarrow> go_error) \<Rightarrow> (string \<Rightarrow> go_error) \<Rightarrow> (string \<Rightarrow> string \<Rightarrow> go_error) \<Rightarrow> BaseServer \<Rightarrow>
     go_error \<times> BaseServer" where
  "BaseServer_Run start register serve s =
     (let addr = so_Addr (bs_Options s) @ '':'' @ show_int (so_Port (bs_Options s));
          sa = so_Network (bs_Options s) @ ''@'' @ addr;
          s1 = (if bs_etcd s then s\<lparr>bs_ServiceAddress := sa\<rparr> else s)
      in case (if bs_etcd s then start sa else nil) of
           Some e \<Rightarrow> (Some e, s1)
         | None \<Rightarrow>
             (case run_reg register (bs_reg s1) of
                Some e \<Rightarrow> (Some e, s1)
              | None \<Rightarrow> (serve (so_Network (bs_Options s)) addr, s1)))"


section \<open>Client\<close>

datatype serialize_type = SerializeNone | ProtoBuffer | OtherSerialize nat
datatype discovery = EtcdDiscovery "string list" | PeerDiscovery string
datatype selector_choice = CustomSelector nat | DefaultRoundRobin

record ClientOptions =
  co_Addr :: string
  co_Port :: int
  co_Name :: string
  co_EtcdServers :: "string list option"
  co_Selector :: "nat option"
  co_SerializeType :: serialize_type

record BaseClient =
  bc_options :: ClientOptions
  bc_discovery :: discovery
  bc_selector :: selector_choice

text \<open>\<open>etcd\<close> is the error of \<^verbatim>\<open>NewEtcdV3Discovery\<close>.\<close>
definition NewBaseClient :: "go_error \<Rightarrow> ClientOptions \<Rightarrow> string + BaseClient" where
  "NewBaseClient etcd o1 =
     (let disc = (case co_EtcdServers o1 of
                    Some l \<Rightarrow> (case etcd of None \<Rightarrow> Inr (EtcdDiscovery l) | Some e \<Rightarrow> Inl e)
                  | None \<Rightarrow> Inr (PeerDiscovery (''tcp@'' @ co_Addr o1 @ '':'' @ show_int (co_Port o1))))
      in case disc of
           Inl e \<Rightarrow> Inl e
         | Inr d \<Rightarrow>
             let o2 = (if co_SerializeType o1 = SerializeNone then o1\<lparr>co_SerializeType := ProtoBuffer\<rparr> else o1)
             in Inr \<lparr>bc_options = o2, bc_discovery = d,
                     bc_selector = (case co_Selector o2 of Some s \<Rightarrow> CustomSelector s | None \<Rightarrow> DefaultRoundRobin)\<rparr>)"


section \<open>Fairness of the round robin\<close>

text \<open>\<open>n\<close> selections.\<close>
fun selections :: "nat \<Rightarrow> RoundRobinSelector \<Rightarrow> string list \<times> RoundRobinSelector" where
  "selections 0 s = ([], s)"
| "selections (Suc n) s =
     (let (x, s1) = SelectNext s; (xs, s2) = selections n s1 in (x # xs, s2))"

lemma selections_rotate:
  assumes "rr_servers s \<noteq> []"
  shows "fst (selections n s) = map (\<lambda>j. rr_servers s ! ((rr_i s + j) mod length (rr_servers s))) [0..<n] \<and>
    rr_servers (snd (selections n s)) = rr_servers s"
  using assms
proof (induction n arbitrary: s)
  case (Suc n)
  let ?ss = "rr_servers s" and ?l = "length (rr_servers s)"
  define s1 where "s1 = s\<lparr>rr_i := rr_i s mod ?l + 1\<rparr>"
  have n: "SelectNext s = (?ss ! (rr_i s mod ?l), s1)" using Suc.prems by (simp add: SelectNext_def Let_def s1_def)
  have "fst (selections n s1) = map (\<lambda>j. ?ss ! ((rr_i s + Suc j) mod ?l)) [0..<n]"
  proof -
    have "Suc (rr_i s mod ?l + j) mod ?l = Suc (rr_i s + j) mod ?l" for j by (metis mod_Suc_eq mod_add_left_eq)
    then show ?thesis using Suc.IH [of s1] Suc.prems by (simp add: s1_def)
  qed
  moreover have "rr_servers (snd (selections n s1)) = ?ss" using Suc.IH [of s1] Suc.prems by (simp add: s1_def)
  moreover have "map (\<lambda>j. ?ss ! ((rr_i s + j) mod ?l)) [0..<Suc n] =
      ?ss ! (rr_i s mod ?l) # map (\<lambda>j. ?ss ! ((rr_i s + Suc j) mod ?l)) [0..<n]"
    by (simp add: map_upt_Suc del: upt_Suc)
  ultimately show ?case by (simp add: n case_prod_unfold del: upt_Suc)
qed simp

lemma selections_append:
  "selections (m + n) s =
     (fst (selections m s) @ fst (selections n (snd (selections m s))), snd (selections n (snd (selections m s))))"
  by (induction m arbitrary: s) (simp_all add: case_prod_unfold Let_def)

text \<open>A round over all servers.\<close>
lemma selections_round:
  assumes "rr_servers s \<noteq> []"
  shows "fst (selections (length (rr_servers s)) s) = rotate (rr_i s) (rr_servers s)"
  using selections_rotate [OF assms] by (intro nth_equalityI) (simp_all add: nth_rotate)

lemma mset_rotate: "mset (rotate n xs) = mset xs"
  by (metis append_take_drop_id mset_append rotate_drop_take add.commute)

text \<open>
  The round robin is fair: over any \<open>k\<close> rounds, from any position of the counter, every server
  is selected exactly \<open>k\<close> times as often as it is listed. Without servers the selection is the empty
  address.
\<close>
theorem round_robin_fair:
  assumes "rr_servers s \<noteq> []"
  shows "mset (fst (selections (k * length (rr_servers s)) s)) = repeat_mset k (mset (rr_servers s)) \<and>
    fst (SelectNext NewRoundRobinSelector) = ''''"
proof -
  have "mset (fst (selections (k * length (rr_servers s)) s)) = repeat_mset k (mset (rr_servers s))"
    using assms
  proof (induction k arbitrary: s)
    case (Suc k)
    let ?l = "length (rr_servers s)" and ?s1 = "snd (selections (length (rr_servers s)) s)"
    have s1: "rr_servers ?s1 = rr_servers s" using selections_rotate [OF Suc.prems] by blast
    have "mset (fst (selections (k * ?l) ?s1)) = repeat_mset k (mset (rr_servers s))"
      using Suc.IH [of ?s1] Suc.prems s1 by simp
    then show ?case
      by (simp add: selections_append selections_round [OF Suc.prems] mset_rotate)
  qed simp
  then show ?thesis by (simp add: SelectNext_def NewRoundRobinSelector_def)
qed

definition demo_rr :: RoundRobinSelector where
  "demo_rr = (RR_UpdateServer [(''a'', ''''), (''b'', '''')] NewRoundRobinSelector)\<lparr>rr_i := 7\<rparr>"

theorem round_robin_fair_witness:
  "mset (fst (selections (3 * length (rr_servers demo_rr)) demo_rr)) = repeat_mset 3 {#''a'', ''b''#} \<and>
   fst (SelectNext NewRoundRobinSelector) = ''''"
  using round_robin_fair [of demo_rr 3] by (simp add: demo_rr_def RR_UpdateServer_def)


section \<open>Routing\<close>

lemma put_services_dom: "(put_services kvs m k = None) = (k \<notin> fst ` set kvs \<and> m k = None)"
proof (induction kvs arbitrary: m)
  case (Cons kv kvs)
  then show ?case by (cases kv) auto
qed simp

text \<open>
  A call that names a target goes there if the target was ever announced: \<open>UpdateServer\<close> only adds
  to the known services, so a server that left is still selected, although the round robin no longer
  selects it.
\<close>
theorem selector_never_forgets:
  assumes "t \<in> fst ` set old" "t \<notin> fst ` set new" "m ''ExtraTarget'' = Some t"
  defines "r \<equiv> selector_UpdateServer new (selector_UpdateServer old newSelector)"
  shows "selector_Select (Some m) r = Ret (t, r)" "t \<notin> set (rr_servers (sl_round r))"
proof -
  have "sl_services r t \<noteq> None"
    using assms(1) by (simp add: r_def selector_UpdateServer_def put_services_dom del: not_None_eq)
  then show "selector_Select (Some m) r = Ret (t, r)" using assms(3) by (auto simp: selector_Select_def Let_def)
  show "t \<notin> set (rr_servers (sl_round r))"
    using assms(2) by (auto simp: r_def selector_UpdateServer_def RR_UpdateServer_def)
qed

text \<open>What \<open>Select\<close> returns is a known service or the next of the round robin.\<close>
lemma selector_Select_cases:
  assumes "selector_Select (Some m) r = Ret (x, r')"
  shows "sl_services r x \<noteq> None \<and> r' = r \<or>
    (x, sl_round r') = SelectNext (sl_round r) \<and> r' = r\<lparr>sl_round := sl_round r'\<rparr>"
  using assms
  by (auto simp: selector_Select_def Let_def RR_Select_def split: option.splits if_splits prod.splits)

definition ctx_ok :: "ExtraContext \<times> meta_heap \<Rightarrow> bool" where
  "ctx_ok s =
     (case s of (c, h) \<Rightarrow>
        (\<forall>a. ec_req c = Some a \<longrightarrow> a < mh_next h) \<and> (\<forall>a. ec_res c = Some a \<longrightarrow> a < mh_next h) \<and>
        (ec_req c = None \<or> ec_req c \<noteq> ec_res c))"

text \<open>
  Metadata put into a call is read back, other keys keep their value, and requests and
  responses do not mix, for every context whose two maps are different objects. A context derived
  before the first \<open>Put\<close> does not see what is put later, one derived afterwards does.
\<close>
theorem extra_roundtrip:
  assumes "ctx_ok s"
  shows "ctx_ok (PutReqExtra k v s) \<and> ctx_ok (PutResExtra k v s) \<and>
    GetReqExtra k' (PutReqExtra k v s) = (if k' = k then (v, True) else GetReqExtra k' s) \<and>
    GetResExtra k' (PutResExtra k v s) = (if k' = k then (v, True) else GetResExtra k' s) \<and>
    GetResExtra k' (PutReqExtra k v s) = GetResExtra k' s \<and>
    GetReqExtra k' (PutResExtra k v s) = GetReqExtra k' s \<and>
    GetReqExtra k' (NewContextFrom (fst s), snd (PutReqExtra k v s)) =
      (if ec_req (fst s) = None then ('''', False) else GetReqExtra k' (PutReqExtra k v s))"
proof -
  obtain c h where s: "s = (c, h)" by (cases s)
  show ?thesis
    using assms
    by (cases "ec_req c"; cases "ec_res c")
      (auto simp: s ctx_ok_def PutReqExtra_def PutResExtra_def GetReqExtra_def GetResExtra_def alloc_map_def
        put_map_def NewContextFrom_def split: option.splits)
qed

definition demo_ctx :: "ExtraContext \<times> meta_heap" where
  "demo_ctx = PutResExtra ''b'' ''2'' (PutReqExtra ''a'' ''1'' (NewContext, \<lparr>mh_maps = (\<lambda>_ _. None), mh_next = 0\<rparr>))"

theorem extra_roundtrip_witness:
  "GetReqExtra ''x'' (PutReqExtra ''x'' ''9'' demo_ctx) = (''9'', True) \<and>
   GetReqExtra ''a'' (PutReqExtra ''x'' ''9'' demo_ctx) = (''1'', True) \<and>
   GetResExtra ''b'' (PutReqExtra ''x'' ''9'' demo_ctx) = (''2'', True)"
proof -
  have ok: "ctx_ok demo_ctx"
    by (auto simp: ctx_ok_def demo_ctx_def NewContext_def NewContextFrom_def PutReqExtra_def PutResExtra_def
        alloc_map_def put_map_def)
  have "GetReqExtra ''a'' demo_ctx = (''1'', True)" "GetResExtra ''b'' demo_ctx = (''2'', True)"
    by (simp_all add: demo_ctx_def NewContext_def NewContextFrom_def PutReqExtra_def PutResExtra_def
        alloc_map_def put_map_def GetReqExtra_def GetResExtra_def)
  then show ?thesis
    using extra_roundtrip [OF ok, of "''x''" "''9''" "''x''"] extra_roundtrip [OF ok, of "''x''" "''9''" "''a''"]
      extra_roundtrip [OF ok, of "''x''" "''9''" "''b''"] by simp
qed

end
