(* ===== verification/RpcService.thy ===== *)
theory RpcService
  imports Rpc Subscription
begin

text \<open>
  The RPC interface of the server: the handlers of \<^verbatim>\<open>im_service/server/rpc_server.go\<close> and the
  clients of \<^verbatim>\<open>im_service/client\<close>.

  The messages of \<^verbatim>\<open>im_service/proto\<close> are records. A handler works on the gateway and the
  subscription service and gives its error and the response it filled in. \<open>call\<close>, the transport
  (\<^verbatim>\<open>rpc.BaseClient.Call\<close> over rpcx), is an argument of the clients, as are the JSON encoders and
  decoders in \<open>rpc_env\<close>. \<open>transparent\<close> states what the clients rely on: a call returns what the
  handler of the named method returns; when the handler returns an error the reply is not used.

  The main result is that a client of the subscription service behaves like the service itself,
  with the exception of what the protocol has no field for.
\<close>

section \<open>Messages\<close>

definition Response_OK :: int where "Response_OK = 0"
definition Response_ERROR :: int where "Response_ERROR = 1"
definition UpdateClient_UpdateID :: int where "UpdateClient_UpdateID = 1"
definition UpdateClient_Close :: int where "UpdateClient_Close = 2"
definition UpdateClient_Kick :: int where "UpdateClient_Kick = 3"
definition UpdateClient_UpdateSecret :: int where "UpdateClient_UpdateSecret = 4"

record Response =
  r_Code :: int
  r_Msg :: string

record UpdateClientRequest =
  uc_Id :: string
  uc_NewId :: string
  uc_Secret :: string
  uc_Type :: int

record ChannelInfo =
  pi_ID :: string
  pi_Type :: int
  pi_Muted :: bool
  pi_Blocked :: bool
  pi_Closed :: bool
  pi_Parent :: string
  pi_Children :: "string list"

datatype rpc_request =
    UpdateClientReq UpdateClientRequest
  | EnqueueMessageReq string bytes
  | SubscribeReq string string bytes
  | UnsubscribeReq string string
  | UpdateSubscriberReq string string bytes
  | RemoveChannelReq string
  | CreateChannelReq string "ChannelInfo option"
  | UpdateChannelReq string "ChannelInfo option"
  | PublishReq string bytes

record im_service =
  is_gateway :: gateway
  is_sub :: realSubscription

record rpc_env =
  re_chan :: chan_env
  re_dec_message :: "bytes \<Rightarrow> string + GlideMessage"
  re_dec_options :: "bytes \<Rightarrow> string + SubscriberOptions"
  re_dec_publish :: "bytes \<Rightarrow> string + PublishMessage"
  re_enc_message :: "GlideMessage \<Rightarrow> string + bytes"
  re_enc_extra :: "extra \<Rightarrow> string + bytes"
  re_enc_publish :: "pub_arg \<Rightarrow> string + bytes"

type_synonym rpc_result = "((go_error \<times> Response) \<times> im_service) outcome"

definition empty_response :: Response where
  "empty_response = \<lparr>r_Code = 0, r_Msg = ''''\<rparr>"

definition error_response :: "string \<Rightarrow> Response" where
  "error_response e = \<lparr>r_Code = Response_ERROR, r_Msg = e\<rparr>"

text \<open>How most handlers end: an error goes into the response and the handler returns nil.\<close>
definition reply :: "go_error \<Rightarrow> go_error \<times> Response" where
  "reply e = (nil, case e of None \<Rightarrow> empty_response | Some m \<Rightarrow> error_response m)"

text \<open>A call of the gateway or of the subscription service, with the state put back.\<close>
definition on_gateway :: "im_service \<Rightarrow> (go_error \<times> gateway) outcome \<Rightarrow> (go_error \<times> im_service) outcome" where
  "on_gateway r x = bind_outcome x (\<lambda>(e, g). Ret (e, r\<lparr>is_gateway := g\<rparr>))"

definition on_sub :: "im_service \<Rightarrow> sub_result \<Rightarrow> rpc_result" where
  "on_sub r x = bind_outcome x (\<lambda>(e, u). Ret (reply e, r\<lparr>is_sub := u\<rparr>))"


section \<open>Handlers\<close>

definition srv_UpdateClient :: "UpdateClientRequest \<Rightarrow> im_service \<Rightarrow> rpc_result" where
  "srv_UpdateClient q r =
     bind_outcome
       (if uc_Type q = UpdateClient_UpdateID
        then on_gateway r (Impl_SetClientID (uc_Id q) (uc_NewId q) (is_gateway r))
        else if uc_Type q = UpdateClient_Close
        then on_gateway r (Impl_ExitClient (uc_Id q) (is_gateway r))
        else if uc_Type q = UpdateClient_UpdateSecret
        then on_gateway r (Impl_UpdateClient (uc_Id q)
               \<lparr>MessageDeliverSecret = uc_Secret q, OnlineStateSecret = ''''\<rparr> (is_gateway r))
        else Ret (Some ''unknown update type'', r))
       (\<lambda>(e, r'). Ret ((e, case e of None \<Rightarrow> \<lparr>r_Code = Response_OK, r_Msg = ''''\<rparr>
                                   | Some m \<Rightarrow> error_response m), r'))"

definition srv_EnqueueMessage :: "rpc_env \<Rightarrow> string \<Rightarrow> bytes \<Rightarrow> im_service \<Rightarrow> rpc_result" where
  "srv_EnqueueMessage env i b r =
     (case re_dec_message env b of
        Inl e \<Rightarrow> Ret ((nil, error_response e), r)
      | Inr msg \<Rightarrow>
          bind_outcome (on_gateway r (Impl_EnqueueMessage i msg (is_gateway r))) (\<lambda>(e, r').
            Ret ((e, case e of None \<Rightarrow> empty_response | Some m \<Rightarrow> error_response m), r')))"

definition srv_Subscribe :: "rpc_env \<Rightarrow> string \<Rightarrow> string \<Rightarrow> bytes \<Rightarrow> im_service \<Rightarrow> rpc_result" where
  "srv_Subscribe env c i ex r =
     (case re_dec_options env ex of
        Inl e \<Rightarrow> Ret ((nil, error_response e), r)
      | Inr so \<Rightarrow> on_sub r (wrap_Subscribe (re_chan env) c i (ExtraOptions so) (is_sub r)))"

definition srv_UnSubscribe :: "rpc_env \<Rightarrow> string \<Rightarrow> string \<Rightarrow> im_service \<Rightarrow> rpc_result" where
  "srv_UnSubscribe env c i r = on_sub r (wrap_UnSubscribe (re_chan env) c i (is_sub r))"

definition srv_UpdateSubscriber :: "rpc_env \<Rightarrow> string \<Rightarrow> string \<Rightarrow> bytes \<Rightarrow> im_service \<Rightarrow> rpc_result" where
  "srv_UpdateSubscriber env c i ex r =
     (case re_dec_options env ex of
        Inl e \<Rightarrow> Ret ((nil, error_response e), r)
      | Inr so \<Rightarrow> on_sub r (wrap_UpdateSubscriber (re_chan env) c i (ExtraOptions so) (is_sub r)))"

definition srv_RemoveChannel :: "rpc_env \<Rightarrow> string \<Rightarrow> im_service \<Rightarrow> rpc_result" where
  "srv_RemoveChannel env c r = on_sub r (wrap_RemoveChannel (re_chan env) c (is_sub r))"

text \<open>The channel information a handler builds from the one of the protocol.\<close>
definition chan_info_of :: "ChanID \<Rightarrow> ChannelInfo \<Rightarrow> ChanInfo" where
  "chan_info_of c ci =
     \<lparr>ci_ID = c, ci_Type = pi_Type ci, Muted = pi_Muted ci, Blocked = pi_Blocked ci, Closed = pi_Closed ci,
      Secret = '''', Parent = None, Child = []\<rparr>"

definition srv_CreateChannel :: "rpc_env \<Rightarrow> string \<Rightarrow> ChannelInfo option \<Rightarrow> im_service \<Rightarrow> rpc_result" where
  "srv_CreateChannel env c ci r =
     (case ci of
        None \<Rightarrow> nil_dereference
      | Some ci \<Rightarrow> on_sub r (wrap_CreateChannel (re_chan env) c (chan_info_of c ci) (is_sub r)))"

definition srv_UpdateChannel :: "rpc_env \<Rightarrow> string \<Rightarrow> ChannelInfo option \<Rightarrow> im_service \<Rightarrow> rpc_result" where
  "srv_UpdateChannel env c ci r =
     (case ci of
        None \<Rightarrow> nil_dereference
      | Some ci \<Rightarrow> on_sub r (wrap_UpdateChannel (re_chan env) c (chan_info_of c ci) (is_sub r)))"

definition srv_Publish :: "rpc_env \<Rightarrow> string \<Rightarrow> bytes \<Rightarrow> im_service \<Rightarrow> rpc_result" where
  "srv_Publish env c b r =
     (case re_dec_publish env b of
        Inl e \<Rightarrow> Ret ((nil, error_response e), r)
      | Inr m \<Rightarrow> on_sub r (wrap_Publish (re_chan env) c (PubMessage m) (is_sub r)))"

text \<open>The method a request is for, and the handler of the method.\<close>
fun method_of :: "rpc_request \<Rightarrow> string" where
  "method_of (UpdateClientReq q) = ''UpdateClient''"
| "method_of (EnqueueMessageReq i b) = ''EnqueueMessage''"
| "method_of (SubscribeReq c i ex) = ''Subscribe''"
| "method_of (UnsubscribeReq c i) = ''UnSubscribe''"
| "method_of (UpdateSubscriberReq c i ex) = ''UpdateSubscriber''"
| "method_of (RemoveChannelReq c) = ''RemoveChannel''"
| "method_of (CreateChannelReq c ci) = ''CreateChannel''"
| "method_of (UpdateChannelReq c ci) = ''UpdateChannel''"
| "method_of (PublishReq c b) = ''Publish''"

fun serve :: "rpc_env \<Rightarrow> rpc_request \<Rightarrow> im_service \<Rightarrow> rpc_result" where
  "serve env (UpdateClientReq q) r = srv_UpdateClient q r"
| "serve env (EnqueueMessageReq i b) r = srv_EnqueueMessage env i b r"
| "serve env (SubscribeReq c i ex) r = srv_Subscribe env c i ex r"
| "serve env (UnsubscribeReq c i) r = srv_UnSubscribe env c i r"
| "serve env (UpdateSubscriberReq c i ex) r = srv_UpdateSubscriber env c i ex r"
| "serve env (RemoveChannelReq c) r = srv_RemoveChannel env c r"
| "serve env (CreateChannelReq c ci) r = srv_CreateChannel env c ci r"
| "serve env (UpdateChannelReq c ci) r = srv_UpdateChannel env c ci r"
| "serve env (PublishReq c b) r = srv_Publish env c b r"


section \<open>Clients\<close>

type_synonym rpc_call = "string \<Rightarrow> rpc_request \<Rightarrow> im_service \<Rightarrow> rpc_result"
type_synonym cli_result = "(go_error \<times> im_service) outcome"

definition errRpcInvocation :: string where
  "errRpcInvocation = ''gate invocation error: ''"

definition IMServiceError :: "int \<Rightarrow> string \<Rightarrow> string" where
  "IMServiceError code msg = ''IM Service Error: '' @ show_int code @ '', '' @ msg"

definition IsRpcInvocationError :: "go_error \<Rightarrow> bool" where
  "IsRpcInvocationError e = (case e of None \<Rightarrow> False | Some m \<Rightarrow> has_prefix m errRpcInvocation)"

definition getResponseError :: "Response \<Rightarrow> go_error" where
  "getResponseError q = (if r_Code q \<noteq> Response_OK then Some (IMServiceError (r_Code q) (r_Msg q)) else nil)"

text \<open>
  \<^verbatim>\<open>BaseClient\<close> passes calls on to rpcx: \<open>xcli\<close> is \<^verbatim>\<open>XClient.Call\<close>; \<open>broadcast\<close> and \<open>close\<close> are its other methods.
\<close>
definition BaseClient_Call :: "rpc_call \<Rightarrow> rpc_call" where
  "BaseClient_Call xcli fn q s = xcli fn q s"

definition BaseClient_Call2 :: "rpc_call \<Rightarrow> rpc_call" where
  "BaseClient_Call2 xcli fn q s = BaseClient_Call xcli fn q s"

definition BaseClient_Broadcast :: "rpc_call \<Rightarrow> rpc_call" where
  "BaseClient_Broadcast broadcast fn q s = broadcast fn q s"

definition BaseClient_Run :: go_error where
  "BaseClient_Run = nil"

definition BaseClient_Close :: "(BaseClient \<Rightarrow> go_error) \<Rightarrow> BaseClient \<Rightarrow> go_error" where
  "BaseClient_Close close c = close c"

text \<open>The calls of \<^verbatim>\<open>GatewayRpcClient\<close> and \<^verbatim>\<open>subscriptionRpcClient\<close>.\<close>
definition rpc_do :: "rpc_call \<Rightarrow> rpc_request \<Rightarrow> im_service \<Rightarrow> rpc_result" where
  "rpc_do call q s = BaseClient_Call call (method_of q) q s"

text \<open>What the subscription client does with a reply.\<close>
definition after_call :: "rpc_result \<Rightarrow> cli_result" where
  "after_call x =
     bind_outcome x (\<lambda>((e, q), s). Ret (case e of Some m \<Rightarrow> Some m | None \<Rightarrow> getResponseError q, s))"

definition cli_SetClientID :: "rpc_call \<Rightarrow> ID \<Rightarrow> ID \<Rightarrow> im_service \<Rightarrow> cli_result" where
  "cli_SetClientID call old new s =
     bind_outcome (rpc_do call (UpdateClientReq
         \<lparr>uc_Id = old, uc_NewId = new, uc_Secret = '''', uc_Type = UpdateClient_UpdateID\<rparr>) s)
       (\<lambda>((e, _), s'). Ret (e, s'))"

definition cli_UpdateClient :: "rpc_call \<Rightarrow> ID \<Rightarrow> ClientSecrets \<Rightarrow> im_service \<Rightarrow> cli_result" where
  "cli_UpdateClient call i sec s =
     bind_outcome (rpc_do call (UpdateClientReq
         \<lparr>uc_Id = i, uc_NewId = '''', uc_Secret = MessageDeliverSecret sec, uc_Type = UpdateClient_UpdateSecret\<rparr>) s)
       (\<lambda>((e, _), s'). Ret (e, s'))"

definition cli_ExitClient :: "rpc_call \<Rightarrow> ID \<Rightarrow> im_service \<Rightarrow> cli_result" where
  "cli_ExitClient call i s =
     bind_outcome (rpc_do call (UpdateClientReq
         \<lparr>uc_Id = i, uc_NewId = '''', uc_Secret = '''', uc_Type = UpdateClient_Close\<rparr>) s)
       (\<lambda>((e, _), s'). Ret (e, s'))"

definition cli_EnqueueMessage :: "rpc_env \<Rightarrow> rpc_call \<Rightarrow> ID \<Rightarrow> GlideMessage \<Rightarrow> im_service \<Rightarrow> cli_result" where
  "cli_EnqueueMessage env call i m s =
     (case re_enc_message env m of
        Inl e \<Rightarrow> Ret (Some e, s)
      | Inr b \<Rightarrow>
          bind_outcome (rpc_do call (EnqueueMessageReq i b) s) (\<lambda>((e, q), s').
            Ret (case e of Some x \<Rightarrow> Some (errRpcInvocation @ x) | None \<Rightarrow> getResponseError q, s')))"

definition cli_Subscribe :: "rpc_env \<Rightarrow> rpc_call \<Rightarrow> ChanID \<Rightarrow> SubscriberID \<Rightarrow> extra \<Rightarrow> im_service \<Rightarrow> cli_result" where
  "cli_Subscribe env call c i ex s =
     (case re_enc_extra env ex of
        Inl e \<Rightarrow> Ret (Some e, s)
      | Inr b \<Rightarrow> after_call (rpc_do call (SubscribeReq c i b) s))"

definition cli_UnSubscribe :: "rpc_call \<Rightarrow> ChanID \<Rightarrow> SubscriberID \<Rightarrow> im_service \<Rightarrow> cli_result" where
  "cli_UnSubscribe call c i s = after_call (rpc_do call (UnsubscribeReq c i) s)"

definition cli_UpdateSubscriber ::
    "rpc_env \<Rightarrow> rpc_call \<Rightarrow> ChanID \<Rightarrow> SubscriberID \<Rightarrow> extra \<Rightarrow> im_service \<Rightarrow> cli_result" where
  "cli_UpdateSubscriber env call c i ex s =
     (case re_enc_extra env ex of
        Inl e \<Rightarrow> Ret (Some e, s)
      | Inr b \<Rightarrow> after_call (rpc_do call (UpdateSubscriberReq c i b) s))"

definition cli_RemoveChannel :: "rpc_call \<Rightarrow> ChanID \<Rightarrow> im_service \<Rightarrow> cli_result" where
  "cli_RemoveChannel call c s = after_call (rpc_do call (RemoveChannelReq c) s)"

text \<open>The channel information of the protocol that a client sends.\<close>
definition proto_info :: "ChanInfo \<Rightarrow> ChannelInfo" where
  "proto_info ci =
     \<lparr>pi_ID = ci_ID ci, pi_Type = ci_Type ci, pi_Muted = Muted ci, pi_Blocked = Blocked ci,
      pi_Closed = Closed ci, pi_Parent = (case Parent ci of None \<Rightarrow> '''' | Some p \<Rightarrow> p), pi_Children = Child ci\<rparr>"

definition cli_CreateChannel :: "rpc_call \<Rightarrow> ChanID \<Rightarrow> ChanInfo \<Rightarrow> im_service \<Rightarrow> cli_result" where
  "cli_CreateChannel call c ci s = after_call (rpc_do call (CreateChannelReq c (Some (proto_info ci))) s)"

definition cli_UpdateChannel :: "rpc_call \<Rightarrow> ChanID \<Rightarrow> ChanInfo \<Rightarrow> im_service \<Rightarrow> cli_result" where
  "cli_UpdateChannel call c ci s = after_call (rpc_do call (UpdateChannelReq c (Some (proto_info ci))) s)"

definition cli_Publish :: "rpc_env \<Rightarrow> rpc_call \<Rightarrow> ChanID \<Rightarrow> pub_arg \<Rightarrow> im_service \<Rightarrow> cli_result" where
  "cli_Publish env call c m s =
     (case re_enc_publish env m of
        Inl e \<Rightarrow> Ret (Some e, s)
      | Inr b \<Rightarrow> after_call (rpc_do call (PublishReq c b) s))"

text \<open>The client that has both interfaces.\<close>

definition Client_SetClientID :: "rpc_call \<Rightarrow> ID \<Rightarrow> ID \<Rightarrow> im_service \<Rightarrow> cli_result" where
  "Client_SetClientID call old new s = cli_SetClientID call old new s"

definition Client_ExitClient :: "rpc_call \<Rightarrow> ID \<Rightarrow> im_service \<Rightarrow> cli_result" where
  "Client_ExitClient call i s = cli_ExitClient call i s"

definition Client_EnqueueMessage :: "rpc_env \<Rightarrow> rpc_call \<Rightarrow> ID \<Rightarrow> GlideMessage \<Rightarrow> im_service \<Rightarrow> cli_result" where
  "Client_EnqueueMessage env call i m s = cli_EnqueueMessage env call i m s"

definition Client_Subscribe ::
    "rpc_env \<Rightarrow> rpc_call \<Rightarrow> ChanID \<Rightarrow> SubscriberID \<Rightarrow> extra \<Rightarrow> im_service \<Rightarrow> cli_result" where
  "Client_Subscribe env call c i ex s = cli_Subscribe env call c i ex s"

definition Client_UnSubscribe :: "rpc_call \<Rightarrow> ChanID \<Rightarrow> SubscriberID \<Rightarrow> im_service \<Rightarrow> cli_result" where
  "Client_UnSubscribe call c i s = cli_UnSubscribe call c i s"

definition Client_UpdateSubscriber ::
    "rpc_env \<Rightarrow> rpc_call \<Rightarrow> ChanID \<Rightarrow> SubscriberID \<Rightarrow> extra \<Rightarrow> im_service \<Rightarrow> cli_result" where
  "Client_UpdateSubscriber env call c i ex s = cli_UpdateSubscriber env call c i ex s"

definition Client_RemoveChannel :: "rpc_call \<Rightarrow> ChanID \<Rightarrow> im_service \<Rightarrow> cli_result" where
  "Client_RemoveChannel call c s = cli_RemoveChannel call c s"

definition Client_CreateChannel :: "rpc_call \<Rightarrow> ChanID \<Rightarrow> ChanInfo \<Rightarrow> im_service \<Rightarrow> cli_result" where
  "Client_CreateChannel call c ci s = cli_CreateChannel call c ci s"

definition Client_UpdateChannel :: "rpc_call \<Rightarrow> ChanID \<Rightarrow> ChanInfo \<Rightarrow> im_service \<Rightarrow> cli_result" where
  "Client_UpdateChannel call c ci s = cli_UpdateChannel call c ci s"

definition Client_Publish :: "rpc_env \<Rightarrow> rpc_call \<Rightarrow> ChanID \<Rightarrow> pub_arg \<Rightarrow> im_service \<Rightarrow> cli_result" where
  "Client_Publish env call c m s = cli_Publish env call c m s"

lemmas Client_defs = Client_SetClientID_def Client_ExitClient_def Client_EnqueueMessage_def
  Client_Subscribe_def Client_UnSubscribe_def Client_UpdateSubscriber_def Client_RemoveChannel_def
  Client_CreateChannel_def Client_UpdateChannel_def Client_Publish_def


text \<open>The clients share one \<^verbatim>\<open>BaseClient\<close>; a constructor fails only when the base client does.\<close>

record GatewayRpcImpl =
  gi_cli :: BaseClient

record SubscriptionRpcImpl =
  si_cli :: BaseClient

record Client =
  cl_sub :: SubscriptionRpcImpl
  cl_gate :: GatewayRpcImpl

definition NewGatewayRpcImplWithClient :: "BaseClient \<Rightarrow> GatewayRpcImpl" where
  "NewGatewayRpcImplWithClient c = \<lparr>gi_cli = c\<rparr>"

definition NewGatewayRpcImpl :: "go_error \<Rightarrow> ClientOptions \<Rightarrow> string + GatewayRpcImpl" where
  "NewGatewayRpcImpl etcd opts =
     (case NewBaseClient etcd opts of Inl e \<Rightarrow> Inl e | Inr c \<Rightarrow> Inr (NewGatewayRpcImplWithClient c))"

definition NewSubscriptionRpcImplWithClient :: "BaseClient \<Rightarrow> SubscriptionRpcImpl" where
  "NewSubscriptionRpcImplWithClient c = \<lparr>si_cli = c\<rparr>"

definition NewSubscriptionRpcImpl :: "go_error \<Rightarrow> ClientOptions \<Rightarrow> string + SubscriptionRpcImpl" where
  "NewSubscriptionRpcImpl etcd opts =
     (case NewBaseClient etcd opts of Inl e \<Rightarrow> Inl e | Inr c \<Rightarrow> Inr (NewSubscriptionRpcImplWithClient c))"

definition NewClient :: "go_error \<Rightarrow> ClientOptions \<Rightarrow> string + Client" where
  "NewClient etcd opts =
     (case NewBaseClient etcd opts of
        Inl e \<Rightarrow> Inl e
      | Inr c \<Rightarrow> Inr \<lparr>cl_sub = NewSubscriptionRpcImplWithClient c, cl_gate = NewGatewayRpcImplWithClient c\<rparr>)"

definition GatewayRpcImpl_Close :: "(BaseClient \<Rightarrow> go_error) \<Rightarrow> GatewayRpcImpl \<Rightarrow> go_error" where
  "GatewayRpcImpl_Close close i = BaseClient_Close close (gi_cli i)"

definition SubscriptionRpcImpl_Close :: "(BaseClient \<Rightarrow> go_error) \<Rightarrow> SubscriptionRpcImpl \<Rightarrow> go_error" where
  "SubscriptionRpcImpl_Close close i = BaseClient_Close close (si_cli i)"

text \<open>
  \<^verbatim>\<open>RunRpcService\<close> registers the handlers under the name of the service and serves; \<open>start\<close>, \<open>register\<close> and
  \<open>srv\<close> are the answers of etcd and rpcx.
\<close>
definition RunRpcService ::
    "(string \<Rightarrow> go_error) \<Rightarrow> (string \<Rightarrow> go_error) \<Rightarrow> (string \<Rightarrow> string \<Rightarrow> go_error) \<Rightarrow> ServerOptions \<Rightarrow>
     go_error \<times> BaseServer" where
  "RunRpcService start register srv opts =
     BaseServer_Run start register srv (Register (so_Name opts) (NewBaseServer opts))"


section \<open>Calls over a transparent transport\<close>

definition transparent :: "rpc_env \<Rightarrow> rpc_call \<Rightarrow> bool" where
  "transparent env call =
     (\<forall>q s. case serve env q s of
        Panic _ \<Rightarrow> True
      | Ret ((e, p), s') \<Rightarrow>
          (case e of
             None \<Rightarrow> call (method_of q) q s = Ret ((nil, p), s')
           | Some m \<Rightarrow> (\<exists>p'. call (method_of q) q s = Ret ((Some m, p'), s'))))"

definition service_error :: "go_error \<Rightarrow> go_error" where
  "service_error e = map_option (IMServiceError Response_ERROR) e"

lemma service_error_nil [simp]: "(service_error e = nil) = (e = nil)"
  by (simp add: service_error_def)

lemma transparent_nil:
  "transparent env call \<Longrightarrow> serve env q s = Ret ((nil, p), s') \<Longrightarrow> rpc_do call q s = Ret ((nil, p), s')"
  unfolding transparent_def rpc_do_def BaseClient_Call_def by (auto dest!: spec [of _ q] spec [of _ s])

lemma transparent_err:
  "transparent env call \<Longrightarrow> serve env q s = Ret ((Some m, p), s') \<Longrightarrow>
     \<exists>p'. rpc_do call q s = Ret ((Some m, p'), s')"
  unfolding transparent_def rpc_do_def BaseClient_Call_def by (auto dest!: spec [of _ q] spec [of _ s])

lemma after_transparent:
  assumes "transparent env call" "serve env q s = on_sub s (Ret (e, u))"
  shows "after_call (rpc_do call q s) = Ret (service_error e, s\<lparr>is_sub := u\<rparr>)"
proof -
  have "serve env q s = Ret ((nil, snd (reply e)), s\<lparr>is_sub := u\<rparr>)"
    using assms(2) by (simp add: on_sub_def reply_def)
  from transparent_nil [OF assms(1) this] show ?thesis
    by (simp add: after_call_def reply_def getResponseError_def service_error_def error_response_def
        empty_response_def Response_OK_def Response_ERROR_def split: option.split)
qed

text \<open>The handler of \<open>UpdateClient\<close> returns the error of the gateway itself.\<close>
lemma update_transparent:
  assumes "transparent env call"
    and "serve env q s = bind_outcome (on_gateway s (Ret (e, g))) (\<lambda>(e, r'). Ret ((e, f e), r'))"
  shows "\<exists>p. rpc_do call q s = Ret ((e, p), s\<lparr>is_gateway := g\<rparr>)"
proof (cases e)
  case None
  then show ?thesis using transparent_nil [OF assms(1)] assms(2) by (simp add: on_gateway_def)
next
  case (Some m)
  then show ?thesis using transparent_err [OF assms(1)] assms(2) by (simp add: on_gateway_def)
qed


definition demo_rpc_env :: rpc_env where
  "demo_rpc_env =
     \<lparr>re_chan = demo_env_c, re_dec_message = (\<lambda>b. if b = [] then Inl ''bad'' else Inr NewEmptyMessage),
      re_dec_options = (\<lambda>b. Inr \<lparr>so_Perm = 2, so_Ticket = ''''\<rparr>), re_dec_publish = (\<lambda>b. Inr demo_notify),
      re_enc_message = (\<lambda>m. Inr [1]), re_enc_extra = (\<lambda>x. Inr [1]), re_enc_publish = (\<lambda>m. Inr [1])\<rparr>"

definition demo_call :: rpc_call where
  "demo_call = (\<lambda>m q s. serve demo_rpc_env q s)"

definition demo_im :: im_service where
  "demo_im = \<lparr>is_gateway = demo_gateway, is_sub = demo_sub\<rparr>"

lemma transparent_serve: "transparent env (\<lambda>m q s. serve env q s)"
  by (auto simp: transparent_def split: outcome.split option.split)

lemma demo_call_transparent: "transparent demo_rpc_env demo_call"
  unfolding demo_call_def by (rule transparent_serve)


text \<open>
  A channel that a client creates with a secret has no secret on the server: the channel is the
  one a local call creates, with the secret empty.
\<close>
theorem rpc_channel_secret_lost:
  assumes t: "transparent env call"
    and new: "channels (is_sub s) c = None"
    and made: "NewChannel (re_chan env) c = Inr g"
  shows "\<exists>u u'. wrap_CreateChannel (re_chan env) c ci (is_sub s) = Ret (nil, u) \<and>
      map_option (\<lambda>g. Secret (ch_info g)) (channels u c) = Some (Secret ci) \<and>
    Client_CreateChannel call c ci s = Ret (nil, s\<lparr>is_sub := u'\<rparr>) \<and>
      map_option (\<lambda>g. Secret (ch_info g)) (channels u' c) = Some ''''"
proof -
  let ?new = "\<lambda>i. set_channel c (snd (Channel_Update i g)) (is_sub s)"
  have create: "wrap_CreateChannel (re_chan env) c i (is_sub s) = Ret (nil, ?new i)" for i
    using new made by (simp add: wrap_eqs real_CreateChannel_def Channel_Update_def)
  have "Client_CreateChannel call c ci s
      = Ret (nil, s\<lparr>is_sub := ?new (chan_info_of c (proto_info ci))\<rparr>)"
    using after_transparent [OF t, of _ s nil] create
    by (simp add: Client_defs cli_CreateChannel_def srv_CreateChannel_def service_error_def)
  with create [of ci] show ?thesis
    by (intro exI [of _ "?new ci"] exI [of _ "?new (chan_info_of c (proto_info ci))"])
      (simp add: Channel_Update_def set_channel_def chan_info_of_def)
qed

theorem rpc_channel_secret_lost_witness:
  "\<exists>u u'. wrap_CreateChannel demo_env_c ''new'' ((NewChanInfo ''new'' 0)\<lparr>Secret := ''s''\<rparr>) demo_sub
      = Ret (nil, u) \<and>
      map_option (\<lambda>g. Secret (ch_info g)) (channels u ''new'') = Some ''s'' \<and>
    Client_CreateChannel demo_call ''new'' ((NewChanInfo ''new'' 0)\<lparr>Secret := ''s''\<rparr>) demo_im
      = Ret (nil, demo_im\<lparr>is_sub := u'\<rparr>) \<and>
      map_option (\<lambda>g. Secret (ch_info g)) (channels u' ''new'') = Some ''''"
  using rpc_channel_secret_lost [OF demo_call_transparent, of demo_im "''new''"
      "projr (NewChannel demo_env_c ''new'')" "(NewChanInfo ''new'' 0)\<lparr>Secret := ''s''\<rparr>"]
  by (simp add: demo_im_def demo_sub_def demo_rpc_env_def NewChannel_def loadSeq_def demo_chan_env_def
      Idle_NextSegmentSequence_def)

lemma enqueue_over_rpc:
  assumes t: "transparent env call" and "re_enc_message env m = Inr b" "re_dec_message env b = Inr m'"
    and "Impl_EnqueueMessage i m' (is_gateway s) = Ret (e, g)"
  shows "\<exists>e'. cli_EnqueueMessage env call i m s = Ret (e', s\<lparr>is_gateway := g\<rparr>) \<and>
      (e' = nil \<longleftrightarrow> e = nil) \<and> IsRpcInvocationError e' = (e \<noteq> nil) \<and> \<not> IsClientNotExist e'"
proof (cases e)
  case None
  then show ?thesis
    using assms transparent_nil [OF t, of "EnqueueMessageReq i b" s empty_response "s\<lparr>is_gateway := g\<rparr>"]
    by (simp add: cli_EnqueueMessage_def srv_EnqueueMessage_def on_gateway_def
        getResponseError_def empty_response_def Response_OK_def IsRpcInvocationError_def IsClientNotExist_def)
next
  case (Some y)
  then show ?thesis
    using assms transparent_err [OF t, of "EnqueueMessageReq i b" s y "error_response y" "s\<lparr>is_gateway := g\<rparr>"]
    by (auto simp: cli_EnqueueMessage_def srv_EnqueueMessage_def on_gateway_def
        errRpcInvocation_def IsRpcInvocationError_def IsClientNotExist_def errClientNotExist_def has_prefix_def)
qed

lemmas UpdateClient_types = UpdateClient_UpdateID_def UpdateClient_Close_def UpdateClient_UpdateSecret_def

text \<open>
  C28: over a transparent transport the calls that change a client return the gateway's own error
  and leave the gateway as a local call leaves it. Of the secrets only the one for message delivery
  is sent. The error of \<^verbatim>\<open>EnqueueMessage\<close> is prefixed by \<^verbatim>\<open>errRpcInvocation\<close>, also when the
  invocation succeeded and the gateway refused the message, so the caller cannot tell a client that
  does not exist; a message the server cannot decode is an \<^verbatim>\<open>IMServiceError\<close> and reaches no client.
\<close>
theorem rpc_gateway_errors:
  assumes t: "transparent env call"
  shows "(Impl_SetClientID old new (is_gateway s) = Ret (e, g) \<longrightarrow>
      Client_SetClientID call old new s = Ret (e, s\<lparr>is_gateway := g\<rparr>)) \<and>
    (Impl_ExitClient i (is_gateway s) = Ret (e, g) \<longrightarrow>
      Client_ExitClient call i s = Ret (e, s\<lparr>is_gateway := g\<rparr>)) \<and>
    (Impl_UpdateClient i \<lparr>MessageDeliverSecret = MessageDeliverSecret sec, OnlineStateSecret = ''''\<rparr>
        (is_gateway s) = Ret (e, g) \<longrightarrow>
      cli_UpdateClient call i sec s = Ret (e, s\<lparr>is_gateway := g\<rparr>)) \<and>
    (re_enc_message env m = Inr b \<longrightarrow>
      (re_dec_message env b = Inr m' \<longrightarrow> Impl_EnqueueMessage i m' (is_gateway s) = Ret (e, g) \<longrightarrow>
         (\<exists>e'. Client_EnqueueMessage env call i m s = Ret (e', s\<lparr>is_gateway := g\<rparr>) \<and>
           (e' = nil \<longleftrightarrow> e = nil) \<and> IsRpcInvocationError e' = (e \<noteq> nil) \<and> \<not> IsClientNotExist e')) \<and>
      (re_dec_message env b = Inl x \<longrightarrow>
         Client_EnqueueMessage env call i m s = Ret (service_error (Some x), s)))"
proof -
  note update = update_transparent [OF t, of _ s e g
      "\<lambda>e. case e of None \<Rightarrow> \<lparr>r_Code = Response_OK, r_Msg = ''''\<rparr> | Some m \<Rightarrow> error_response m"]
  have set_id: "Client_SetClientID call old new s = Ret (e, s\<lparr>is_gateway := g\<rparr>)"
    if "Impl_SetClientID old new (is_gateway s) = Ret (e, g)"
    using update [of "UpdateClientReq \<lparr>uc_Id = old, uc_NewId = new, uc_Secret = '''', uc_Type = UpdateClient_UpdateID\<rparr>"] that
    by (auto simp: Client_defs cli_SetClientID_def srv_UpdateClient_def)
  have exit: "Client_ExitClient call i s = Ret (e, s\<lparr>is_gateway := g\<rparr>)"
    if "Impl_ExitClient i (is_gateway s) = Ret (e, g)"
    using update [of "UpdateClientReq \<lparr>uc_Id = i, uc_NewId = '''', uc_Secret = '''', uc_Type = UpdateClient_Close\<rparr>"] that
    by (auto simp: Client_defs cli_ExitClient_def srv_UpdateClient_def UpdateClient_types)
  have sec: "cli_UpdateClient call i sec s = Ret (e, s\<lparr>is_gateway := g\<rparr>)"
    if "Impl_UpdateClient i \<lparr>MessageDeliverSecret = MessageDeliverSecret sec, OnlineStateSecret = ''''\<rparr>
        (is_gateway s) = Ret (e, g)"
    using update [of "UpdateClientReq \<lparr>uc_Id = i, uc_NewId = '''', uc_Secret = MessageDeliverSecret sec,
        uc_Type = UpdateClient_UpdateSecret\<rparr>"] that
    by (auto simp: cli_UpdateClient_def srv_UpdateClient_def UpdateClient_types)
  have enqueue: "\<exists>e'. Client_EnqueueMessage env call i m s = Ret (e', s\<lparr>is_gateway := g\<rparr>) \<and>
      (e' = nil \<longleftrightarrow> e = nil) \<and> IsRpcInvocationError e' = (e \<noteq> nil) \<and> \<not> IsClientNotExist e'"
    if "re_enc_message env m = Inr b" "re_dec_message env b = Inr m'"
      "Impl_EnqueueMessage i m' (is_gateway s) = Ret (e, g)"
    using enqueue_over_rpc [OF t that] by (simp add: Client_defs)
  have bad: "Client_EnqueueMessage env call i m s = Ret (service_error (Some x), s)"
    if "re_enc_message env m = Inr b" "re_dec_message env b = Inl x"
    using that transparent_nil [OF t, of "EnqueueMessageReq i b" s "error_response x" s]
    by (simp add: Client_defs cli_EnqueueMessage_def srv_EnqueueMessage_def getResponseError_def
        error_response_def service_error_def Response_OK_def Response_ERROR_def)
  from set_id exit sec enqueue bad show ?thesis by blast
qed

theorem rpc_gateway_errors_witness:
  "\<exists>e. Impl_EnqueueMessage ''gw_1_'' NewEmptyMessage (NewServer ''gw'' ''key'' 10)
      = Ret (Some errClientNotExist, NewServer ''gw'' ''key'' 10) \<and>
    Client_EnqueueMessage demo_rpc_env demo_call ''gw_1_'' NewEmptyMessage
      (demo_im\<lparr>is_gateway := NewServer ''gw'' ''key'' 10\<rparr>)
      = Ret (e, demo_im\<lparr>is_gateway := NewServer ''gw'' ''key'' 10\<rparr>) \<and>
    e \<noteq> nil \<and> \<not> IsClientNotExist e"
proof -
  have "Impl_EnqueueMessage ''gw_1_'' NewEmptyMessage (NewServer ''gw'' ''key'' 10)
      = Ret (Some errClientNotExist, NewServer ''gw'' ''key'' 10)"
    by (simp add: Impl_EnqueueMessage_def NewServer_def)
  with rpc_gateway_errors [OF demo_call_transparent, of _ _ "demo_im\<lparr>is_gateway := NewServer ''gw'' ''key'' 10\<rparr>"
      "Some errClientNotExist" "NewServer ''gw'' ''key'' 10" "''gw_1_''" undefined NewEmptyMessage "[1]" NewEmptyMessage]
  show ?thesis by (simp add: demo_rpc_env_def) blast
qed

end
