(* ===== verification/Db.thy ===== *)
theory Db
  imports Prelude
begin

text \<open>
  The connections to MySQL and Redis (\<^verbatim>\<open>internal/pkg/db\<close>). \<open>gorm\<close> is what gorm answers to an address and to the request for
  the pool behind it; the settings of the pool and the options of the Redis client are recorded. Numbers of type
  \<^verbatim>\<open>int\<close> are 64-bit words, so that the conversion of the lifetime to nanoseconds wraps as it does in Go.
\<close>

section \<open>State\<close>

record MySQLConfig =
  mc_Host :: string
  mc_Port :: i64
  mc_User :: string
  mc_Password :: string
  mc_Database :: string
  mc_Charset :: string
  mc_MaxOpenConn :: i64
  mc_MaxIdleConn :: i64
  mc_MaxLifeTimeMin :: i64

record RedisConfig =
  rc_Host :: string
  rc_Port :: i64
  rc_Password :: string
  rc_PoolSize :: i64
  rc_MinIdleConn :: i64
  rc_Db :: i64

text \<open>The settings of \<^verbatim>\<open>sql.DB\<close> that were changed.\<close>
record sql_pool =
  pool_MaxOpen :: "i64 option"
  pool_MaxLifetime :: "i64 option"
  pool_MaxIdle :: "i64 option"

record redis_Options =
  ro_Addr :: string
  ro_Password :: string
  ro_DB :: i64
  ro_MinIdleConns :: i64
  ro_PoolSize :: i64

text \<open>The variables \<^verbatim>\<open>DB\<close>, with the address it was opened with and its pool, and \<^verbatim>\<open>Redis\<close>.\<close>
record databases =
  db_DB :: "(string \<times> sql_pool) option"
  db_Redis :: "redis_Options option"

definition no_databases :: databases where
  "no_databases = \<lparr>db_DB = None, db_Redis = None\<rparr>"

record gorm =
  gorm_open :: "string \<Rightarrow> go_error"
  gorm_DB :: "string \<Rightarrow> go_error"


section \<open>Opening\<close>

definition Minute :: i64 where
  "Minute = 60000000000"

definition mysql_dsn :: "MySQLConfig \<Rightarrow> string" where
  "mysql_dsn c = mc_User c @ '':'' @ mc_Password c @ ''@tcp('' @ mc_Host c @ '':'' @ show_int (sint (mc_Port c)) @
     '')/'' @ mc_Database c @ ''?charset='' @ mc_Charset c @ ''&parseTime=true''"

text \<open>\<^verbatim>\<open>if x > 0\<close> for a number of type \<^verbatim>\<open>int\<close>.\<close>
definition positive :: "i64 \<Rightarrow> bool" where
  "positive x = (0 <s x)"

definition initMySQL :: "gorm \<Rightarrow> MySQLConfig \<Rightarrow> databases \<Rightarrow> go_error \<times> databases" where
  "initMySQL gorm c d =
     (let url = mysql_dsn c;
          pool = \<lparr>pool_MaxOpen = None, pool_MaxLifetime = None, pool_MaxIdle = None\<rparr>;
          d1 = d\<lparr>db_DB := Some (url, pool)\<rparr>
      in case gorm_open gorm url of
           Some e \<Rightarrow> (Some e, d1)
         | None \<Rightarrow>
             (case gorm_DB gorm url of
                Some e \<Rightarrow> (Some e, d1)
              | None \<Rightarrow>
                  let p1 = (if positive (mc_MaxOpenConn c) then pool\<lparr>pool_MaxOpen := Some (mc_MaxOpenConn c)\<rparr> else pool);
                      p2 = (if positive (mc_MaxLifeTimeMin c)
                            then p1\<lparr>pool_MaxLifetime := Some (mc_MaxLifeTimeMin c * Minute)\<rparr> else p1);
                      p3 = (if positive (mc_MaxIdleConn c) then p2\<lparr>pool_MaxIdle := Some (mc_MaxIdleConn c)\<rparr> else p2)
                  in (nil, d1\<lparr>db_DB := Some (url, p3)\<rparr>)))"

definition initRedis :: "RedisConfig \<Rightarrow> databases \<Rightarrow> databases" where
  "initRedis c d =
     (let addr = rc_Host c @ '':'' @ show_int (sint (rc_Port c));
          opt = \<lparr>ro_Addr = addr, ro_Password = rc_Password c, ro_DB = rc_Db c, ro_MinIdleConns = 0, ro_PoolSize = 0\<rparr>;
          opt1 = (if positive (rc_MinIdleConn c) then opt\<lparr>ro_MinIdleConns := rc_MinIdleConn c\<rparr> else opt);
          opt2 = (if positive (rc_PoolSize c) then opt1\<lparr>ro_PoolSize := rc_PoolSize c\<rparr> else opt1)
      in d\<lparr>db_Redis := Some opt2\<rparr>)"

definition db_Init ::
    "gorm \<Rightarrow> MySQLConfig option \<Rightarrow> RedisConfig option \<Rightarrow> databases \<Rightarrow> go_error \<times> databases" where
  "db_Init gorm mysqlConf redisConf d =
     (case (case mysqlConf of None \<Rightarrow> (nil, d) | Some c \<Rightarrow> initMySQL gorm c d) of
        (Some e, d1) \<Rightarrow> (Some e, d1)
      | (None, d1) \<Rightarrow> (nil, case redisConf of None \<Rightarrow> d1 | Some c \<Rightarrow> initRedis c d1))"


section \<open>What is set\<close>

lemma positive_sint: "positive x \<longleftrightarrow> 0 < sint x"
  by (simp add: positive_def word_sless_alt)

text \<open>
  The lifetime of connections in nanoseconds is the one that was configured as long as it fits: up to 153,722,867 minutes
  (some 292 years). One minute more wraps to a negative duration, which \<^verbatim>\<open>sql.DB\<close> takes for no limit.
\<close>
lemma lifetime_exact:
  assumes "0 < sint x" "sint x \<le> 153722867"
  shows "sint (x * Minute) = sint x * 60000000000"
proof -
  have "sint (x * Minute) = signed_take_bit 63 (sint x * sint Minute)"
    by (simp add: sint_word_ariths)
  also have "sint Minute = 60000000000" by (simp add: Minute_def)
  also have "signed_take_bit 63 (sint x * 60000000000) = sint x * 60000000000"
    using assms by (intro signed_take_bit_int_eq_self) simp_all
  finally show ?thesis .
qed

lemma lifetime_wraps: "sint ((153722868 :: i64) * Minute) < 0"
  by (simp add: Minute_def)

text \<open>
  Opening the databases. \<^verbatim>\<open>Init\<close> fails exactly when a MySQL configuration is given and gorm cannot open it or give its
  pool; then Redis is left alone, whatever its configuration. Otherwise every limit that is positive is set as
  configured and the others keep their default; the lifetime is exact, in nanoseconds, up to the bound of 64 bits.
\<close>
theorem Init_databases:
  assumes "db_Init gorm (Some mc) (Some rc) d = (e, d')"
  shows "(e \<noteq> nil \<longleftrightarrow> gorm_open gorm (mysql_dsn mc) \<noteq> nil \<or> gorm_DB gorm (mysql_dsn mc) \<noteq> nil) \<and>
    (e \<noteq> nil \<longrightarrow> db_Redis d' = db_Redis d) \<and>
    (e = nil \<longrightarrow> (\<exists>p o'. db_DB d' = Some (mysql_dsn mc, p) \<and> db_Redis d' = Some o' \<and>
      pool_MaxOpen p = (if 0 < sint (mc_MaxOpenConn mc) then Some (mc_MaxOpenConn mc) else None) \<and>
      pool_MaxIdle p = (if 0 < sint (mc_MaxIdleConn mc) then Some (mc_MaxIdleConn mc) else None) \<and>
      (pool_MaxLifetime p = None \<longleftrightarrow> sint (mc_MaxLifeTimeMin mc) \<le> 0) \<and>
      (0 < sint (mc_MaxLifeTimeMin mc) \<longrightarrow> sint (mc_MaxLifeTimeMin mc) \<le> 153722867 \<longrightarrow>
         map_option sint (pool_MaxLifetime p) = Some (sint (mc_MaxLifeTimeMin mc) * 60000000000)) \<and>
      ro_Addr o' = rc_Host rc @ '':'' @ show_int (sint (rc_Port rc)) \<and>
      ro_PoolSize o' = (if 0 < sint (rc_PoolSize rc) then rc_PoolSize rc else 0) \<and>
      ro_MinIdleConns o' = (if 0 < sint (rc_MinIdleConn rc) then rc_MinIdleConn rc else 0)))"
proof (cases "gorm_open gorm (mysql_dsn mc) = nil \<and> gorm_DB gorm (mysql_dsn mc) = nil")
  case True
  then show ?thesis using assms lifetime_exact [of "mc_MaxLifeTimeMin mc"]
    by (auto simp: db_Init_def initMySQL_def initRedis_def positive_sint Let_def)
next
  case False
  then have "e \<noteq> nil \<and> db_Redis d' = db_Redis d"
    using assms by (auto simp: db_Init_def initMySQL_def Let_def split: option.splits) (metis+)
  then show ?thesis using False by auto
qed

definition demo_mysql :: MySQLConfig where
  "demo_mysql = \<lparr>mc_Host = ''db'', mc_Port = 3306, mc_User = ''u'', mc_Password = ''p'', mc_Database = ''im'', mc_Charset = ''utf8'',
     mc_MaxOpenConn = 20, mc_MaxIdleConn = 0, mc_MaxLifeTimeMin = 5\<rparr>"

definition demo_redis :: RedisConfig where
  "demo_redis = \<lparr>rc_Host = ''redis'', rc_Port = 6379, rc_Password = '''', rc_PoolSize = - 1, rc_MinIdleConn = 2, rc_Db = 0\<rparr>"

theorem Init_databases_witness:
  "\<exists>d' p o'. db_Init \<lparr>gorm_open = (\<lambda>_. nil), gorm_DB = (\<lambda>_. nil)\<rparr> (Some demo_mysql) (Some demo_redis) no_databases = (nil, d') \<and>
    db_DB d' = Some (mysql_dsn demo_mysql, p) \<and> pool_MaxOpen p = Some 20 \<and> pool_MaxIdle p = None \<and>
    map_option sint (pool_MaxLifetime p) = Some 300000000000 \<and> db_Redis d' = Some o' \<and> ro_PoolSize o' = 0 \<and> ro_MinIdleConns o' = 2"
proof -
  let ?g = "\<lparr>gorm_open = (\<lambda>_. nil), gorm_DB = (\<lambda>_. nil)\<rparr>"
  obtain e d' where r: "db_Init ?g (Some demo_mysql) (Some demo_redis) no_databases = (e, d')" by fastforce
  moreover from Init_databases [OF r] have "e = nil" by simp
  ultimately show ?thesis using Init_databases [OF r]
    by (fastforce simp: demo_mysql_def demo_redis_def)
qed

end
