(* ===== verification/Server.thy ===== *)
theory Server
  imports Stores Conn RpcService Db
begin

text \<open>
  The configuration (\<^verbatim>\<open>config/viper.go\<close>) and \<^verbatim>\<open>cmd/im_service/main.go\<close>, which puts the parts together. The answers of viper,
  of the databases, of Kafka and of the listeners are arguments.
\<close>

section \<open>Configuration\<close>

record CommonConf =
  cc_StoreOfflineMessage :: bool
  cc_StoreMessageHistory :: bool
  cc_SecretKey :: string

record WsServerConf =
  ws_ID :: string
  ws_Addr :: string
  ws_Port :: int

record IMRpcServerConf =
  rpc_Addr :: string
  rpc_Port :: int
  rpc_Network :: string
  rpc_Name :: string

record MySqlConf =
  my_Host :: string
  my_Port :: int
  my_Username :: string
  my_Password :: string
  my_Db :: string

record RedisConf =
  rd_Host :: string
  rd_Port :: int
  rd_Password :: string
  rd_Db :: int

record Config =
  cfg_Common :: "CommonConf option"
  cfg_MySql :: "MySqlConf option"
  cfg_WsServer :: "WsServerConf option"
  cfg_IMService :: "IMRpcServerConf option"
  cfg_Redis :: "RedisConf option"
  cfg_Kafka :: "string list option"

text \<open>\<open>read\<close> and \<open>unmarshal\<close> are the answers of viper.\<close>
definition MustLoad :: "go_error \<Rightarrow> string + Config \<Rightarrow> Config outcome" where
  "MustLoad read unmarshal =
     (case read of
        Some e \<Rightarrow> Panic e
      | None \<Rightarrow>
          (case unmarshal of
             Inl e \<Rightarrow> Panic e
           | Inr c \<Rightarrow>
               if cfg_Common c = None then Panic ''CommonConf is nil''
               else if cfg_MySql c = None then Panic ''mysql config is nil''
               else if cfg_WsServer c = None then Panic ''ws server config is nil''
               else if cfg_IMService c = None then Panic ''im rpc server config is nil''
               else Ret c))"

text \<open>\<^verbatim>\<open>message_store_db.New\<close>; \<open>connect\<close> gives the errors of opening and of the ping.\<close>
definition mysql_url :: "MySqlConf \<Rightarrow> string" where
  "mysql_url c = my_Username c @ '':'' @ my_Password c @ ''@tcp('' @ my_Host c @ '':'' @ show_int (my_Port c) @
     '')/'' @ my_Db c"

definition DB_New :: "(string \<Rightarrow> go_error \<times> go_error) \<Rightarrow> MySqlConf option \<Rightarrow> go_error outcome" where
  "DB_New connect conf =
     (case conf of
        None \<Rightarrow> nil_dereference
      | Some c \<Rightarrow>
          (case connect (mysql_url c) of
             (Some e, _) \<Rightarrow> Ret (Some e)
           | (None, ping) \<Rightarrow> Ret ping))"

datatype store_choice = IdleStores | KafkaStores | DBStores

definition choose_stores ::
    "(string list \<Rightarrow> ProducerConfig \<Rightarrow> go_error) \<Rightarrow> (string \<Rightarrow> go_error \<times> go_error) \<Rightarrow> Config \<Rightarrow> store_choice outcome" where
  "choose_stores producer connect c =
     (case cfg_Common c of
        None \<Rightarrow> nil_dereference
      | Some common \<Rightarrow>
          if cc_StoreMessageHistory common then
            (case cfg_Kafka c of
               Some (a # as) \<Rightarrow>
                 (case NewKafkaProducer producer (a # as) of Some e \<Rightarrow> Panic e | None \<Rightarrow> Ret KafkaStores)
             | _ \<Rightarrow>
                 bind_outcome (DB_New connect (cfg_MySql c)) (\<lambda>e.
                   case e of Some x \<Rightarrow> Panic x | None \<Rightarrow> Ret DBStores))
          else Ret IdleStores)"

text \<open>The environments of the handlers and of the channels over the chosen stores.\<close>

definition segment_of :: "store_choice \<Rightarrow> ChanID \<Rightarrow> nat \<Rightarrow> string + (i64 \<times> i64)" where
  "segment_of s = (case s of IdleStores \<Rightarrow> Idle_NextSegmentSequence | KafkaStores \<Rightarrow> Kafka_NextSegmentSequence
                     | DBStores \<Rightarrow> Sub_NextSegmentSequence)"

section \<open>The start\<close>

text \<open>
  The server as \<^verbatim>\<open>main\<close> leaves it when it starts to listen: the WebSocket gateway with its handlers and the state they
  work on, whose gateway is the one behind the WebSocket gateway.
\<close>
record im_server =
  srv_ws :: WebsocketGatewayServer
  srv_stores :: store_choice
  srv_handler :: MessageInterfaceImpl
  srv_storeOffline :: bool
  srv_state :: msgw
  srv_db :: databases
  srv_rpc :: ServerOptions

definition redis_config :: "RedisConf \<Rightarrow> RedisConfig" where
  "redis_config r =
     \<lparr>rc_Host = rd_Host r, rc_Port = of_int (rd_Port r), rc_Password = rd_Password r, rc_PoolSize = 0,
      rc_MinIdleConn = 0, rc_Db = of_int (rd_Db r)\<rparr>"

definition rpc_options :: "IMRpcServerConf \<Rightarrow> ServerOptions" where
  "rpc_options c =
     \<lparr>so_Name = rpc_Name c, so_Network = rpc_Network c, so_Addr = rpc_Addr c, so_Port = rpc_Port c, so_EtcdServers = []\<rparr>"

text \<open>The state of the handlers before the gateway and the subscription service are set.\<close>
definition new_msgw :: "gateway \<Rightarrow> msgw" where
  "new_msgw g = \<lparr>mw_gate = g, mw_sub = newRealSubscription, mw_state = NewUserState, mw_stored = [], mw_offline = [],
     mw_redis = [], mw_world = []\<rparr>"

text \<open>
  \<^verbatim>\<open>main\<close> up to the start of the RPC service, without the goroutine that serves connections. \<open>order\<close> is the order in
  which Go iterates over the default handlers, \<open>env\<close> the environment of the channels; \<open>gorm\<close>, \<open>producer\<close> and
  \<open>connect\<close> are the answers of the databases and of Kafka.
\<close>
definition main_start ::
    "gorm \<Rightarrow> (string list \<Rightarrow> ProducerConfig \<Rightarrow> go_error) \<Rightarrow> (string \<Rightarrow> go_error \<times> go_error) \<Rightarrow> chan_env \<Rightarrow>
     (string \<times> handler_fn) list \<Rightarrow> go_error \<Rightarrow> string + Config \<Rightarrow> im_server outcome" where
  "main_start gorm producer connect env order read unmarshal =
     bind_outcome (MustLoad read unmarshal) (\<lambda>c.
       case (cfg_Redis c, cfg_WsServer c, cfg_Common c, cfg_IMService c) of
         (Some redis, Some ws, Some common, Some im) \<Rightarrow>
           (case db_Init gorm None (Some (redis_config redis)) no_databases of
              (Some e, _) \<Rightarrow> Panic e
            | (None, db) \<Rightarrow>
                let gateway = new_WebsocketServer (ws_ID ws) (ws_Addr ws) (ws_Port ws) (cc_SecretKey common)
                in bind_outcome (choose_stores producer connect c) (\<lambda>stores.
                   let handler = NewHandlerWithOptions True False order;
                       sub = newRealSubscription;
                       w = handler_SetGate (wg_decorator gateway)
                             (handler_SetSubscription sub (new_msgw (wg_decorator gateway)))
                   in bind_outcome (EnableWorldChannel (env\<lparr>ce_segment := segment_of stores\<rparr>) (mw_sub w)) (\<lambda>(e, u).
                      case e of
                        Some x \<Rightarrow> Panic x
                      | None \<Rightarrow> Ret \<lparr>srv_ws = gateway, srv_stores = stores, srv_handler = handler,
                                     srv_storeOffline = cc_StoreOfflineMessage common, srv_state = w\<lparr>mw_sub := u\<rparr>,
                                     srv_db = db, srv_rpc = rpc_options im\<rparr>)))
       | _ \<Rightarrow> nil_dereference)"

text \<open>
  The goroutine that serves connections, and the RPC service, in which \<^verbatim>\<open>main\<close> stays. Either ends the program when it
  fails.
\<close>
definition or_panic :: "go_error \<Rightarrow> 'a \<Rightarrow> 'a outcome" where
  "or_panic e x = (case e of None \<Rightarrow> Ret x | Some m \<Rightarrow> Panic m)"

definition main_gateway ::
    "(string \<Rightarrow> go_error list \<times> go_error) \<Rightarrow> arrival list \<Rightarrow> im_server \<Rightarrow> WebsocketGatewayServer outcome" where
  "main_gateway listenAndServe as s =
     (case ws_server_Run listenAndServe as (ws_SetMessageHandler True (srv_ws s)) of (err, w) \<Rightarrow> or_panic err w)"

definition main_rpc ::
    "(string \<Rightarrow> go_error) \<Rightarrow> (string \<Rightarrow> go_error) \<Rightarrow> (string \<Rightarrow> string \<Rightarrow> go_error) \<Rightarrow> im_server \<Rightarrow> BaseServer outcome" where
  "main_rpc start register srv s = (case RunRpcService start register srv (srv_rpc s) of (err, b) \<Rightarrow> or_panic err b)"

lemma NewChannel_segment:
  "\<exists>ch. NewChannel (env\<lparr>ce_segment := segment_of s\<rparr>) c = Inr ch"
  by (cases s) (simp_all add: NewChannel_def loadSeq_def segment_of_def Idle_NextSegmentSequence_def
      Kafka_NextSegmentSequence_def Sub_NextSegmentSequence_def)

lemma MustLoad_checks:
  "MustLoad read unmarshal = Ret c \<Longrightarrow>
     cfg_Common c \<noteq> None \<and> cfg_MySql c \<noteq> None \<and> cfg_WsServer c \<noteq> None \<and> cfg_IMService c \<noteq> None"
  by (auto simp: MustLoad_def split: option.splits sum.splits if_splits)


definition demo_config :: Config where
  "demo_config =
     \<lparr>cfg_Common = Some \<lparr>cc_StoreOfflineMessage = False, cc_StoreMessageHistory = True, cc_SecretKey = ''k''\<rparr>,
      cfg_MySql = Some \<lparr>my_Host = ''h'', my_Port = 3306, my_Username = ''u'', my_Password = ''p'', my_Db = ''im''\<rparr>,
      cfg_WsServer = Some \<lparr>ws_ID = ''node1'', ws_Addr = ''0.0.0.0'', ws_Port = 8083\<rparr>,
      cfg_IMService = Some \<lparr>rpc_Addr = ''0.0.0.0'', rpc_Port = 8092, rpc_Network = ''tcp'', rpc_Name = ''im_rpc_server''\<rparr>,
      cfg_Redis = Some \<lparr>rd_Host = '''', rd_Port = 6379, rd_Password = '''', rd_Db = 5\<rparr>, cfg_Kafka = Some []\<rparr>"


end
