(* ===== verification/Examples.thy ===== *)
theory Examples
  imports RpcService Stores
begin

text \<open>
  The example programs under \<^verbatim>\<open>example/\<close> that use the RPC clients, run against the service of the theory
  \<open>RpcService\<close>. They show how the parts are meant to be used together, and two of them do not do what they are
  meant to.

  A program ends with the state of the service, or panics. \<open>etcd\<close> is the error of etcd's discovery, \<open>env\<close> and \<open>call\<close> are JSON and the
  transport as for the clients. \<^verbatim>\<open>ExampleUserLogin\<close> needs a package that is not part of the repository.
\<close>

section \<open>The programs\<close>

definition example_options :: ClientOptions where
  "example_options =
     \<lparr>co_Addr = ''127.0.0.1'', co_Port = 8092, co_Name = ''im_rpc_server'', co_EtcdServers = None,
      co_Selector = None, co_SerializeType = SerializeNone\<rparr>"

text \<open>\<^verbatim>\<open>&SubscriberOptions{Perm: p}\<close>.\<close>
definition with_perm :: "Permission \<Rightarrow> SubscriberOptions" where
  "with_perm p = \<lparr>so_Perm = p, so_Ticket = ''''\<rparr>"

text \<open>\<^verbatim>\<open>if err != nil { panic(err) }\<close>.\<close>
definition must :: "cli_result \<Rightarrow> im_service outcome" where
  "must x = bind_outcome x (\<lambda>(e, s). case e of None \<Rightarrow> Ret s | Some m \<Rightarrow> Panic m)"

definition initialize :: "go_error \<Rightarrow> Client outcome" where
  "initialize etcd = (case NewClient etcd example_options of Inl e \<Rightarrow> Panic e | Inr c \<Rightarrow> Ret c)"

definition ExampleCreateGroup :: "rpc_env \<Rightarrow> rpc_call \<Rightarrow> string \<Rightarrow> string \<Rightarrow> im_service \<Rightarrow> im_service outcome" where
  "ExampleCreateGroup env call channelId adminId s =
     (let ci = \<lparr>ci_ID = channelId, ci_Type = 0, Muted = False, Blocked = False, Closed = False,
                Secret = '''', Parent = None, Child = []\<rparr>
      in bind_outcome (must (Client_CreateChannel call (ci_ID ci) ci s)) (\<lambda>s1.
         must (Client_Subscribe env call channelId adminId (ExtraOptions (with_perm PermAdmin)) s1)))"

definition ExampleAddMember :: "rpc_env \<Rightarrow> rpc_call \<Rightarrow> string \<Rightarrow> string \<Rightarrow> im_service \<Rightarrow> im_service outcome" where
  "ExampleAddMember env call channelId memberId s =
     must (Client_Subscribe env call channelId memberId (ExtraOptions (with_perm PermRead)) s)"

text \<open>\<^verbatim>\<open>main\<close> of \<^verbatim>\<open>example/api/api_example.go\<close>.\<close>
definition api_main :: "go_error \<Rightarrow> rpc_env \<Rightarrow> rpc_call \<Rightarrow> im_service \<Rightarrow> im_service outcome" where
  "api_main etcd env call s =
     bind_outcome (initialize etcd) (\<lambda>_.
     bind_outcome (ExampleCreateGroup env call ''c1'' ''1'' s) (\<lambda>s1.
     ExampleAddMember env call ''c1'' ''2'' s1))"

text \<open>
  \<^verbatim>\<open>example/client/rpc_client_example.go\<close>. The deferred \<^verbatim>\<open>cli.Close()\<close> runs before the panic of a failed
  constructor is reported, on a client that is nil.
\<close>
definition RpcGatewayClientUpdateClient :: "go_error \<Rightarrow> rpc_call \<Rightarrow> im_service \<Rightarrow> im_service outcome" where
  "RpcGatewayClientUpdateClient etcd call s =
     (case NewGatewayRpcImpl etcd example_options of
        Inl e \<Rightarrow> nil_dereference
      | Inr _ \<Rightarrow> must (cli_UpdateClient call (NewID2 ''544607'')
          \<lparr>MessageDeliverSecret = ''secret'', OnlineStateSecret = ''''\<rparr> s))"

definition RpcGatewayClientExample :: "go_error \<Rightarrow> rpc_env \<Rightarrow> rpc_call \<Rightarrow> im_service \<Rightarrow> im_service outcome" where
  "RpcGatewayClientExample etcd env call s =
     (case NewGatewayRpcImpl etcd example_options of
        Inl e \<Rightarrow> nil_dereference
      | Inr _ \<Rightarrow>
          bind_outcome (must (cli_EnqueueMessage env call (NewID2 ''1'') NewEmptyMessage s)) (\<lambda>s1.
          bind_outcome (must (cli_SetClientID call (NewID2 ''1'') (NewID2 ''2'') s1)) (\<lambda>s2.
          bind_outcome (cli_ExitClient call (NewID '''' ''1'' ''1'') s2) (\<lambda>(_, s3). Ret s3))))"

definition example_message :: PublishMessage where
  "example_message =
     \<lparr>pm_From = ''1'', pm_To = [], pm_Seq = 1, pm_Type = TypeMessage,
      pm_Message = Some (NewMessage 0 ''1'' (Ptr (SChat
        \<lparr>cm_CliMid = '''', cm_Mid = 0, cm_Seq = 0, cm_From = '''', cm_To = '''', cm_Type = 0, cm_Content = '''', cm_SendAt = 0\<rparr>)))\<rparr>"

definition RpcSubscriberClientExample :: "go_error \<Rightarrow> rpc_env \<Rightarrow> rpc_call \<Rightarrow> im_service \<Rightarrow> im_service outcome" where
  "RpcSubscriberClientExample etcd env call s =
     (case NewSubscriptionRpcImpl etcd example_options of
        Inl e \<Rightarrow> nil_dereference
      | Inr _ \<Rightarrow>
          bind_outcome (must (cli_Subscribe env call ''1'' ''1''
             (ExtraOptions (with_perm (PermRead OR PermWrite))) s)) (\<lambda>s1.
          bind_outcome (cli_RemoveChannel call ''1'' s1) (\<lambda>(_, s2).
          must (cli_Publish env call ''1'' (PubMessage example_message) s2))))"

text \<open>\<^verbatim>\<open>main\<close> returns after the first of the three.\<close>
definition rpc_example_main :: "go_error \<Rightarrow> rpc_env \<Rightarrow> rpc_call \<Rightarrow> im_service \<Rightarrow> im_service outcome" where
  "rpc_example_main etcd env call s = RpcGatewayClientUpdateClient etcd call s"


text \<open>\<^verbatim>\<open>example/kafka_store.go\<close>: a consumer with a callback for every topic; then it waits for ever.\<close>
definition kafka_store_main :: "(string \<Rightarrow> nat \<Rightarrow> go_error) \<Rightarrow> string + nat list \<Rightarrow> kafka \<Rightarrow> kafka outcome" where
  "kafka_store_main avail partitions k =
     (case NewKafkaConsumer avail partitions k of
        Inl e \<Rightarrow> Panic e
      | Inr k1 \<Rightarrow> Ret (ConsumeChannelMessage (ConsumeOfflineMessage (ConsumeChatMessage k1))))"


section \<open>What they do\<close>

text \<open>What JSON promises for the options of a subscriber: decoding gives back what was encoded.\<close>
definition json_options :: "rpc_env \<Rightarrow> Permission \<Rightarrow> bool" where
  "json_options env p =
     (case re_enc_extra env (ExtraOptions (with_perm p)) of
        Inl _ \<Rightarrow> False
      | Inr b \<Rightarrow> re_dec_options env b = Inr (with_perm p))"

text \<open>The consumer of the Kafka example is the one whose deliveries are proved for the store.\<close>
lemma kafka_store_main_listening:
  "NewKafkaConsumer avail partitions k = Inr k1 \<Longrightarrow> kafka_store_main avail partitions k = Ret (listening k1)"
  by (simp add: kafka_store_main_def listening_def ConsumeOfflineMessage_def ConsumeChannelMessage_def ConsumeChatMessage_def)

lemma example_clients: "\<exists>c. NewBaseClient etcd example_options = Inr c"
  by (simp add: NewBaseClient_def example_options_def Let_def)

lemma cli_Subscribe_local:
  assumes "transparent env call" "json_options env p" "wrap_Subscribe (re_chan env) c i (ExtraOptions (with_perm p)) (is_sub s) = Ret (e, u)"
  shows "cli_Subscribe env call c i (ExtraOptions (with_perm p)) s = Ret (service_error e, s\<lparr>is_sub := u\<rparr>)"
proof -
  obtain b where "re_enc_extra env (ExtraOptions (with_perm p)) = Inr b" "re_dec_options env b = Inr (with_perm p)"
    using assms(2) by (auto simp: json_options_def split: sum.splits)
  then show ?thesis using after_transparent [OF assms(1), of "SubscribeReq c i b" s e u] assms(3)
    by (simp add: cli_Subscribe_def srv_Subscribe_def)
qed

lemma cli_CreateChannel_local:
  assumes "transparent env call" "wrap_CreateChannel (re_chan env) c (chan_info_of c (proto_info ci)) (is_sub s) = Ret (e, u)"
  shows "cli_CreateChannel call c ci s = Ret (service_error e, s\<lparr>is_sub := u\<rparr>)"
  using after_transparent [OF assms(1), of "CreateChannelReq c (Some (proto_info ci))" s e u] assms(2)
  by (simp add: cli_CreateChannel_def srv_CreateChannel_def)

lemma NewChannel_open: "NewChannel env c = Inr g \<Longrightarrow> \<not> Closed (ch_info g)"
  by (auto simp: NewChannel_def loadSeq_def Let_def NewChanInfo_def split: sum.splits prod.splits option.splits)

text \<open>The new channel is open and has no members.\<close>
lemma create_open:
  assumes "sub_inv u" "channels u c = None" "NewChannel env c = Inr g"
    "\<not> Blocked ci" "Secret ci = ''''"
  shows "\<exists>u'. wrap_CreateChannel env c ci u = Ret (nil, u') \<and> sub_inv u' \<and> open_chan u' c \<and>
    sub_member u' = (sub_member u)(c := \<lambda>_. None)"
proof -
  let ?u = "set_channel c (snd (Channel_Update ci g)) u"
  have w: "wrap_CreateChannel env c ci u = Ret (nil, ?u)"
    using assms by (simp add: wrap_eqs real_CreateChannel_def Channel_Update_def)
  have "open_chan ?u c" using assms(4,5) NewChannel_open [OF assms(3)] by (simp add: open_chan_def settings_def set_channel_def Channel_Update_def)
  then show ?thesis using w wrapi.create_law [OF assms(1) w] by auto
qed

lemmas example_defs = api_main_def initialize_def ExampleCreateGroup_def ExampleAddMember_def must_def Client_defs

text \<open>
  \<^verbatim>\<open>main\<close> of the API example, run against a service that has no channel \<^verbatim>\<open>c1\<close>, creates the channel with the admin
  \<^verbatim>\<open>1\<close> and the member \<^verbatim>\<open>2\<close> and changes nothing else. Neither of the two has the permission to write: an admin is
  subscribed with \<^verbatim>\<open>PermAdmin\<close> alone, so every message to the group is refused, whoever sends it.
\<close>
theorem api_example_group:
  assumes t: "transparent env call" and j: "json_options env PermAdmin" "json_options env PermRead" and inv: "sub_inv (is_sub s)"
    and new: "channels (is_sub s) ''c1'' = None" and made: "NewChannel (re_chan env) ''c1'' = Inr g"
  shows "\<exists>s'. api_main etcd env call s = Ret s' \<and> is_gateway s' = is_gateway s \<and>
    sub_member (is_sub s') = (sub_member (is_sub s))(''c1'' := [''1'' \<mapsto> PermAdmin, ''2'' \<mapsto> PermRead]) \<and>
    (\<forall>m e u. wrap_Publish (re_chan env) ''c1'' (PubMessage m) (is_sub s') = Ret (e, u) \<longrightarrow> e \<noteq> nil)"
proof -
  let ?ci = "\<lparr>ci_ID = ''c1'', ci_Type = 0, Muted = False, Blocked = False, Closed = False, Secret = '''', Parent = None, Child = []\<rparr>"
  let ?C = "re_chan env"
  obtain u1 where 1: "wrap_CreateChannel ?C ''c1'' (chan_info_of ''c1'' (proto_info ?ci)) (is_sub s) = Ret (nil, u1)"
    "sub_inv u1" "open_chan u1 ''c1''" "sub_member u1 = (sub_member (is_sub s))(''c1'' := \<lambda>_. None)"
    using create_open [OF inv new made, of "chan_info_of ''c1'' (proto_info ?ci)"]
    by (auto simp: chan_info_of_def proto_info_def)
  obtain u2 where 2: "wrap_Subscribe ?C ''c1'' ''1'' (ExtraOptions (with_perm PermAdmin)) u1 = Ret (nil, u2)"
    "sub_inv u2" "open_chan u2 ''c1''" "sub_member u2 = (sub_member u1)(''c1'' := (sub_member u1 ''c1'')(''1'' := Some PermAdmin))"
    using open_Subscribe [OF 1(2,3), of ?C "''1''" "with_perm PermAdmin"] 1(3)
    by (auto simp: open_chan_def with_perm_def)
  obtain u3 where 3: "wrap_Subscribe ?C ''c1'' ''2'' (ExtraOptions (with_perm PermRead)) u2 = Ret (nil, u3)"
    "sub_inv u3" "sub_member u3 = (sub_member u2)(''c1'' := (sub_member u2 ''c1'')(''2'' := Some PermRead))"
    using open_Subscribe [OF 2(2,3), of ?C "''2''" "with_perm PermRead"] by (auto simp: with_perm_def)
  have "api_main etcd env call s = Ret (s\<lparr>is_sub := u3\<rparr>)"
    using cli_CreateChannel_local [OF t 1(1)] cli_Subscribe_local [OF t j(1), of "''c1''" "''1''" "s\<lparr>is_sub := u1\<rparr>" nil u2]
      cli_Subscribe_local [OF t j(2), of "''c1''" "''2''" "s\<lparr>is_sub := u2\<rparr>" nil u3] 2(1) 3(1)
    example_clients [of etcd]
    by (auto simp: example_defs service_error_def NewClient_def)
  moreover have members: "sub_member u3 = (sub_member (is_sub s))(''c1'' := [''1'' \<mapsto> PermAdmin, ''2'' \<mapsto> PermRead])"
    using 1(4) 2(4) 3(3) by (auto simp: fun_eq_iff)
  moreover have "e \<noteq> nil" if "wrap_Publish ?C ''c1'' (PubMessage m) u3 = Ret (e, u)" for m e u
    using wrapi.publish_law [OF 3(2) that] members
    by (auto simp: PermAdmin_def PermRead_def MaskPermAdmin_def MaskPermRead_def split: if_splits)
  ultimately show ?thesis by auto
qed

definition demo_group_env :: rpc_env where
  "demo_group_env = demo_rpc_env
     \<lparr>re_enc_extra := (\<lambda>x. case x of ExtraOptions so \<Rightarrow> Inr (if so_Perm so = PermAdmin then [1] else [2]) | _ \<Rightarrow> Inl ''bad''),
      re_dec_options := (\<lambda>b. Inr (with_perm (if b = [1] then PermAdmin else PermRead)))\<rparr>"

lemma demo_group_json: "json_options demo_group_env PermAdmin" "json_options demo_group_env PermRead"
  by (simp_all add: json_options_def demo_group_env_def with_perm_def PermAdmin_def PermRead_def
      MaskPermAdmin_def MaskPermRead_def)

theorem api_example_group_witness:
  "\<exists>s'. api_main nil demo_group_env (\<lambda>m q s. serve demo_group_env q s) demo_im = Ret s' \<and>
    sub_member (is_sub s') ''c1'' = [''1'' \<mapsto> PermAdmin, ''2'' \<mapsto> PermRead]"
proof -
  have "\<exists>g. NewChannel (re_chan demo_group_env) ''c1'' = Inr g"
    by (simp add: demo_group_env_def demo_rpc_env_def NewChannel_def loadSeq_def demo_chan_env_def
        Idle_NextSegmentSequence_def)
  then obtain g where "NewChannel (re_chan demo_group_env) ''c1'' = Inr g" by blast
  then show ?thesis
    using api_example_group [OF transparent_serve demo_group_json, of demo_im g nil] demo_sub_inv
    by (auto simp: demo_im_def demo_sub_def)
qed

text \<open>Joining a channel with options returns, whatever the channel's settings.\<close>
lemma Subscribe_returns:
  assumes "sub_inv u"
  shows "\<exists>e u'. wrap_Subscribe env c i (ExtraOptions so) u = Ret (e, u') \<and> sub_inv u'"
proof -
  have "\<exists>e u'. wrap_Subscribe env c i (ExtraOptions so) u = Ret (e, u')"
  proof (cases "channels u c")
    case (Some ch)
    then have "chan_inv ch" using assms by (auto simp: sub_inv_def)
    from Channel_Subscribe_returns [OF this, of env i so] Some show ?thesis
      by (auto simp: wrap_eqs wrapped_def real_Subscribe_def on_channel_def)
  qed (simp add: wrap_eqs wrapped_def real_Subscribe_def on_channel_def)
  then show ?thesis using wrapi.subscribe_law [OF assms] by blast
qed

text \<open>A message to a channel that does not exist is an error wherever it is found out.\<close>
lemma cli_Publish_missing:
  assumes "transparent env call" "channels (is_sub s) c = None"
  shows "\<exists>m s'. cli_Publish env call c (PubMessage x) s = Ret (Some m, s')"
proof (cases "re_enc_publish env (PubMessage x)")
  case (Inr b)
  have "\<exists>m s'. after_call (rpc_do call (PublishReq c b) s) = Ret (Some m, s')"
  proof (cases "re_dec_publish env b")
    case (Inl e)
    then have "serve env (PublishReq c b) s = on_sub s (Ret (Some e, is_sub s))"
      by (simp add: srv_Publish_def on_sub_def reply_def)
    from after_transparent [OF assms(1) this] show ?thesis by (simp add: service_error_def)
  next
    case (Inr m)
    then have "serve env (PublishReq c b) s = on_sub s (Ret (Some ErrChanNotExist, is_sub s))"
      using assms(2) by (simp add: srv_Publish_def wrap_eqs real_Publish_def on_channel_def)
    from after_transparent [OF assms(1) this] show ?thesis by (simp add: service_error_def)
  qed
  then show ?thesis using Inr by (simp add: cli_Publish_def)
qed (simp add: cli_Publish_def)

text \<open>
  The example of the subscription client cannot succeed: it publishes to the channel it has removed before, so it panics,
  if not already because it cannot join.
\<close>
theorem subscriber_example_panics:
  assumes t: "transparent env call" and j: "json_options env (PermRead OR PermWrite)" and inv: "sub_inv (is_sub s)"
  shows "\<exists>m. RpcSubscriberClientExample etcd env call s = Panic m"
proof -
  let ?so = "with_perm (PermRead OR PermWrite)"
  obtain e u where u: "wrap_Subscribe (re_chan env) ''1'' ''1'' (ExtraOptions ?so) (is_sub s) = Ret (e, u)" "sub_inv u"
    using Subscribe_returns [OF inv] by blast
  obtain e2 u2 where r: "wrap_RemoveChannel (re_chan env) ''1'' u = Ret (e2, u2)" "channels u2 ''1'' = None"
    using wrapi.remove_law [OF u(2), of "re_chan env" "''1''"] by (auto simp: sub_has_def fun_eq_iff split: if_splits)
  have "cli_RemoveChannel call ''1'' (s\<lparr>is_sub := u\<rparr>) = Ret (service_error e2, s\<lparr>is_sub := u2\<rparr>)"
    using after_transparent [OF t, of "RemoveChannelReq ''1''" "s\<lparr>is_sub := u\<rparr>" e2 u2] r(1)
    by (simp add: cli_RemoveChannel_def srv_RemoveChannel_def)
  moreover obtain m s' where "cli_Publish env call ''1'' (PubMessage example_message) (s\<lparr>is_sub := u2\<rparr>) = Ret (Some m, s')"
    using cli_Publish_missing [OF t, of "s\<lparr>is_sub := u2\<rparr>" "''1''" example_message] r(2) by auto
  moreover note cli_Subscribe_local [OF t j u(1)] example_clients [of etcd]
  ultimately show ?thesis
    by (auto simp: RpcSubscriberClientExample_def NewSubscriptionRpcImpl_def must_def service_error_def split: option.split)
qed

end
