(* ===== verification/Logger.thy ===== *)
theory Logger
  imports Prelude
begin

text \<open>
  The functions of \<^verbatim>\<open>pkg/logger\<close>. An entry is what zap is given: the level, the format or the message, the operands of the
  format, and the fields. How zap writes it is not modelled. \<open>'a\<close> is the type of the operands; a slice that is passed
  as one operand is \<open>Slice\<close>.
\<close>

datatype level = DebugLevel | InfoLevel | WarnLevel | ErrorLevel

datatype 'a operand = Operand 'a | Slice "'a list"

datatype log_field = FieldError go_error | FieldString string string | FieldInt64 string int

record 'a log_entry =
  le_level :: level
  le_format :: string
  le_operands :: "'a operand list"
  le_fields :: "log_field list"

type_synonym 'a log = "'a log_entry list"

text \<open>\<^verbatim>\<open>sugar.Errorf\<close> and its siblings, and \<^verbatim>\<open>Zap.Error\<close> and \<^verbatim>\<open>Zap.Debug\<close>.\<close>
definition sugar_logf :: "level \<Rightarrow> string \<Rightarrow> 'a operand list \<Rightarrow> 'a log \<Rightarrow> 'a log" where
  "sugar_logf lv format ops l = l @ [\<lparr>le_level = lv, le_format = format, le_operands = ops, le_fields = []\<rparr>]"

definition zap_log :: "level \<Rightarrow> string \<Rightarrow> log_field \<Rightarrow> 'a log \<Rightarrow> 'a log" where
  "zap_log lv msg f l = l @ [\<lparr>le_level = lv, le_format = msg, le_operands = [], le_fields = [f]\<rparr>]"

text \<open>\<^verbatim>\<open>init\<close>: \<open>zap\<close> is the error of \<^verbatim>\<open>zap.NewDevelopment\<close>.\<close>
definition logger_init :: "go_error \<Rightarrow> 'a log outcome" where
  "logger_init zap = (case zap of Some e \<Rightarrow> Panic e | None \<Rightarrow> Ret [])"

definition log_E :: "string \<Rightarrow> 'a list \<Rightarrow> 'a log \<Rightarrow> 'a log" where
  "log_E format logs l = sugar_logf ErrorLevel format (map Operand logs) l"

definition log_I :: "string \<Rightarrow> 'a list \<Rightarrow> 'a log \<Rightarrow> 'a log" where
  "log_I format args l = sugar_logf InfoLevel format (map Operand args) l"

definition log_D :: "string \<Rightarrow> 'a list \<Rightarrow> 'a log \<Rightarrow> 'a log" where
  "log_D format args l = sugar_logf DebugLevel format (map Operand args) l"

text \<open>The arguments are not expanded.\<close>
definition log_W :: "string \<Rightarrow> 'a list \<Rightarrow> 'a log \<Rightarrow> 'a log" where
  "log_W format args l = sugar_logf WarnLevel format [Slice args] l"

definition ErrE :: "string \<Rightarrow> go_error \<Rightarrow> 'a log \<Rightarrow> 'a log" where
  "ErrE msg e l = zap_log ErrorLevel msg (FieldError e) l"

definition ErrStr :: "string \<Rightarrow> string \<Rightarrow> string \<Rightarrow> 'a log \<Rightarrow> 'a log" where
  "ErrStr msg k v l = zap_log ErrorLevel msg (FieldString k v) l"

definition ErrInt :: "string \<Rightarrow> string \<Rightarrow> int \<Rightarrow> 'a log \<Rightarrow> 'a log" where
  "ErrInt msg k v l = zap_log ErrorLevel msg (FieldInt64 k v) l"

definition DebugStr :: "string \<Rightarrow> string \<Rightarrow> string \<Rightarrow> 'a log \<Rightarrow> 'a log" where
  "DebugStr msg k v l = zap_log DebugLevel msg (FieldString k v) l"

text \<open>
  \<open>E\<close>, \<open>I\<close> and \<open>D\<close> give zap one operand for every argument; \<open>W\<close> gives it one operand whatever the number of arguments, so
  a warning with a format for two arguments lacks one.
\<close>
lemma log_operands:
  "length (le_operands (last (log_E f xs l))) = length xs"
  "length (le_operands (last (log_I f xs l))) = length xs"
  "length (le_operands (last (log_D f xs l))) = length xs"
  "length (le_operands (last (log_W f xs l))) = 1"
  by (simp_all add: log_E_def log_I_def log_D_def log_W_def sugar_logf_def)

end
