(* ===== verification/Json.thy ===== *)
theory Json
  imports Decimal
begin

text \<open>
  The text level of \<^verbatim>\<open>encoding/json\<close>, as far as the repository uses it: string literals with their escapes and the
  treatment of bytes that are not UTF-8, numbers, and values. Texts are strings of bytes.

  A decoder of values returns the value and the rest of the text. It is written with fuel; twice the length of
  the text is always enough (\<open>pv_fuel\<close>), so the fuel never decides the result. The limit on the nesting of arrays and
  objects is the one of the library.
\<close>

abbreviation code :: "char \<Rightarrow> nat" where "code c \<equiv> of_char c"
abbreviation DQ :: char where "DQ \<equiv> CHR 0x22"
abbreviation BS :: char where "BS \<equiv> CHR 0x5C"

section \<open>UTF-8\<close>

definition cont :: "char \<Rightarrow> bool" where
  "cont c = (0x80 \<le> code c \<and> code c \<le> 0xBF)"

text \<open>The number of bytes of the rune a text starts with, or 0 when it does not start with a valid one.\<close>
fun rune_len :: "string \<Rightarrow> nat" where
  "rune_len [] = 0"
| "rune_len (a # s) =
     (if code a < 0x80 then 1
      else if 0xC2 \<le> code a \<and> code a \<le> 0xDF
      then (case s of b # _ \<Rightarrow> if cont b then 2 else 0 | _ \<Rightarrow> 0)
      else if 0xE0 \<le> code a \<and> code a \<le> 0xEF
      then (case s of
              b # c # _ \<Rightarrow>
                if (if code a = 0xE0 then 0xA0 else 0x80) \<le> code b \<and>
                   code b \<le> (if code a = 0xED then 0x9F else 0xBF) \<and> cont c then 3 else 0
            | _ \<Rightarrow> 0)
      else if 0xF0 \<le> code a \<and> code a \<le> 0xF4
      then (case s of
              b # c # d # _ \<Rightarrow>
                if (if code a = 0xF0 then 0x90 else 0x80) \<le> code b \<and>
                   code b \<le> (if code a = 0xF4 then 0x8F else 0xBF) \<and> cont c \<and> cont d then 4 else 0
            | _ \<Rightarrow> 0)
      else 0)"

declare rune_len.simps(2) [simp del]

lemma rune_len_le: "rune_len s \<le> length s"
  by (cases s) (auto simp: rune_len.simps split: list.split)

lemma rune_len_ascii: "code a < 0x80 \<Longrightarrow> rune_len (a # s) = 1"
  by (simp add: rune_len.simps)

text \<open>\<^verbatim>\<open>utf8.ValidString\<close>.\<close>
function valid_utf8 :: "string \<Rightarrow> bool" where
  "valid_utf8 s =
     (if s = [] then True else if rune_len s = 0 then False else valid_utf8 (drop (rune_len s) s))"
  by auto
termination
  by (relation "measure length") (auto simp: diff_less)

declare valid_utf8.simps [simp del]

lemma valid_utf8_Nil [simp]: "valid_utf8 []"
  by (simp add: valid_utf8.simps)

lemma valid_utf8_Cons: "s \<noteq> [] \<Longrightarrow> valid_utf8 s = (rune_len s \<noteq> 0 \<and> valid_utf8 (drop (rune_len s) s))"
  by (subst valid_utf8.simps) simp

text \<open>\<^verbatim>\<open>utf8.EncodeRune\<close>.\<close>
definition utf8 :: "nat \<Rightarrow> string" where
  "utf8 n =
     (if n < 0x80 then [char_of n]
      else if n < 0x800 then [char_of (0xC0 + n div 64), char_of (0x80 + n mod 64)]
      else if n < 0x10000
      then [char_of (0xE0 + n div 4096), char_of (0x80 + n div 64 mod 64), char_of (0x80 + n mod 64)]
      else [char_of (0xF0 + n div 262144), char_of (0x80 + n div 4096 mod 64), char_of (0x80 + n div 64 mod 64),
            char_of (0x80 + n mod 64)])"

text \<open>What a rune is does not depend on what follows it.\<close>
lemma rune_len_take: "rune_len s = k \<Longrightarrow> k \<noteq> 0 \<Longrightarrow> rune_len (take k s @ t) = k"
proof (cases s)
  case (Cons a r)
  then show "rune_len s = k \<Longrightarrow> k \<noteq> 0 \<Longrightarrow> rune_len (take k s @ t) = k"
    by (cases r; cases "tl r"; cases "tl (tl r)") (auto simp: rune_len.simps split: if_splits)
qed simp

section \<open>String literals\<close>

text \<open>
  A character below 0x80 in a literal. The quotation mark, the backslash, line feed, carriage return and tabulator
  have short escapes; other control characters and the characters of HTML are written in hexadecimal.
\<close>
definition esc :: "char \<Rightarrow> string" where
  "esc c =
     (if c = DQ \<or> c = BS then [BS, c]
      else if c = CHR 0x0A then [BS, CHR ''n'']
      else if c = CHR 0x0D then [BS, CHR ''r'']
      else if c = CHR 0x09 then [BS, CHR ''t'']
      else if code c < 0x20 \<or> c \<in> set ''<>&'' then BS # ''u00'' @ [hex_digit (code c div 16), hex_digit (code c mod 16)]
      else [c])"

text \<open>U+2028 and U+2029 are escaped, and a byte that starts no valid rune is written as U+FFFD.\<close>
function quote_body :: "string \<Rightarrow> string" where
  "quote_body s =
     (case s of
        [] \<Rightarrow> []
      | c # r \<Rightarrow>
          if code c < 0x80 then esc c @ quote_body r
          else let k = rune_len s
               in if k = 0 then BS # ''ufffd'' @ quote_body r
                  else if take 3 s = [CHR 0xE2, CHR 0x80, CHR 0xA8] then BS # ''u2028'' @ quote_body (drop 3 s)
                  else if take 3 s = [CHR 0xE2, CHR 0x80, CHR 0xA9] then BS # ''u2029'' @ quote_body (drop 3 s)
                  else take k s @ quote_body (drop k s))"
  by auto
termination
  by (relation "measure length") (auto simp: diff_less)

declare quote_body.simps [simp del]

definition quote :: "string \<Rightarrow> string" where
  "quote s = DQ # quote_body s @ [DQ]"

definition hex_value :: "char \<Rightarrow> nat option" where
  "hex_value c =
     (if 48 \<le> code c \<and> code c \<le> 57 then Some (code c - 48)
      else if 97 \<le> code c \<and> code c \<le> 102 then Some (code c - 87)
      else if 65 \<le> code c \<and> code c \<le> 70 then Some (code c - 55)
      else None)"

fun hex4 :: "string \<Rightarrow> (nat \<times> string) option" where
  "hex4 (a # b # c # d # r) =
     (case (hex_value a, hex_value b, hex_value c, hex_value d) of
        (Some w, Some x, Some y, Some z) \<Rightarrow> Some (((w * 16 + x) * 16 + y) * 16 + z, r)
      | _ \<Rightarrow> None)"
| "hex4 _ = None"

definition unesc :: "char \<Rightarrow> char option" where
  "unesc e = map_of [(DQ, DQ), (BS, BS), (CHR ''/'', CHR ''/''), (CHR ''b'', CHR 0x08), (CHR ''f'', CHR 0x0C),
     (CHR ''n'', CHR 0x0A), (CHR ''r'', CHR 0x0D), (CHR ''t'', CHR 0x09)] e"

definition replacement :: nat where "replacement = 0xFFFD"

text \<open>Two escapes that form a surrogate pair are one rune; a surrogate on its own is replaced.\<close>
definition surrogate :: "nat \<Rightarrow> string \<Rightarrow> nat \<times> string" where
  "surrogate n r =
     (if 0xD800 \<le> n \<and> n < 0xE000
      then (case r of
              b # u # r1 \<Rightarrow>
                (case hex4 r1 of
                   Some (m, r2) \<Rightarrow>
                     if b = BS \<and> u = CHR ''u'' \<and> n < 0xDC00 \<and> 0xDC00 \<le> m \<and> m < 0xE000
                     then ((n - 0xD800) * 1024 + (m - 0xDC00) + 0x10000, r2)
                     else (replacement, r)
                 | None \<Rightarrow> (replacement, r))
            | _ \<Rightarrow> (replacement, r))
      else (n, r))"

lemma hex4_length: "hex4 s = Some (n, r) \<Longrightarrow> length r < length s"
  by (cases s rule: hex4.cases) (auto split: option.splits)

lemma surrogate_length: "surrogate n r = (m, r') \<Longrightarrow> length r' \<le> length r"
  by (auto simp: surrogate_def dest!: hex4_length split: if_splits list.splits option.splits)

definition prepend :: "string \<Rightarrow> (string \<times> string) option \<Rightarrow> (string \<times> string) option" where
  "prepend p x = map_option (\<lambda>(s, r). (p @ s, r)) x"

text \<open>The rest of a literal, after the opening quotation mark.\<close>
function unq :: "string \<Rightarrow> (string \<times> string) option" where
  "unq s =
     (case s of
        [] \<Rightarrow> None
      | c # r \<Rightarrow>
          if c = DQ then Some ([], r)
          else if c = BS
          then (case r of
                  [] \<Rightarrow> None
                | e # r1 \<Rightarrow>
                    if e = CHR ''u''
                    then (case hex4 r1 of
                            None \<Rightarrow> None
                          | Some (n, r2) \<Rightarrow> prepend (utf8 (fst (surrogate n r2))) (unq (snd (surrogate n r2))))
                    else (case unesc e of None \<Rightarrow> None | Some d \<Rightarrow> prepend [d] (unq r1)))
          else if code c < 0x20 then None
          else if code c < 0x80 then prepend [c] (unq r)
          else if rune_len s = 0 then prepend (utf8 replacement) (unq r)
          else prepend (take (rune_len s) s) (unq (drop (rune_len s) s)))"
  by auto
termination
proof (relation "measure length", goal_cases)
  case (2 s c r e r1 a n r2)
  then show ?case using hex4_length [of r1 n r2] surrogate_length [of n r2] by (cases "surrogate n r2") auto
qed (auto simp: diff_less)

declare unq.simps [simp del]

text \<open>How a literal goes on after each kind of character.\<close>
lemma unq_DQ [simp]: "unq (DQ # t) = Some ([], t)"
  by (subst unq.simps) simp

lemma unq_short: "e \<noteq> CHR ''u'' \<Longrightarrow> unesc e = Some d \<Longrightarrow> unq (BS # e # x) = prepend [d] (unq x)"
  by (subst unq.simps) simp

lemma unq_hex: "hex4 x = Some (n, y) \<Longrightarrow> \<not> (0xD800 \<le> n \<and> n < 0xE000) \<Longrightarrow> unq (BS # CHR ''u'' # x) = prepend (utf8 n) (unq y)"
proof -
  assume h: "hex4 x = Some (n, y)" and n: "\<not> (0xD800 \<le> n \<and> n < 0xE000)"
  have "surrogate n y = (n, y)" unfolding surrogate_def using n by (rule if_not_P)
  with h show ?thesis by (subst unq.simps) simp
qed

lemma unq_plain: "c \<noteq> DQ \<Longrightarrow> c \<noteq> BS \<Longrightarrow> 0x20 \<le> code c \<Longrightarrow> code c < 0x80 \<Longrightarrow> unq (c # x) = prepend [c] (unq x)"
  by (subst unq.simps) simp

lemma hex_value_digit: "d < 16 \<Longrightarrow> hex_value (hex_digit d) = Some d"
proof -
  assume "d < 16"
  then have "d \<in> set [0..<16]" by simp
  also have "[0..<16] = [0,1,2,3,4,5,6,7,8,9,10,11,12,13,14,15]" by (simp add: upt_rec)
  finally have "d \<in> set [0,1,2,3,4,5,6,7,8,9,10,11,12,13,14,15]" .
  then show ?thesis by (auto simp: hex_value_def hex_digit_def)
qed

lemma utf8_ascii: "code c < 0x80 \<Longrightarrow> utf8 (code c) = [c]"
  by (simp add: utf8_def)

lemma unq_esc:
  assumes "code c < 0x80"
  shows "unq (esc c @ x) = prepend [c] (unq x)"
proof -
  consider (short) "c \<in> {DQ, BS, CHR 0x0A, CHR 0x0D, CHR 0x09}"
    | (hex) "c \<notin> {DQ, BS, CHR 0x0A, CHR 0x0D, CHR 0x09}" "code c < 0x20 \<or> c \<in> set ''<>&''"
    | (plain) "c \<notin> {DQ, BS, CHR 0x0A, CHR 0x0D, CHR 0x09}" "\<not> (code c < 0x20 \<or> c \<in> set ''<>&'')"
    by blast
  then show ?thesis
  proof cases
    case short
    then show ?thesis by (auto simp: esc_def unq_short unesc_def)
  next
    case hex
    have "hex4 (''00'' @ [hex_digit (code c div 16), hex_digit (code c mod 16)] @ x) = Some (code c, x)"
      using assms hex_value_digit [of "code c div 16"] hex_value_digit [of "code c mod 16"]
      by (simp add: hex_value_def)
    from unq_hex [OF this] assms hex show ?thesis by (auto simp: esc_def utf8_ascii)
  next
    case plain
    then show ?thesis using assms unq_plain [of c x] by (simp add: esc_def)
  qed
qed

lemma unq_rune:
  assumes "rune_len (c # r) \<noteq> 0" "\<not> code c < 0x80"
  shows "unq (take (rune_len (c # r)) (c # r) @ x) = prepend (take (rune_len (c # r)) (c # r)) (unq x)"
proof -
  let ?k = "rune_len (c # r)" and ?s = "take (rune_len (c # r)) (c # r) @ x"
  obtain k where k: "?k = Suc k" using assms(1) by (cases ?k) auto
  have len: "length (take ?k (c # r)) = ?k" using rune_len_le [of "c # r"] by simp
  have "rune_len ?s = ?k" using rune_len_take [OF refl assms(1)] .
  moreover have "?s = c # (take k r @ x)" by (simp add: k)
  moreover have "c \<noteq> DQ" "c \<noteq> BS" "\<not> code c < 0x20" using assms(2) by auto
  moreover have "take ?k ?s = take ?k (c # r)" "drop ?k ?s = x" using len by simp_all
  ultimately show ?thesis using assms by (subst unq.simps) simp
qed

lemma unq_line_separator:
  "unq (BS # ''u2028'' @ x) = prepend [CHR 0xE2, CHR 0x80, CHR 0xA8] (unq x)"
  "unq (BS # ''u2029'' @ x) = prepend [CHR 0xE2, CHR 0x80, CHR 0xA9] (unq x)"
  by (simp_all add: unq_hex hex_value_def utf8_def char_of_def bit_Suc_0_iff)

text \<open>A valid string comes back from its literal.\<close>
lemma unq_quote: "valid_utf8 s \<Longrightarrow> unq (quote_body s @ DQ # t) = Some (s, t)"
proof (induction s rule: valid_utf8.induct)
  case (1 s)
  show ?case
  proof (cases s)
    case Nil
    then show ?thesis by (simp add: quote_body.simps)
  next
    case (Cons c r)
    let ?k = "rune_len s"
    have k: "?k \<noteq> 0" "valid_utf8 (drop ?k s)"
      using valid_utf8_Cons [of s] 1(2) Cons by simp_all
    have IH: "unq (quote_body (drop ?k s) @ DQ # t) = Some (drop ?k s, t)" using 1(1) k Cons by simp
    consider "code c < 0x80"
      | "\<not> code c < 0x80" "take 3 s = [CHR 0xE2, CHR 0x80, CHR 0xA8] \<or> take 3 s = [CHR 0xE2, CHR 0x80, CHR 0xA9]"
      | "\<not> code c < 0x80" "take 3 s \<noteq> [CHR 0xE2, CHR 0x80, CHR 0xA8]" "take 3 s \<noteq> [CHR 0xE2, CHR 0x80, CHR 0xA9]"
      by blast
    then show ?thesis
    proof cases
      case 1
      then show ?thesis using IH Cons
        by (simp add: quote_body.simps [of "c # r"] unq_esc rune_len_ascii prepend_def)
    next
      case 2
      then obtain y where s: "s = [CHR 0xE2, CHR 0x80, CHR 0xA8] @ y \<or> s = [CHR 0xE2, CHR 0x80, CHR 0xA9] @ y"
        by (metis append_take_drop_id)
      then have "?k = 3" by (auto simp: rune_len.simps cont_def)
      then show ?thesis using IH s
        by (auto simp: quote_body.simps [of s] unq_line_separator [simplified] prepend_def)
    next
      case 3
      then have "quote_body s = take ?k s @ quote_body (drop ?k s)"
        using k(1) Cons by (auto simp: quote_body.simps [of "c # r"] Let_def)
      moreover have "unq (take ?k s @ quote_body (drop ?k s) @ DQ # t) =
          prepend (take ?k s) (unq (quote_body (drop ?k s) @ DQ # t))"
        unfolding Cons by (rule unq_rune) (use k(1) 3(1) Cons in simp_all)
      ultimately show ?thesis using IH by (simp add: prepend_def)
    qed
  qed
qed

section \<open>Numbers\<close>

definition is_digit :: "char \<Rightarrow> bool" where
  "is_digit c = (48 \<le> code c \<and> code c \<le> 57)"

definition digits :: "string \<Rightarrow> (string \<times> string) option" where
  "digits s = (if takeWhile is_digit s = [] then None else Some (takeWhile is_digit s, dropWhile is_digit s))"

text \<open>The parts of a number: no leading zeros, digits after the point and in the exponent.\<close>
definition num_int :: "string \<Rightarrow> (string \<times> string) option" where
  "num_int s = (case s of c # r \<Rightarrow> if c = CHR ''0'' then Some ([c], r) else digits s | [] \<Rightarrow> None)"

definition num_frac :: "string \<Rightarrow> (string \<times> string) option" where
  "num_frac s = (case s of c # r \<Rightarrow> if c = CHR ''.'' then prepend [c] (digits r) else Some ([], s) | [] \<Rightarrow> Some ([], s))"

definition num_exp :: "string \<Rightarrow> (string \<times> string) option" where
  "num_exp s =
     (case s of
        c # r \<Rightarrow>
          if c = CHR ''e'' \<or> c = CHR ''E''
          then (case r of
                  d # r1 \<Rightarrow> if d = CHR ''+'' \<or> d = CHR ''-'' then prepend [c, d] (digits r1) else prepend [c] (digits r)
                | [] \<Rightarrow> None)
          else Some ([], s)
      | [] \<Rightarrow> Some ([], s))"

definition then_parse ::
    "(string \<times> string) option \<Rightarrow> (string \<Rightarrow> (string \<times> string) option) \<Rightarrow> (string \<times> string) option" where
  "then_parse x f = (case x of None \<Rightarrow> None | Some (a, r) \<Rightarrow> prepend a (f r))"

definition num :: "string \<Rightarrow> (string \<times> string) option" where
  "num s =
     (case s of
        c # r \<Rightarrow>
          if c = CHR ''-'' then prepend [c] (then_parse (num_int r) (\<lambda>r. then_parse (num_frac r) num_exp))
          else then_parse (num_int s) (\<lambda>r. then_parse (num_frac r) num_exp)
      | [] \<Rightarrow> None)"


section \<open>Values\<close>

text \<open>
  Numbers are kept as they are written, and members of an object with the text of their value, which a type with a method
  \<^verbatim>\<open>UnmarshalJSON\<close> gets to see.
\<close>
datatype json = JNull | JBool bool | JNum string | JStr string | JArr "json list" | JObj "(string \<times> string \<times> json) list"

definition ws :: "string \<Rightarrow> string" where
  "ws s = dropWhile (\<lambda>c. c \<in> {CHR '' '', CHR 0x09, CHR 0x0A, CHR 0x0D}) s"

definition starts :: "string \<Rightarrow> string \<Rightarrow> bool" where
  "starts p s = (take (length p) s = p)"

definition maxNestingDepth :: nat where
  "maxNestingDepth = 10000"

text \<open>A value, the elements of an array and the members of an object; \<open>n\<close> is the fuel, \<open>d\<close> the nesting that is left.\<close>
fun pv :: "nat \<Rightarrow> nat \<Rightarrow> string \<Rightarrow> (json \<times> string) option"
  and pe :: "nat \<Rightarrow> nat \<Rightarrow> string \<Rightarrow> (json list \<times> string) option"
  and pm :: "nat \<Rightarrow> nat \<Rightarrow> string \<Rightarrow> ((string \<times> string \<times> json) list \<times> string) option" where
  "pv 0 d s = None"
| "pv (Suc n) d s =
     (case s of
        [] \<Rightarrow> None
      | c # r \<Rightarrow>
          if c = DQ then map_option (\<lambda>(x, t). (JStr x, t)) (unq r)
          else if c = CHR ''['' then
            (case d of
               0 \<Rightarrow> None
             | Suc d' \<Rightarrow>
                 if starts '']'' (ws r) then Some (JArr [], tl (ws r))
                 else map_option (\<lambda>(js, t). (JArr js, t)) (pe n d' (ws r)))
          else if c = CHR ''{'' then
            (case d of
               0 \<Rightarrow> None
             | Suc d' \<Rightarrow>
                 if starts ''}'' (ws r) then Some (JObj [], tl (ws r))
                 else map_option (\<lambda>(ms, t). (JObj ms, t)) (pm n d' (ws r)))
          else if starts ''null'' s then Some (JNull, drop 4 s)
          else if starts ''true'' s then Some (JBool True, drop 4 s)
          else if starts ''false'' s then Some (JBool False, drop 5 s)
          else map_option (\<lambda>(x, t). (JNum x, t)) (num s))"
| "pe 0 d s = None"
| "pe (Suc n) d s =
     (case pv n d s of
        None \<Rightarrow> None
      | Some (j, r) \<Rightarrow>
          (case ws r of
             c # t \<Rightarrow>
               if c = CHR '']'' then Some ([j], t)
               else if c = CHR '','' then map_option (\<lambda>(js, u). (j # js, u)) (pe n d (ws t))
               else None
           | [] \<Rightarrow> None))"
| "pm 0 d s = None"
| "pm (Suc n) d s =
     (if \<not> starts [DQ] s then None
      else case unq (tl s) of
             None \<Rightarrow> None
           | Some (k, r) \<Rightarrow>
               if \<not> starts '':'' (ws r) then None
               else let v = ws (tl (ws r))
                    in case pv n d v of
                         None \<Rightarrow> None
                       | Some (j, q) \<Rightarrow>
                           let m = (k, take (length v - length q) v, j)
                           in case ws q of
                                c # t \<Rightarrow>
                                  if c = CHR ''}'' then Some ([m], t)
                                  else if c = CHR '','' then map_option (\<lambda>(ms, u). (m # ms, u)) (pm n d (ws t))
                                  else None
                              | [] \<Rightarrow> None)"

text \<open>A text with one value, and white space around it.\<close>
definition parse :: "string \<Rightarrow> json option" where
  "parse s =
     (case pv (2 * length s + 1) maxNestingDepth (ws s) of
        None \<Rightarrow> None
      | Some (j, r) \<Rightarrow> if ws r = [] then Some j else None)"


section \<open>Every step consumes\<close>

lemma ws_length: "length (ws s) \<le> length s"
  by (simp add: ws_def length_dropWhile_le)

lemma prepend_Some: "prepend p x = Some (s, r) \<longleftrightarrow> (\<exists>s'. x = Some (s', r) \<and> s = p @ s')"
  by (auto simp: prepend_def)

lemma unq_length: "unq s = Some (x, r) \<Longrightarrow> length r < length s"
proof (induction s arbitrary: x rule: unq.induct)
  case (1 s)
  show ?case
  proof (cases s)
    case (Cons c r1)
    consider "c = DQ" | e r2 where "c = BS" "r1 = e # r2" | "c = BS" "r1 = []" | "c \<noteq> DQ" "c \<noteq> BS" by (cases r1) auto
    then show ?thesis
    proof cases
      case 2
      show ?thesis
      proof (cases "e = CHR ''u''")
        case True
        then obtain n r3 x' where h: "hex4 r2 = Some (n, r3)" "unq (snd (surrogate n r3)) = Some (x', r)"
          using 1(6) 2 Cons by (subst (asm) unq.simps) (auto simp: prepend_Some split: option.splits)
        then have "length r < length (snd (surrogate n r3))" using 1(1) Cons 2 True by blast
        then show ?thesis using hex4_length [OF h(1)] surrogate_length [of n r3 "fst (surrogate n r3)" "snd (surrogate n r3)"] Cons 2
          by simp
      next
        case False
        then obtain d x' where "unesc e = Some d" "unq r2 = Some (x', r)"
          using 1(6) 2 Cons by (subst (asm) unq.simps) (auto simp: prepend_Some split: option.splits)
        then show ?thesis using 1(2) Cons 2 False by fastforce
      qed
    next
      case 4
      then have "(\<exists>x'. unq r1 = Some (x', r) \<and> \<not> code c < 0x20 \<and> (code c < 0x80 \<or> rune_len s = 0)) \<or>
          (\<exists>x'. unq (drop (rune_len s) s) = Some (x', r) \<and> \<not> code c < 0x20 \<and> \<not> code c < 0x80 \<and> rune_len s \<noteq> 0)"
        using 1(6) Cons by (subst (asm) unq.simps) (auto simp: prepend_Some split: if_splits)
      then show ?thesis
      proof (elim disjE exE conjE)
        fix x' assume "unq (drop (rune_len s) s) = Some (x', r)" "\<not> code c < 0x20" "\<not> code c < 0x80" "rune_len s \<noteq> 0"
        then have "length r < length (drop (rune_len s) s)" using 1(5) 4 Cons by blast
        then show ?thesis by simp
      qed (use 1(3,4) 4 Cons in fastforce)+
    qed (use 1(6) Cons in \<open>subst (asm) unq.simps; simp\<close>)+
  qed (use 1(6) in \<open>subst (asm) unq.simps; simp\<close>)
qed

lemma digits_length: "digits s = Some (x, r) \<Longrightarrow> length r < length s"
proof -
  assume "digits s = Some (x, r)"
  then have "takeWhile is_digit s \<noteq> []" "r = dropWhile is_digit s" by (auto simp: digits_def split: if_splits)
  moreover have "length s = length (takeWhile is_digit s) + length (dropWhile is_digit s)"
    by (metis length_append takeWhile_dropWhile_id)
  ultimately show ?thesis by simp
qed

lemma num_parts_length:
  "num_int s = Some (x, r) \<Longrightarrow> length r < length s"
  "num_frac s = Some (x, r) \<Longrightarrow> length r \<le> length s"
  "num_exp s = Some (x, r) \<Longrightarrow> length r \<le> length s"
  by (auto simp: num_int_def num_frac_def num_exp_def prepend_Some dest!: digits_length split: list.splits if_splits)

lemma num_length: "num s = Some (x, r) \<Longrightarrow> length r < length s"
  by (auto simp: num_def then_parse_def prepend_Some dest!: num_parts_length split: list.splits if_splits option.splits)

lemma consumes:
  "pv n d s = Some (j, r) \<longrightarrow> length r < length s"
  "pe n d s = Some (js, r) \<longrightarrow> length r < length s"
  "pm n d s = Some (ms, r) \<longrightarrow> length r < length s"
proof (induction n d s and n d s and n d s arbitrary: j r and js r and ms r rule: pv_pe_pm.induct)
  case (2 n d s)
  show ?case
  proof (cases s)
    case (Cons c x)
    have w: "length (ws x) \<le> length x" "length (tl (ws x)) \<le> length x" using ws_length [of x] by auto
    show ?thesis using 2 Cons w unq_length [of x] num_length [of s]
      by (fastforce split: if_splits nat.splits)
  qed simp
next
  case (4 n d s)
  show ?case
  proof
    assume "pe (Suc n) d s = Some (js, r)"
    then obtain j q c t where p: "pv n d s = Some (j, q)" "ws q = c # t"
        "c = CHR '']'' \<and> r = t \<or> (\<exists>js'. c = CHR '','' \<and> pe n d (ws t) = Some (js', r))"
      by (auto split: option.splits list.splits if_splits)
    have "length q < length s" "length t < length q" using 4(1) p(1) ws_length [of q] p(2) by auto
    then show "length r < length s" using p(3) 4(2) [OF p(1) refl p(2)] ws_length [of t] by fastforce
  qed
next
  case (6 n d s)
  show ?case
  proof
    assume pm: "pm (Suc n) d s = Some (ms, r)"
    then obtain k q where k: "starts [DQ] s" "unq (tl s) = Some (k, q)" "starts '':'' (ws q)"
      by (auto split: option.splits if_splits)
    let ?v = "ws (tl (ws q))"
    obtain j u c t where p: "pv n d ?v = Some (j, u)" "ws u = c # t"
        "c = CHR ''}'' \<and> r = t \<or> (\<exists>ms'. c = CHR '','' \<and> pm n d (ws t) = Some (ms', r))"
      using pm k by (auto simp: Let_def split: option.splits list.splits if_splits)
    have "length q \<le> length s" "length ?v \<le> length q"
      using unq_length [OF k(2)] ws_length [of q] ws_length [of "tl (ws q)"] by auto
    moreover have "length u < length ?v" "length t < length u" using 6(1) k p(1,2) ws_length [of u] by auto
    moreover have "length r < length (ws t) \<or> r = t" using p(3) 6(2) [OF _ k(2) refl _ refl p(1) refl refl p(2)] k by auto
    ultimately show "length r < length s" using ws_length [of t] by auto
  qed
qed simp_all

text \<open>With this much fuel the result does not depend on it.\<close>
lemma pv_fuel_step:
  "(2 * length s < n \<longrightarrow> 2 * length s < m \<longrightarrow> pv n d s = pv m d s) \<and>
   (2 * length s + 1 < n \<longrightarrow> 2 * length s + 1 < m \<longrightarrow> pe n d s = pe m d s) \<and>
   (2 * length s < n \<longrightarrow> 2 * length s < m \<longrightarrow> pm n d s = pm m d s)"
proof (induction n arbitrary: m d s)
  case (Suc n)
  show ?case
  proof (cases m)
    case m: (Suc m')
    have "pv (Suc n) d s = pv (Suc m') d s" if "2 * length s < Suc n" "2 * length s < Suc m'"
    proof (cases s)
      case (Cons c x)
      have "2 * length (ws x) + 1 < n" "2 * length (ws x) + 1 < m'" using that Cons ws_length [of x] by auto
      then show ?thesis using Suc [of "ws x" m'] Cons by (simp split: nat.split)
    qed simp
    moreover have "pe (Suc n) d s = pe (Suc m') d s" if l: "2 * length s + 1 < Suc n" "2 * length s + 1 < Suc m'"
    proof (cases "pv n d s")
      case None
      then show ?thesis using Suc [of s m' d] l by simp
    next
      case (Some p)
      obtain j q where p: "p = (j, q)" by (cases p)
      have "length q < length s" using consumes(1) [of n d s j q] Some p by simp
      then have "2 * length (ws t) + 1 < n" "2 * length (ws t) + 1 < m'" if "ws q = c # t" for c t
        using l ws_length [of q] ws_length [of t] that by auto
      then have "pe n d (ws t) = pe m' d (ws t)" if "ws q = c # t" for c t using Suc that by blast
      moreover have "pv m' d s = Some (j, q)" using Suc [of s m' d] l Some p by simp
      ultimately show ?thesis using Some p by (simp split: list.split)
    qed
    moreover have "pm (Suc n) d s = pm (Suc m') d s" if l: "2 * length s < Suc n" "2 * length s < Suc m'"
    proof (cases "unq (tl s)")
      case None
      then show ?thesis by simp
    next
      case (Some p)
      obtain k q where p: "p = (k, q)" by (cases p)
      let ?v = "ws (tl (ws q))"
      have q: "length q < length s" using unq_length [of "tl s" k q] Some p by auto
      have v: "2 * length ?v < n" "2 * length ?v < m'" using q l ws_length [of q] ws_length [of "tl (ws q)"] by auto
      have pv: "pv n d ?v = pv m' d ?v" using Suc v by blast
      have "2 * length (ws t) < n" "2 * length (ws t) < m'" if "pv n d ?v = Some (j, u)" "ws u = c # t" for j u c t
        using v consumes(1) [of n d ?v j u] that ws_length [of u] ws_length [of t] by auto
      then have "pm n d (ws t) = pm m' d (ws t)" if "pv m' d ?v = Some (j, u)" "ws u = c # t" for j u c t
        using Suc that pv by metis
      then show ?thesis using Some p pv by (auto simp: Let_def split: option.split list.split)
    qed
    ultimately show ?thesis using m by blast
  qed simp
qed simp

lemma pv_fuel: "2 * length s < n \<Longrightarrow> 2 * length s < m \<Longrightarrow> pv n d s = pv m d s"
  using pv_fuel_step by blast

section \<open>Printed values\<close>

fun commas :: "string list \<Rightarrow> string" where
  "commas [] = []"
| "commas [t] = t"
| "commas (t # ts) = t @ CHR '','' # commas ts"

definition array_text :: "string list \<Rightarrow> string" where
  "array_text ts = CHR ''['' # commas ts @ '']''"

text \<open>The members of an object with the texts of their values.\<close>
definition object_text :: "(string \<times> string) list \<Rightarrow> string" where
  "object_text ms = CHR ''{'' # commas (map (\<lambda>(k, t). quote k @ CHR '':'' # t) ms) @ ''}''"

definition bool_text :: "bool \<Rightarrow> string" where
  "bool_text b = (if b then ''true'' else ''false'')"

text \<open>What can follow a value inside an array or object, and at the end.\<close>
definition delim :: "string \<Rightarrow> bool" where
  "delim r = (case r of [] \<Rightarrow> True | c # _ \<Rightarrow> c \<in> {CHR '','', CHR '']'', CHR ''}''})"

text \<open>The text \<open>t\<close> is read as the value \<open>j\<close>, whatever follows, with a nesting of \<open>d\<close>.\<close>
definition prints :: "string \<Rightarrow> json \<Rightarrow> nat \<Rightarrow> bool" where
  "prints t j d =
     (t \<noteq> [] \<and> ws t = t \<and> (\<forall>n e r. 2 * length t < n \<longrightarrow> d \<le> e \<longrightarrow> delim r \<longrightarrow> pv n e (t @ r) = Some (j, r)))"

lemma ws_Cons: "c \<notin> {CHR '' '', CHR 0x09, CHR 0x0A, CHR 0x0D} \<Longrightarrow> ws (c # s) = c # s"
  by (simp add: ws_def)

lemma ws_solid: "t \<noteq> [] \<Longrightarrow> ws t = t \<Longrightarrow> ws (t @ r) = t @ r"
proof (cases t)
  case (Cons c s)
  assume "ws t = t"
  then have "c \<notin> {CHR '' '', CHR 0x09, CHR 0x0A, CHR 0x0D}"
    using Cons ws_length [of s] by (auto simp: ws_def split: if_splits)
  then show ?thesis using Cons ws_Cons by simp
qed simp

lemma starts_Cons [simp]: "starts (a # p) (c # s) = (a = c \<and> starts p s)" "starts [] s" "\<not> starts (a # p) []"
  by (auto simp: starts_def)

lemma printsI:
  assumes "ws (c # t) = c # t" "\<And>n e r. 2 * length t + 1 < n \<Longrightarrow> d \<le> e \<Longrightarrow> delim r \<Longrightarrow> pv (Suc n) e (c # t @ r) = Some (j, r)"
  shows "prints (c # t) j d"
proof -
  have "pv n e (c # t @ r) = Some (j, r)" if n: "2 * length (c # t) < n" "d \<le> e" "delim r" for n e r
  proof -
    obtain m where "n = Suc m" using n by (cases n) auto
    then show ?thesis using assms(2) [of m e r] n by simp
  qed
  then show ?thesis using assms(1) by (simp add: prints_def)
qed

lemma prints_str: "valid_utf8 s \<Longrightarrow> prints (quote s) (JStr s) 0"
  unfolding quote_def by (rule printsI) (simp_all add: ws_Cons unq_quote)

lemma prints_null: "prints ''null'' JNull 0"
  by (rule printsI) (simp_all add: ws_Cons starts_def)

lemma prints_bool: "prints (bool_text b) (JBool b) 0"
  by (cases b) (auto simp: bool_text_def ws_Cons starts_def intro!: printsI)

text \<open>Decimal numbers have no leading zero.\<close>
lemma show_nat_is_digit: "(\<forall>c \<in> set (show_nat n). is_digit c) \<and> (n \<noteq> 0 \<longrightarrow> hd (show_nat n) \<noteq> CHR ''0'')"
proof (induction n rule: show_nat.induct)
  case (1 n)
  have d: "is_digit (digit_char k) \<and> (k \<noteq> 0 \<longrightarrow> digit_char k \<noteq> CHR ''0'')" if "k < 10" for k
  proof -
    have "k \<in> {0, 1, 2, 3, 4, 5, 6, 7, 8, 9}" using that by auto
    then show ?thesis by (auto simp: is_digit_def digit_char_def)
  qed
  show ?case
  proof (cases "n < 10")
    case True
    then show ?thesis using d [of n] by (simp add: show_nat.simps [of n])
  next
    case False
    then have s: "show_nat n = show_nat (n div 10) @ [digit_char (n mod 10)]" by (simp add: show_nat.simps [of n])
    have "n div 10 \<noteq> 0" using False by simp
    then have "\<forall>c \<in> set (show_nat (n div 10)). is_digit c" "hd (show_nat (n div 10)) \<noteq> CHR ''0''" using 1 False by simp_all
    then show ?thesis using d [of "n mod 10"] by (simp add: s)
  qed
qed

lemma delim_not_digit:
  assumes "delim r"
  shows "dropWhile is_digit r = r" "takeWhile is_digit r = []" "num_frac r = Some ([], r)" "num_exp r = Some ([], r)"
  using assms by (cases r; auto simp: delim_def is_digit_def num_frac_def num_exp_def)+

lemma num_int_show_nat: "delim r \<Longrightarrow> num_int (show_nat n @ r) = Some (show_nat n, r)"
proof (cases "n = 0")
  case True
  then show ?thesis by (simp add: num_int_def show_nat.simps digit_char_def)
next
  case False
  assume r: "delim r"
  obtain c s where s: "show_nat n = c # s" by (cases "show_nat n") simp
  have "c \<noteq> CHR ''0''" "\<forall>x \<in> set (c # s). is_digit x" using show_nat_is_digit [of n] False s by auto
  moreover from this have "takeWhile is_digit (c # s @ r) = c # s" "dropWhile is_digit (c # s @ r) = r"
    using delim_not_digit [OF r] by (simp_all add: takeWhile_append dropWhile_append)
  ultimately show ?thesis using s by (simp add: num_int_def digits_def)
qed

lemma num_show_int: "delim r \<Longrightarrow> num (show_int i @ r) = Some (show_int i, r)"
proof -
  assume r: "delim r"
  obtain c s where s: "show_nat (nat i) = c # s" by (cases "show_nat (nat i)") simp
  then have "is_digit c" using show_nat_is_digit [of "nat i"] by auto
  then have "c \<noteq> CHR ''-''" by (auto simp: is_digit_def)
  then show ?thesis using r num_int_show_nat [OF r, of "nat (- i)"] num_int_show_nat [OF r, of "nat i"] s delim_not_digit [OF r]
    by (auto simp: num_def show_int_def then_parse_def prepend_def)
qed

lemma prints_int: "prints (show_int i) (JNum (show_int i)) 0"
proof -
  obtain c s where s: "show_int i = c # s"
    by (cases "show_int i") (auto simp: show_int_def split: if_splits)
  have "c = CHR ''-'' \<or> is_digit c"
    using s show_nat_is_digit [of "nat i"] by (auto simp: show_int_def split: if_splits)
  then have c: "c \<noteq> DQ" "c \<noteq> CHR ''[''" "c \<noteq> CHR ''{''" "c \<noteq> CHR ''n''" "c \<noteq> CHR ''t''" "c \<noteq> CHR ''f''"
      "c \<notin> {CHR '' '', CHR 0x09, CHR 0x0A, CHR 0x0D}"
    by (auto simp: is_digit_def)
  show ?thesis unfolding s
  proof (rule printsI)
    fix n e r assume "delim r"
    from num_show_int [OF this, of i] c s show "pv (Suc n) e (c # s @ r) = Some (JNum (c # s), r)" by simp
  qed (use c ws_Cons in simp)
qed

lemma pe_prints:
  assumes "list_all2 (\<lambda>t j. prints t j d) ts js" "ts \<noteq> []" "2 * length (commas ts) + 1 < n" "d \<le> e"
  shows "pe n e (commas ts @ CHR '']'' # r) = Some (js, r)"
  using assms
proof (induction ts js arbitrary: n rule: list_all2_induct)
  case (Cons t ts j js)
  obtain m where n: "n = Suc m" using Cons.prems(2) by (cases n) auto
  show ?case
  proof (cases ts)
    case Nil
    then show ?thesis using Cons n by (auto simp: prints_def delim_def ws_Cons)
  next
    case ts: (Cons t' ts')
    let ?r = "commas ts @ CHR '']'' # r"
    have "prints t' (hd js) d" using Cons(2) ts by (cases js) auto
    then have "t' \<noteq> []" "ws t' = t'" by (simp_all add: prints_def)
    then have w: "ws ?r = ?r" using ws_solid [of t'] ts by (cases ts') (simp_all)
    have p: "pv m e (t @ CHR '','' # ?r) = Some (j, CHR '','' # ?r)"
      using Cons(1) Cons.prems n ts by (simp add: prints_def delim_def)
    have "pe m e ?r = Some (js, r)" using Cons.IH [of m] Cons.prems n ts by simp
    then show ?thesis using p w n ts by (simp add: ws_Cons)
  qed
qed simp

lemma prints_pv: "prints t j d \<Longrightarrow> d \<le> e \<Longrightarrow> 2 * length t < n \<Longrightarrow> pv n e t = Some (j, [])"
proof -
  assume "prints t j d" "d \<le> e" "2 * length t < n"
  moreover have "delim []" by (simp add: delim_def)
  ultimately have "pv n e (t @ []) = Some (j, [])" unfolding prints_def by blast
  then show ?thesis by simp
qed

lemma prints_no_bracket: "prints t j d \<Longrightarrow> \<not> starts '']'' t"
proof
  assume "prints t j d" "starts '']'' t"
  then obtain s where s: "t = CHR '']'' # s" by (cases t) auto
  have "pv (Suc (2 * length t)) d t = Some (j, [])" by (rule prints_pv [OF \<open>prints t j d\<close>]) simp_all
  then show False by (simp add: s num_def num_int_def digits_def is_digit_def then_parse_def)
qed

lemma prints_array:
  assumes "list_all2 (\<lambda>t j. prints t j d) ts js"
  shows "prints (array_text ts) (JArr js) (Suc d)"
  unfolding array_text_def
proof (rule printsI)
  fix n e r assume n: "2 * length (commas ts @ '']'') + 1 < n" "Suc d \<le> e"
  obtain e' where e: "e = Suc e'" "d \<le> e'" using n(2) by (cases e) auto
  show "pv (Suc n) e (CHR ''['' # (commas ts @ '']'') @ r) = Some (JArr js, r)"
  proof (cases ts)
    case Nil
    then show ?thesis using assms e by (simp add: ws_Cons)
  next
    case (Cons t ts')
    have t: "t \<noteq> []" "ws t = t" using assms Cons by (auto simp: prints_def list_all2_Cons1)
    have "\<not> starts '']'' t" using assms Cons prints_no_bracket by (auto simp: list_all2_Cons1)
    then have "\<not> starts '']'' (commas ts @ CHR '']'' # r)" using Cons t by (cases t; cases ts') auto
    moreover have "ws (commas ts @ CHR '']'' # r) = commas ts @ CHR '']'' # r"
      using ws_solid [OF t] Cons by (cases ts') simp_all
    moreover have "pe n e' (commas ts @ CHR '']'' # r) = Some (js, r)"
      using pe_prints [OF assms _ _ e(2), of n r] n(1) Cons by simp
    ultimately show ?thesis using e(1) by simp
  qed
qed (simp add: ws_Cons)

lemma pm_member:
  assumes "valid_utf8 k" "pv n e (t @ q) = Some (j, q)" "ws (t @ q) = t @ q"
  shows "pm (Suc n) e (quote k @ CHR '':'' # t @ q) =
      (case ws q of
         c # u \<Rightarrow>
           if c = CHR ''}'' then Some ([(k, t, j)], u)
           else if c = CHR '','' then map_option (\<lambda>(ms, v). ((k, t, j) # ms, v)) (pm n e (ws u))
           else None
       | [] \<Rightarrow> None)"
  using unq_quote [OF assms(1)] assms(2,3) by (simp add: quote_def ws_Cons Let_def split: list.split)

lemma pm_prints:
  assumes "\<forall>(k, t, j) \<in> set ms. valid_utf8 k \<and> prints t j d" "ms \<noteq> []" "d \<le> e"
    "2 * length (commas (map (\<lambda>(k, t, j). quote k @ CHR '':'' # t) ms)) < n"
  shows "pm n e (commas (map (\<lambda>(k, t, j). quote k @ CHR '':'' # t) ms) @ CHR ''}'' # r) = Some (ms, r)"
  using assms
proof (induction ms arbitrary: n)
  case (Cons x ms)
  obtain k t j where x: "x = (k, t, j)" by (cases x)
  obtain m where n: "n = Suc m" using Cons.prems(4) by (cases n) auto
  have k: "valid_utf8 k" and t: "prints t j d" using Cons.prems(1) x by auto
  let ?more = "case ms of [] \<Rightarrow> CHR ''}'' # r
    | _ \<Rightarrow> CHR '','' # commas (map (\<lambda>(k, t, j). quote k @ CHR '':'' # t) ms) @ CHR ''}'' # r"
  have all: "commas (map (\<lambda>(k, t, j). quote k @ CHR '':'' # t) (x # ms)) @ CHR ''}'' # r = quote k @ CHR '':'' # t @ ?more"
    by (cases ms) (simp_all add: x)
  have len: "2 * length t < m" using Cons.prems(4) n by (cases ms) (simp_all add: x)
  have "pv m e (t @ ?more) = Some (j, ?more)"
    using t len Cons.prems(3) by (cases ms) (auto simp: prints_def delim_def)
  moreover have "ws (t @ ?more) = t @ ?more" using t ws_solid by (simp add: prints_def)
  ultimately have step: "pm (Suc m) e (quote k @ CHR '':'' # t @ ?more) =
      (case ws ?more of
         c # u \<Rightarrow>
           if c = CHR ''}'' then Some ([x], u)
           else if c = CHR '','' then map_option (\<lambda>(ms, v). (x # ms, v)) (pm m e (ws u))
           else None
       | [] \<Rightarrow> None)"
    unfolding x by (rule pm_member [OF k])
  show ?case
  proof (cases ms)
    case Nil
    then show ?thesis using step all n by (simp add: ws_Cons)
  next
    case ms: (Cons y ys)
    let ?r = "commas (map (\<lambda>(k, t, j). quote k @ CHR '':'' # t) ms) @ CHR ''}'' # r"
    have "ws ?r = ?r" using ms by (cases ys) (auto simp: quote_def ws_Cons split: prod.split)
    moreover have "pm m e ?r = Some (ms, r)" using Cons.IH [of m] Cons.prems n ms by (simp add: x)
    ultimately show ?thesis using step all n ms by (simp add: ws_Cons)
  qed
qed simp

lemma prints_object:
  assumes "\<forall>(k, t, j) \<in> set ms. valid_utf8 k \<and> prints t j d"
  shows "prints (object_text (map (\<lambda>(k, t, j). (k, t)) ms)) (JObj ms) (Suc d)"
proof -
  let ?b = "commas (map (\<lambda>(k, t, j). quote k @ CHR '':'' # t) ms)"
  have o: "object_text (map (\<lambda>(k, t, j). (k, t)) ms) = CHR ''{'' # ?b @ ''}''"
    by (simp add: object_text_def comp_def case_prod_unfold)
  show ?thesis unfolding o
  proof (rule printsI)
    fix n e r assume n: "2 * length (?b @ ''}'') + 1 < n" "Suc d \<le> e"
    obtain e' where e: "e = Suc e'" "d \<le> e'" using n(2) by (cases e) auto
    show "pv (Suc n) e (CHR ''{'' # (?b @ ''}'') @ r) = Some (JObj ms, r)"
    proof (cases ms)
      case Nil
      then show ?thesis using e by (simp add: ws_Cons)
    next
      case (Cons y ys)
      have "\<exists>s. ?b = DQ # s" using Cons by (cases y; cases ys) (simp_all add: quote_def)
      then obtain s where "?b = DQ # s" by blast
      then have "ws (?b @ CHR ''}'' # r) = ?b @ CHR ''}'' # r" "\<not> starts ''}'' (?b @ CHR ''}'' # r)"
        by (simp_all add: ws_Cons)
      moreover have "pm n e' (?b @ CHR ''}'' # r) = Some (ms, r)"
        using pm_prints [OF assms _ e(2), of n r] n(1) Cons by simp
      ultimately show ?thesis using e(1) by simp
    qed
  qed (simp add: ws_Cons)
qed

text \<open>A printed value is the value of its text.\<close>
lemma parse_prints: "prints t j d \<Longrightarrow> d \<le> maxNestingDepth \<Longrightarrow> parse t = Some j"
  using prints_pv [of t j d maxNestingDepth "2 * length t + 1"] by (simp add: parse_def prints_def ws_def)

section \<open>Compact texts\<close>

text \<open>
  The output of a method \<^verbatim>\<open>MarshalJSON\<close> is checked and compacted: white space outside of literals is dropped, and the
  characters of HTML, U+2028 and U+2029 are escaped.
\<close>
datatype scan = Outside | Inside | Escape

function squeeze :: "scan \<Rightarrow> string \<Rightarrow> string" where
  "squeeze q [] = []"
| "squeeze q (c # s) =
     (if c \<in> set ''<>&'' then BS # ''u00'' @ [hex_digit (code c div 16), hex_digit (code c mod 16)] @ squeeze q s
      else if c = CHR 0xE2 \<and> take 2 s = [CHR 0x80, CHR 0xA8] then BS # ''u2028'' @ squeeze q (drop 2 s)
      else if c = CHR 0xE2 \<and> take 2 s = [CHR 0x80, CHR 0xA9] then BS # ''u2029'' @ squeeze q (drop 2 s)
      else case q of
             Outside \<Rightarrow>
               if c \<in> {CHR '' '', CHR 0x09, CHR 0x0A, CHR 0x0D} then squeeze Outside s
               else c # squeeze (if c = DQ then Inside else Outside) s
           | Inside \<Rightarrow> c # squeeze (if c = DQ then Outside else if c = BS then Escape else Inside) s
           | Escape \<Rightarrow> c # squeeze Inside s)"
  by pat_completeness auto
termination
  by (relation "measure (\<lambda>(q, s). length s)") auto

definition compact :: "string \<Rightarrow> string option" where
  "compact s = (case parse s of None \<Rightarrow> None | Some _ \<Rightarrow> Some (squeeze Outside s))"

text \<open>A text that is compact already.\<close>
definition squeezed :: "string \<Rightarrow> bool" where
  "squeezed t = (\<forall>r. squeeze Outside (t @ r) = t @ squeeze Outside r)"

lemma squeezed_Nil [simp]: "squeezed []"
  by (simp add: squeezed_def)

lemma squeezed_append: "squeezed a \<Longrightarrow> squeezed b \<Longrightarrow> squeezed (a @ b)"
  by (simp add: squeezed_def)

lemma squeezed_Cons:
  "c \<notin> set ''<>&'' \<Longrightarrow> c \<noteq> CHR 0xE2 \<Longrightarrow> c \<notin> {CHR '' '', CHR 0x09, CHR 0x0A, CHR 0x0D} \<Longrightarrow> c \<noteq> DQ \<Longrightarrow> squeezed t \<Longrightarrow>
     squeezed (c # t)"
  by (simp add: squeezed_def)

lemma squeezed_digits: "(\<forall>c \<in> set t. is_digit c) \<Longrightarrow> squeezed t"
  by (induction t) (auto simp: is_digit_def intro!: squeezed_Cons)

lemma squeezed_int: "squeezed (show_int i)"
  using show_nat_is_digit by (simp add: show_int_def squeezed_Cons squeezed_digits)

lemma squeezed_bool: "squeezed (bool_text b)"
  by (cases b) (auto simp: bool_text_def intro!: squeezed_Cons)

lemma squeezed_commas: "(\<And>t. t \<in> set ts \<Longrightarrow> squeezed t) \<Longrightarrow> squeezed (commas ts)"
proof (induction ts rule: commas.induct)
  case (3 t u ts)
  then show ?case by (auto intro!: squeezed_append squeezed_Cons)
qed simp_all

text \<open>Inside of a literal.\<close>
lemma squeeze_esc:
  assumes "code c < 0x80"
  shows "squeeze Inside (esc c @ r) = esc c @ squeeze Inside r"
proof -
  have h: "hex_digit d \<noteq> DQ \<and> hex_digit d \<noteq> BS \<and> hex_digit d \<notin> set ''<>&'' \<and> hex_digit d \<noteq> CHR 0xE2" if "d < 16" for d
  proof -
    have "d \<in> set [0..<16]" using that by simp
    also have "[0..<16] = [0,1,2,3,4,5,6,7,8,9,10,11,12,13,14,15]" by (simp add: upt_rec)
    finally show ?thesis by (auto simp: hex_digit_def)
  qed
  have "code c div 16 < 16" "code c mod 16 < 16" using assms by simp_all
  from h [OF this(1)] h [OF this(2)] show ?thesis using assms by (auto simp: esc_def)
qed

lemma squeeze_cont: "(\<forall>c \<in> set x. cont c) \<Longrightarrow> squeeze Inside (x @ r) = x @ squeeze Inside r"
proof (induction x)
  case (Cons c x)
  then have "c \<noteq> DQ" "c \<noteq> BS" "c \<notin> set ''<>&''" "c \<noteq> CHR 0xE2" by (auto simp: cont_def)
  then show ?case using Cons by simp
qed simp

lemma rune_shape:
  assumes "rune_len (c # r) = Suc k" "\<not> code c < 0x80"
  obtains b y where "r = b # y" "cont b" "k = 1" "code c \<le> 0xDF"
  | a b y where "r = a # b # y" "cont a" "cont b" "k = 2"
  | a b d y where "r = a # b # d # y" "cont a" "cont b" "cont d" "k = 3" "0xF0 \<le> code c"
proof (cases "code c \<le> 0xDF")
  case True
  then show ?thesis using assms that(1) by (cases r) (auto simp: rune_len.simps split: if_splits)
next
  case False
  show ?thesis
  proof (cases "code c \<le> 0xEF")
    case True
    then show ?thesis using assms False that(2)
      by (cases r; cases "tl r") (auto simp: rune_len.simps cont_def split: if_splits)
  next
    case 2: False
    then show ?thesis using assms False that(3)
      by (cases r; cases "tl r"; cases "tl (tl r)") (auto simp: rune_len.simps cont_def split: if_splits)
  qed
qed

lemma rune_cont:
  assumes "rune_len (c # r) = Suc k" "\<not> code c < 0x80"
  shows "\<forall>x \<in> set (take k r). cont x" "c = CHR 0xE2 \<Longrightarrow> k = 2"
  using assms by (auto elim!: rune_shape simp: numeral_eq_Suc)

lemma squeeze_quote_body: "squeeze Inside (quote_body s @ DQ # r) = quote_body s @ DQ # squeeze Outside r"
proof (induction s rule: quote_body.induct)
  case (1 s)
  show ?case
  proof (cases s)
    case (Cons c x)
    consider "code c < 0x80" | "\<not> code c < 0x80" "rune_len s = 0"
      | "\<not> code c < 0x80" "rune_len s \<noteq> 0" "take 3 s = [CHR 0xE2, CHR 0x80, CHR 0xA8] \<or> take 3 s = [CHR 0xE2, CHR 0x80, CHR 0xA9]"
      | k where "\<not> code c < 0x80" "rune_len s = Suc k" "take 3 s \<noteq> [CHR 0xE2, CHR 0x80, CHR 0xA8]" "take 3 s \<noteq> [CHR 0xE2, CHR 0x80, CHR 0xA9]"
      by (cases "rune_len s") auto
    then show ?thesis
    proof cases
      case 1
      then show ?thesis using "1.IH"(1) Cons squeeze_esc by (simp add: quote_body.simps [of "c # x"])
    next
      case 2
      then show ?thesis using "1.IH"(2) Cons by (simp add: quote_body.simps [of "c # x"])
    next
      case 3
      then show ?thesis using "1.IH"(3,4) Cons by (auto simp: quote_body.simps [of "c # x"])
    next
      case (4 k)
      have q: "quote_body (c # x) = c # take k x @ quote_body (drop k x)"
        using 4 Cons by (auto simp: quote_body.simps [of "c # x"] Let_def)
      have IH: "squeeze Inside (quote_body (drop k x) @ DQ # r) = quote_body (drop k x) @ DQ # squeeze Outside r"
        using "1.IH"(5) [OF Cons 4(1) refl _ 4(3,4)] 4(2) Cons by simp
      have c: "c \<noteq> DQ" "c \<noteq> BS" "c \<notin> set ''<>&''" using 4(1) by auto
      have "c \<noteq> CHR 0xE2 \<or> take 2 (take k x @ y) \<noteq> [CHR 0x80, CHR 0xA8] \<and> take 2 (take k x @ y) \<noteq> [CHR 0x80, CHR 0xA9]" for y
        using 4 rune_cont(2) [of c x k] rune_len_le [of s] Cons by (auto simp: numeral_eq_Suc)
      then have "squeeze Inside (c # take k x @ y) = c # squeeze Inside (take k x @ y)" for y using c by auto
      then show ?thesis using squeeze_cont [OF rune_cont(1) [of c x k]] IH 4(1,2) Cons by (simp add: q del: squeeze.simps)
    qed
  qed (simp add: quote_body.simps)
qed

lemma squeezed_quote: "squeezed (quote s)"
  using squeeze_quote_body by (simp add: squeezed_def quote_def)

lemma squeezed_array: "(\<And>t. t \<in> set ts \<Longrightarrow> squeezed t) \<Longrightarrow> squeezed (array_text ts)"
  unfolding array_text_def by (auto intro!: squeezed_Cons squeezed_append squeezed_commas)

lemma squeezed_object: "(\<And>k t. (k, t) \<in> set ms \<Longrightarrow> squeezed t) \<Longrightarrow> squeezed (object_text ms)"
  unfolding object_text_def by (auto intro!: squeezed_Cons squeezed_append squeezed_commas squeezed_quote)

text \<open>A printed value that is compact stays as it is.\<close>
lemma compact_prints: "prints t j d \<Longrightarrow> d \<le> maxNestingDepth \<Longrightarrow> squeezed t \<Longrightarrow> compact t = Some t"
  using parse_prints by (auto simp: compact_def squeezed_def dest!: spec [of _ "[]"])

end
