(* ===== verification/JsonFields.thy ===== *)
theory JsonFields
  imports Json
begin

text \<open>
  How \<^verbatim>\<open>encoding/json\<close> writes and reads a structure, given how it writes and reads the values of its fields. What is
  relied on of the values is the locale \<open>value_codec\<close>; it is interpreted on the values in messages (theory \<open>Wire\<close>) and on
  the ones in credentials (theory \<open>Token\<close>).
\<close>

section \<open>Fields\<close>

text \<open>A field: its name, whether it is tagged with \<^verbatim>\<open>omitempty\<close>, its value.\<close>
type_synonym 'v field = "string \<times> bool \<times> 'v"

text \<open>The fields that are written, those tagged with \<^verbatim>\<open>omitempty\<close> only if they are not empty (\<open>emp\<close>), and their text.\<close>
definition sent_fields :: "('v \<Rightarrow> bool) \<Rightarrow> 'v field list \<Rightarrow> 'v field list" where
  "sent_fields emp fs = filter (\<lambda>(n, e, v). \<not> (e \<and> emp v)) fs"

definition fields_text :: "('v \<Rightarrow> bool) \<Rightarrow> ('v \<Rightarrow> string) \<Rightarrow> 'v field list \<Rightarrow> string" where
  "fields_text emp vt fs = object_text (map (\<lambda>(n, e, v). (n, vt v)) (sent_fields emp fs))"

text \<open>
  The names of members are compared without regard to case; the letters K and S have the Kelvin sign and the long s as a
  further variant.
\<close>
definition upper :: "char \<Rightarrow> char" where
  "upper c = (if 97 \<le> code c \<and> code c \<le> 122 then char_of (code c - 32) else c)"

fun fold_name :: "string \<Rightarrow> string" where
  "fold_name [] = []"
| "fold_name (c # s) =
     (if c = CHR 0xC5 \<and> take 1 s = [CHR 0xBF] then CHR ''S'' # fold_name (drop 1 s)
      else if c = CHR 0xE2 \<and> take 2 s = [CHR 0x84, CHR 0xAA] then CHR ''K'' # fold_name (drop 2 s)
      else upper c # fold_name s)"

text \<open>
  A member goes into the first field with its name; a member with another name is ignored. \<open>sv\<close> decodes a value into a field,
  given its text and the value that was read; \<open>None\<close> is an \<^verbatim>\<open>UnmarshalTypeError\<close>.
\<close>
fun set_field :: "('v \<Rightarrow> string \<Rightarrow> json \<Rightarrow> 'v option) \<Rightarrow> string \<Rightarrow> string \<Rightarrow> json \<Rightarrow> 'v field list \<Rightarrow> 'v field list option" where
  "set_field sv k t j [] = Some []"
| "set_field sv k t j ((n, e, v) # fs) =
     (if fold_name n = fold_name k then map_option (\<lambda>v'. (n, e, v') # fs) (sv v t j)
      else map_option (Cons (n, e, v)) (set_field sv k t j fs))"

fun set_fields ::
    "('v \<Rightarrow> string \<Rightarrow> json \<Rightarrow> 'v option) \<Rightarrow> 'v field list \<Rightarrow> (string \<times> string \<times> json) list \<Rightarrow> 'v field list option" where
  "set_fields sv fs [] = Some fs"
| "set_fields sv fs ((k, t, j) # ms) =
     (case set_field sv k t j fs of None \<Rightarrow> None | Some fs' \<Rightarrow> set_fields sv fs' ms)"

text \<open>\<^verbatim>\<open>json.Unmarshal\<close> into a structure.\<close>
definition read_fields :: "('v \<Rightarrow> string \<Rightarrow> json \<Rightarrow> 'v option) \<Rightarrow> 'v field list \<Rightarrow> string \<Rightarrow> 'v field list option" where
  "read_fields sv fs s =
     (case parse s of
        Some (JObj ms) \<Rightarrow> set_fields sv fs ms
      | Some JNull \<Rightarrow> Some fs
      | _ \<Rightarrow> None)"

text \<open>The value of a field, by its name.\<close>
definition field_val :: "'v field list \<Rightarrow> string \<Rightarrow> 'v option" where
  "field_val fs n = map_of (map (\<lambda>(n, e, v). (n, v)) fs) n"


section \<open>Reading back what was written\<close>

text \<open>
  A field \<open>b\<close> before decoding and the field \<open>f\<close> that was sent: a field that is left out because it is empty has to have that
  value already.
\<close>
definition fits ::
    "('v \<Rightarrow> 'v \<Rightarrow> bool) \<Rightarrow> ('v \<Rightarrow> bool) \<Rightarrow> ('v \<Rightarrow> bool) \<Rightarrow> 'v field \<Rightarrow> 'v field \<Rightarrow> bool" where
  "fits ok emp plain b f =
     (case (b, f) of
        ((n, e, z), (n', e', v)) \<Rightarrow>
          n = n' \<and> e = e' \<and> valid_utf8 n \<and> ok z v \<and> (e \<and> emp v \<longrightarrow> z = v) \<and> (\<not> e \<longrightarrow> plain v))"

fun member :: "('v \<Rightarrow> string) \<Rightarrow> ('v \<Rightarrow> json) \<Rightarrow> 'v field \<Rightarrow> string \<times> string \<times> json" where
  "member vt vj (n, e, v) = (n, vt v, vj v)"

fun receive :: "('v \<Rightarrow> 'v) \<Rightarrow> 'v field \<Rightarrow> 'v field" where
  "receive rcv (n, e, v) = (n, e, rcv v)"

lemma member_eq: "member vt vj f = (fst f, vt (snd (snd f)), vj (snd (snd f)))"
  by (cases f) simp

lemma set_field_skip:
  "fold_name k \<notin> (\<lambda>f. fold_name (fst f)) ` set pre \<Longrightarrow>
     set_field sv k t j (pre @ fs) = map_option (\<lambda>x. pre @ x) (set_field sv k t j fs)"
  by (induction pre; cases "set_field sv k t j fs") auto

lemma map_fold_fst: "map (\<lambda>f. fold_name (fst f)) fs = map fold_name (map fst fs)"
  by simp

text \<open>
  What is relied on of the values: the text \<open>vt v\<close> is read as \<open>vj v\<close> with a nesting of at most \<open>depth\<close>, and decoding it into a field with the value
  \<open>z\<close> gives \<open>rcv v\<close>, for values with \<open>ok z v\<close> that are \<open>plain\<close> or not empty.
\<close>
locale value_codec =
  fixes sv :: "'v \<Rightarrow> string \<Rightarrow> json \<Rightarrow> 'v option"
    and vt :: "'v \<Rightarrow> string"
    and vj :: "'v \<Rightarrow> json"
    and emp :: "'v \<Rightarrow> bool"
    and plain :: "'v \<Rightarrow> bool"
    and ok :: "'v \<Rightarrow> 'v \<Rightarrow> bool"
    and rcv :: "'v \<Rightarrow> 'v"
    and depth :: nat
  assumes value_prints: "ok z v \<Longrightarrow> prints (vt v) (vj v) depth"
    and value_read: "ok z v \<Longrightarrow> \<not> emp v \<or> plain v \<Longrightarrow> sv z (vt v) (vj v) = Some (rcv v)"
    and value_empty: "emp v \<Longrightarrow> rcv v = v"
    and depth_bound: "depth < maxNestingDepth"
begin

lemma set_fields_member:
  assumes "list_all2 (fits ok emp plain) bs fs" "distinct (map (\<lambda>f. fold_name (fst f)) (pre @ fs))"
  shows "set_fields sv (pre @ bs) (map (member vt vj) (sent_fields emp fs)) = Some (pre @ map (receive rcv) fs)"
  using assms
proof (induction bs fs arbitrary: pre rule: list_all2_induct)
  case (Cons b bs f fs)
  obtain n e z v where b: "b = (n, e, z)" and f: "f = (n, e, v)"
    using Cons(1) by (cases b; cases f) (auto simp: fits_def)
  have fresh: "fold_name n \<notin> (\<lambda>f. fold_name (fst f)) ` set pre" using Cons.prems f by auto
  have IH: "set_fields sv (pre @ (n, e, rcv v) # bs) (map (member vt vj) (sent_fields emp fs)) =
      Some (pre @ (n, e, rcv v) # map (receive rcv) fs)"
    using Cons.IH [of "pre @ [(n, e, rcv v)]"] Cons.prems f by simp
  show ?case
  proof (cases "e \<and> emp v")
    case True
    then have "z = rcv v" using Cons(1) b f value_empty by (simp add: fits_def)
    then show ?thesis using IH True b f by (simp add: sent_fields_def)
  next
    case False
    have "sv z (vt v) (vj v) = Some (rcv v)"
      by (rule value_read) (use Cons(1) False b f in \<open>auto simp: fits_def\<close>)
    then show ?thesis using IH False b f set_field_skip [OF fresh] by (simp add: sent_fields_def)
  qed
qed (simp add: sent_fields_def)

lemma fits_member: "fits ok emp plain b f \<Longrightarrow> case member vt vj f of (k, t, j) \<Rightarrow> valid_utf8 k \<and> prints t j depth"
  using value_prints by (cases f) (auto simp: fits_def)

lemma prints_fields:
  assumes "list_all2 (fits ok emp plain) bs fs"
  shows "prints (fields_text emp vt fs) (JObj (map (member vt vj) (sent_fields emp fs))) (Suc depth)"
proof -
  have "\<forall>f \<in> set fs. \<exists>b. fits ok emp plain b f" using assms(1) by (metis in_set_conv_nth list_all2_conv_all_nth)
  then have "\<forall>(k, t, j) \<in> set (map (member vt vj) (sent_fields emp fs)). valid_utf8 k \<and> prints t j depth"
    using fits_member by (fastforce simp: sent_fields_def)
  from prints_object [OF this] show ?thesis
    by (simp add: fields_text_def member_eq comp_def case_prod_unfold)
qed

text \<open>Decoding what was encoded gives the fields that were sent.\<close>
lemma read_fields_text:
  assumes "list_all2 (fits ok emp plain) bs fs" "distinct (map fold_name (map fst fs))"
  shows "read_fields sv bs (fields_text emp vt fs) = Some (map (receive rcv) fs)"
proof -
  have "parse (fields_text emp vt fs) = Some (JObj (map (member vt vj) (sent_fields emp fs)))"
    using parse_prints [OF prints_fields [OF assms(1)]] depth_bound by simp
  then show ?thesis using set_fields_member [of bs fs "[]"] assms by (simp add: read_fields_def map_fold_fst [symmetric] del: map_map)
qed

end

lemma squeezed_fields: "(\<And>n e v. (n, e, v) \<in> set fs \<Longrightarrow> squeezed (vt v)) \<Longrightarrow> squeezed (fields_text emp vt fs)"
  unfolding fields_text_def sent_fields_def by (force intro!: squeezed_object)

end
