(* ===== verification/Wire.thy ===== *)
theory Wire
  imports JsonFields Client "HOL-Library.Char_ord" "HOL-Library.List_Lexorder" "HOL-Library.AList"
begin

text \<open>
  The messages as they are on the wire: what \<^verbatim>\<open>JsonCodec\<close> makes of the structures of \<^verbatim>\<open>pkg/messages\<close> and of the
  structures that other packages put into a message, by their JSON tags, and what it makes of a text it receives.

  The structures of the other theories get here the functions that are their \<^verbatim>\<open>marshal\<close> and \<^verbatim>\<open>unmarshal\<close>
  arguments. The texts of errors are an argument. What decoding a \<^verbatim>\<open>NotifyMessage\<close> gives is an argument too: its field \<^verbatim>\<open>Body\<close> is
  an \<^verbatim>\<open>interface{}\<close>, and nothing in the repository decodes one.
\<close>

section \<open>Fields\<close>

text \<open>
  The value of a field: a string, an integer of a width, a flag, a slice of strings with the elements that are left
  between its length and its capacity, a map of strings, the text of a \<^verbatim>\<open>Data\<close> and the body of a notification.
\<close>
datatype fval =
    VStr string
  | VInt nat int
  | VBool bool
  | VStrs "string list" "string list"
  | VMap "(string \<times> string) list"
  | VData "string option"
  | VBody notify_body

definition is_empty :: "fval \<Rightarrow> bool" where
  "is_empty v =
     (case v of
        VStr s \<Rightarrow> s = ''''
      | VInt b i \<Rightarrow> i = 0
      | VBool b \<Rightarrow> \<not> b
      | VStrs xs spare \<Rightarrow> xs = []
      | VMap m \<Rightarrow> m = []
      | VData t \<Rightarrow> t = None
      | VBody _ \<Rightarrow> False)"

text \<open>\<open>GetSubscribers\<close> returns nil when there is no subscriber.\<close>
definition body_text :: "notify_body \<Rightarrow> string" where
  "body_text b =
     (case b of
        BodyUid u \<Rightarrow> object_text [(''uid'', quote u)]
      | BodyMembers us \<Rightarrow> object_text [(''members'', if us = [] then ''null'' else array_text (map quote us))])"

text \<open>The members of a map are sent_fields in the order of their keys.\<close>
definition val_text :: "fval \<Rightarrow> string" where
  "val_text v =
     (case v of
        VStr s \<Rightarrow> quote s
      | VInt b i \<Rightarrow> show_int i
      | VBool b \<Rightarrow> bool_text b
      | VStrs xs spare \<Rightarrow> array_text (map quote xs)
      | VMap m \<Rightarrow> object_text (map (\<lambda>(k, x). (k, quote x)) (sort_key fst m))
      | VData t \<Rightarrow> (case t of None \<Rightarrow> ''null'' | Some t \<Rightarrow> t)
      | VBody b \<Rightarrow> body_text b)"

text \<open>The elements of an array of strings; \<^verbatim>\<open>null\<close> leaves what is in the memory of the slice.\<close>
fun set_strs :: "string list \<Rightarrow> json list \<Rightarrow> string list option" where
  "set_strs mem [] = Some []"
| "set_strs mem (j # js) =
     (case (case j of JNull \<Rightarrow> Some (case mem of [] \<Rightarrow> '''' | x # _ \<Rightarrow> x) | JStr x \<Rightarrow> Some x | _ \<Rightarrow> None) of
        None \<Rightarrow> None
      | Some x \<Rightarrow> map_option (Cons x) (set_strs (tl mem) js))"

text \<open>The members of an object for a map of strings; \<^verbatim>\<open>null\<close> is the empty string.\<close>
fun set_map :: "(string \<times> string) list \<Rightarrow> (string \<times> string \<times> json) list \<Rightarrow> (string \<times> string) list option" where
  "set_map m [] = Some m"
| "set_map m ((k, t, j) # ms) =
     (case j of
        JNull \<Rightarrow> set_map (AList.update k '''' m) ms
      | JStr x \<Rightarrow> set_map (AList.update k x m) ms
      | _ \<Rightarrow> None)"

definition in_width :: "nat \<Rightarrow> int \<Rightarrow> bool" where
  "in_width b i = (- (2 ^ (b - 1)) \<le> i \<and> i < 2 ^ (b - 1))"

text \<open>
  A value decoded into a field; \<open>None\<close> is an \<^verbatim>\<open>UnmarshalTypeError\<close>. \<^verbatim>\<open>null\<close> leaves strings, numbers and flags as they are and
  makes slices, maps and pointers nil; the \<^verbatim>\<open>UnmarshalJSON\<close> of \<^verbatim>\<open>Data\<close> gets the text.
\<close>
definition set_val :: "fval \<Rightarrow> string \<Rightarrow> json \<Rightarrow> fval option" where
  "set_val v t j =
     (case v of
        VStr s \<Rightarrow> (case j of JNull \<Rightarrow> Some v | JStr x \<Rightarrow> Some (VStr x) | _ \<Rightarrow> None)
      | VInt b i \<Rightarrow>
          (case j of
             JNull \<Rightarrow> Some v
           | JNum x \<Rightarrow> (case ParseInt x of Inl _ \<Rightarrow> None | Inr k \<Rightarrow> if in_width b k then Some (VInt b k) else None)
           | _ \<Rightarrow> None)
      | VBool b \<Rightarrow> (case j of JNull \<Rightarrow> Some v | JBool x \<Rightarrow> Some (VBool x) | _ \<Rightarrow> None)
      | VStrs xs spare \<Rightarrow>
          (case j of
             JNull \<Rightarrow> Some (VStrs [] [])
           | JArr js \<Rightarrow>
               (if js = [] then Some (VStrs [] [])
                else map_option (\<lambda>ys. VStrs ys (drop (length js) (xs @ spare))) (set_strs (xs @ spare) js))
           | _ \<Rightarrow> None)
      | VMap m \<Rightarrow> (case j of JNull \<Rightarrow> Some (VMap []) | JObj ms \<Rightarrow> map_option VMap (set_map m ms) | _ \<Rightarrow> None)
      | VData d \<Rightarrow> Some (VData (if j = JNull then None else Some t))
      | VBody b \<Rightarrow> None)"

section \<open>The structures and their tags\<close>

definition fields_Hello :: "Hello \<Rightarrow> fval field list" where
  "fields_Hello x =
     [(''client_version'', True, VStr (ClientVersion x)), (''client_name'', True, VStr (ClientName x)),
      (''client_type'', True, VStr (ClientType x))]"

definition fields_ServerHello :: "ServerHello \<Rightarrow> fval field list" where
  "fields_ServerHello x =
     [(''server_version'', True, VStr (sh_ServerVersion x)), (''temp_id'', True, VStr (sh_TempID x)),
      (''heartbeat_interval'', True, VInt 64 (sh_HeartbeatInterval x)), (''protocols'', True, VStrs (sh_Protocols x) [])]"

definition fields_ChatMessage :: "ChatMessage \<Rightarrow> fval field list" where
  "fields_ChatMessage x =
     [(''cliMid'', True, VStr (cm_CliMid x)), (''mid'', True, VInt 64 (cm_Mid x)), (''seq'', True, VInt 64 (cm_Seq x)),
      (''from'', True, VStr (cm_From x)), (''to'', True, VStr (cm_To x)), (''type'', True, VInt 32 (cm_Type x)),
      (''content'', True, VStr (cm_Content x)), (''sendAt'', True, VInt 64 (cm_SendAt x))]"

definition fields_AckRequest :: "AckRequest \<Rightarrow> fval field list" where
  "fields_AckRequest x =
     [(''cli_mid'', True, VStr (ar_CliMid x)), (''seq'', True, VInt 64 (ar_Seq x)), (''mid'', True, VInt 64 (ar_Mid x)),
      (''from'', True, VStr (ar_From x)), (''to'', True, VStr (ar_To x))]"

definition fields_AckGroupMessage :: "AckGroupMessage \<Rightarrow> fval field list" where
  "fields_AckGroupMessage x =
     [(''cli_mid'', True, VStr (ag_CliMid x)), (''gid'', True, VInt 64 (ag_Gid x)), (''mid'', True, VInt 64 (ag_Mid x)),
      (''seq'', True, VInt 64 (ag_Seq x))]"

definition fields_AckMessage :: "AckMessage \<Rightarrow> fval field list" where
  "fields_AckMessage x =
     [(''cli_mid'', True, VStr (am_CliMid x)), (''mid'', True, VInt 64 (am_Mid x)), (''from'', True, VStr (am_From x)),
      (''seq'', True, VInt 64 (am_Seq x))]"

definition fields_AckNotify :: "AckNotify \<Rightarrow> fval field list" where
  "fields_AckNotify x =
     [(''cli_mid'', True, VStr (an_CliMid x)), (''seq'', True, VInt 64 (an_Seq x)), (''mid'', True, VInt 64 (an_Mid x)),
      (''from'', True, VStr (an_From x))]"

definition fields_KickOutNotify :: "KickOutNotify \<Rightarrow> fval field list" where
  "fields_KickOutNotify x =
     [(''device_id'', True, VStr (ko_DeviceId x)), (''device_name'', True, VStr (ko_DeviceName x))]"

definition fields_EncryptedCredential :: "EncryptedCredential \<Rightarrow> fval field list" where
  "fields_EncryptedCredential x =
     [(''version'', False, VInt 64 (ec_Version x)), (''credential'', False, VStr (ec_Credential x))]"

definition fields_NotifyMessage :: "NotifyMessage \<Rightarrow> fval field list" where
  "fields_NotifyMessage x =
     [(''from'', False, VStr (nm_From x)), (''type'', False, VInt 64 (nm_Type x)), (''body'', False, VBody (nm_Body x))]"

definition fields_UserStateData :: "UserStateData \<Rightarrow> fval field list" where
  "fields_UserStateData x = [(''uid'', True, VStr (us_Uid x)), (''online'', True, VBool (us_Online x))]"

definition fields_StateSubscribeData :: "StateSubscribeData \<Rightarrow> fval field list" where
  "fields_StateSubscribeData x = [(''uids'', True, VStrs (ss_Uids x) [])]"

fun struct_fields :: "gostruct \<Rightarrow> fval field list" where
  "struct_fields (SHello x) = fields_Hello x"
| "struct_fields (SServerHello x) = fields_ServerHello x"
| "struct_fields (SChat x) = fields_ChatMessage x"
| "struct_fields (SAckRequest x) = fields_AckRequest x"
| "struct_fields (SAckGroup x) = fields_AckGroupMessage x"
| "struct_fields (SAckMessage x) = fields_AckMessage x"
| "struct_fields (SAckNotify x) = fields_AckNotify x"
| "struct_fields (SKickOut x) = fields_KickOutNotify x"
| "struct_fields (SCredential x) = fields_EncryptedCredential x"
| "struct_fields (SNotify x) = fields_NotifyMessage x"
| "struct_fields (SUserState x) = fields_UserStateData x"
| "struct_fields (SStateSub x) = fields_StateSubscribeData x"

text \<open>The zero value of a type.\<close>
fun zero_struct :: "gotype \<Rightarrow> gostruct" where
  "zero_struct THello = SHello \<lparr>ClientVersion = '''', ClientName = '''', ClientType = ''''\<rparr>"
| "zero_struct TServerHello = SServerHello \<lparr>sh_ServerVersion = '''', sh_TempID = '''', sh_HeartbeatInterval = 0, sh_Protocols = []\<rparr>"
| "zero_struct TChat = SChat \<lparr>cm_CliMid = '''', cm_Mid = 0, cm_Seq = 0, cm_From = '''', cm_To = '''', cm_Type = 0, cm_Content = '''',
     cm_SendAt = 0\<rparr>"
| "zero_struct TAckRequest = SAckRequest \<lparr>ar_CliMid = '''', ar_Seq = 0, ar_Mid = 0, ar_From = '''', ar_To = ''''\<rparr>"
| "zero_struct TAckGroup = SAckGroup \<lparr>ag_CliMid = '''', ag_Gid = 0, ag_Mid = 0, ag_Seq = 0\<rparr>"
| "zero_struct TAckMessage = SAckMessage \<lparr>am_CliMid = '''', am_Mid = 0, am_From = '''', am_Seq = 0\<rparr>"
| "zero_struct TAckNotify = SAckNotify \<lparr>an_CliMid = '''', an_Seq = 0, an_Mid = 0, an_From = ''''\<rparr>"
| "zero_struct TKickOut = SKickOut \<lparr>ko_DeviceId = '''', ko_DeviceName = ''''\<rparr>"
| "zero_struct TCredential = SCredential \<lparr>ec_Version = 0, ec_Credential = ''''\<rparr>"
| "zero_struct TNotify = SNotify \<lparr>nm_From = '''', nm_Type = 0, nm_Body = BodyUid ''''\<rparr>"
| "zero_struct TUserState = SUserState \<lparr>us_Uid = '''', us_Online = False\<rparr>"
| "zero_struct TStateSub = SStateSub \<lparr>ss_Uids = []\<rparr>"

text \<open>The values of the fields of a structure, by their names.\<close>
definition fstr :: "fval field list \<Rightarrow> string \<Rightarrow> string" where
  "fstr fs n = (case field_val fs n of Some (VStr s) \<Rightarrow> s | _ \<Rightarrow> '''')"

definition fint :: "fval field list \<Rightarrow> string \<Rightarrow> int" where
  "fint fs n = (case field_val fs n of Some (VInt b i) \<Rightarrow> i | _ \<Rightarrow> 0)"

definition fbool :: "fval field list \<Rightarrow> string \<Rightarrow> bool" where
  "fbool fs n = (case field_val fs n of Some (VBool b) \<Rightarrow> b | _ \<Rightarrow> False)"

definition fstrs :: "fval field list \<Rightarrow> string \<Rightarrow> string list" where
  "fstrs fs n = (case field_val fs n of Some (VStrs xs spare) \<Rightarrow> xs | _ \<Rightarrow> [])"

definition fmap :: "fval field list \<Rightarrow> string \<Rightarrow> (string \<times> string) list" where
  "fmap fs n = (case field_val fs n of Some (VMap m) \<Rightarrow> m | _ \<Rightarrow> [])"

definition fdata :: "fval field list \<Rightarrow> string \<Rightarrow> string option" where
  "fdata fs n = (case field_val fs n of Some (VData d) \<Rightarrow> d | _ \<Rightarrow> None)"

definition fbody :: "fval field list \<Rightarrow> string \<Rightarrow> notify_body" where
  "fbody fs n = (case field_val fs n of Some (VBody b) \<Rightarrow> b | _ \<Rightarrow> BodyUid '''')"

lemmas field_access = field_val_def fstr_def fint_def fbool_def fstrs_def fmap_def fdata_def fbody_def

fun struct_of :: "gotype \<Rightarrow> fval field list \<Rightarrow> gostruct" where
  "struct_of THello fs =
     SHello \<lparr>ClientVersion = fstr fs ''client_version'', ClientName = fstr fs ''client_name'', ClientType = fstr fs ''client_type''\<rparr>"
| "struct_of TServerHello fs =
     SServerHello \<lparr>sh_ServerVersion = fstr fs ''server_version'', sh_TempID = fstr fs ''temp_id'',
       sh_HeartbeatInterval = fint fs ''heartbeat_interval'', sh_Protocols = fstrs fs ''protocols''\<rparr>"
| "struct_of TChat fs =
     SChat \<lparr>cm_CliMid = fstr fs ''cliMid'', cm_Mid = fint fs ''mid'', cm_Seq = fint fs ''seq'', cm_From = fstr fs ''from'',
       cm_To = fstr fs ''to'', cm_Type = fint fs ''type'', cm_Content = fstr fs ''content'', cm_SendAt = fint fs ''sendAt''\<rparr>"
| "struct_of TAckRequest fs =
     SAckRequest \<lparr>ar_CliMid = fstr fs ''cli_mid'', ar_Seq = fint fs ''seq'', ar_Mid = fint fs ''mid'', ar_From = fstr fs ''from'',
       ar_To = fstr fs ''to''\<rparr>"
| "struct_of TAckGroup fs =
     SAckGroup \<lparr>ag_CliMid = fstr fs ''cli_mid'', ag_Gid = fint fs ''gid'', ag_Mid = fint fs ''mid'', ag_Seq = fint fs ''seq''\<rparr>"
| "struct_of TAckMessage fs =
     SAckMessage \<lparr>am_CliMid = fstr fs ''cli_mid'', am_Mid = fint fs ''mid'', am_From = fstr fs ''from'', am_Seq = fint fs ''seq''\<rparr>"
| "struct_of TAckNotify fs =
     SAckNotify \<lparr>an_CliMid = fstr fs ''cli_mid'', an_Seq = fint fs ''seq'', an_Mid = fint fs ''mid'', an_From = fstr fs ''from''\<rparr>"
| "struct_of TKickOut fs = SKickOut \<lparr>ko_DeviceId = fstr fs ''device_id'', ko_DeviceName = fstr fs ''device_name''\<rparr>"
| "struct_of TCredential fs = SCredential \<lparr>ec_Version = fint fs ''version'', ec_Credential = fstr fs ''credential''\<rparr>"
| "struct_of TNotify fs = SNotify \<lparr>nm_From = fstr fs ''from'', nm_Type = fint fs ''type'', nm_Body = fbody fs ''body''\<rparr>"
| "struct_of TUserState fs = SUserState \<lparr>us_Uid = fstr fs ''uid'', us_Online = fbool fs ''online''\<rparr>"
| "struct_of TStateSub fs = SStateSub \<lparr>ss_Uids = fstrs fs ''uids''\<rparr>"

lemmas fields_defs = fields_Hello_def fields_ServerHello_def fields_ChatMessage_def fields_AckRequest_def
  fields_AckGroupMessage_def fields_AckMessage_def fields_AckNotify_def fields_KickOutNotify_def
  fields_EncryptedCredential_def fields_NotifyMessage_def fields_UserStateData_def fields_StateSubscribeData_def

section \<open>Messages\<close>

text \<open>\<^verbatim>\<open>json.Marshal\<close> of a value that is put into a \<^verbatim>\<open>Data\<close>; pointers are followed.\<close>
definition iface_text :: "iface \<Rightarrow> string" where
  "iface_text d =
     (case d of
        INil \<Rightarrow> ''null''
      | IBytes b \<Rightarrow> quote (string_of_bytes (b64_encode b) @ replicate ((3 - length b mod 3) mod 3) (CHR ''=''))
      | IString s \<Rightarrow> quote s
      | IID s \<Rightarrow> quote s
      | IAction s \<Rightarrow> quote s
      | Val x \<Rightarrow> fields_text is_empty val_text (struct_fields x)
      | Ptr x \<Rightarrow> fields_text is_empty val_text (struct_fields x)
      | PtrPtr x \<Rightarrow> fields_text is_empty val_text (struct_fields x))"

definition marshal_iface :: "iface \<Rightarrow> string + bytes" where
  "marshal_iface d = Inr (bytes_of_string (iface_text d))"

text \<open>The fields of a message, with the text of its data.\<close>
definition fields_GlideMessage :: "string option \<Rightarrow> GlideMessage \<Rightarrow> fval field list" where
  "fields_GlideMessage d m =
     [(''ver'', True, VInt 64 (Ver m)), (''seq'', True, VInt 64 (Seq m)), (''action'', False, VStr (Action m)),
      (''from'', True, VStr (From m)), (''to'', True, VStr (To m)), (''data'', True, VData d), (''msg'', True, VStr (Msg m)),
      (''ticket'', True, VStr (Ticket m)), (''sign'', True, VStr (Sign m)), (''extra'', True, VMap (Extra m))]"

text \<open>\<^verbatim>\<open>json.Marshal\<close> of a message: what \<^verbatim>\<open>Data.MarshalJSON\<close> returns is checked and compacted.\<close>
definition marshal_message :: "(GlideMessage \<Rightarrow> string) \<Rightarrow> GlideMessage \<Rightarrow> string + bytes" where
  "marshal_message mtext m =
     (case Data m of
        None \<Rightarrow> Inr (bytes_of_string (fields_text is_empty val_text (fields_GlideMessage None m)))
      | Some d \<Rightarrow>
          (case Data_MarshalJSON marshal_iface d of
             Inl e \<Rightarrow> Inl (mtext m)
           | Inr b \<Rightarrow>
               (case compact (string_of_bytes b) of
                  None \<Rightarrow> Inl (mtext m)
                | Some t \<Rightarrow> Inr (bytes_of_string (fields_text is_empty val_text (fields_GlideMessage (Some t) m))))))"

definition message_of :: "fval field list \<Rightarrow> GlideMessage" where
  "message_of fs =
     \<lparr>Ver = fint fs ''ver'', Seq = fint fs ''seq'', Action = fstr fs ''action'', From = fstr fs ''from'', To = fstr fs ''to'',
      Data = map_option (\<lambda>t. Data_UnmarshalJSON (bytes_of_string t)) (fdata fs ''data''), Msg = fstr fs ''msg'',
      Ticket = fstr fs ''ticket'', Sign = fstr fs ''sign'', Extra = fmap fs ''extra''\<rparr>"

text \<open>\<^verbatim>\<open>json.Unmarshal\<close> into a new message, as the reader does it, and into a structure.\<close>
definition unmarshal_message :: "(bytes \<Rightarrow> string) \<Rightarrow> bytes \<Rightarrow> string + GlideMessage" where
  "unmarshal_message mtext b =
     (case read_fields set_val (fields_GlideMessage None NewEmptyMessage) (string_of_bytes b) of
        None \<Rightarrow> Inl (mtext b)
      | Some fs \<Rightarrow> Inr (message_of fs))"

definition unmarshal_struct ::
    "(bytes \<Rightarrow> string + gostruct) \<Rightarrow> (gotype \<Rightarrow> bytes \<Rightarrow> string) \<Rightarrow> gotype \<Rightarrow> bytes \<Rightarrow> string + gostruct" where
  "unmarshal_struct other mtext t b =
     (if t = TNotify then other b
      else case read_fields set_val (struct_fields (zero_struct t)) (string_of_bytes b) of
             None \<Rightarrow> Inl (mtext t b)
           | Some fs \<Rightarrow> Inr (struct_of t fs))"


section \<open>Printed fields\<close>

lemma prints_mono: "prints t j d \<Longrightarrow> d \<le> e \<Longrightarrow> prints t j e"
  by (auto simp: prints_def)

text \<open>The value that the text of a field is read as.\<close>
definition val_json :: "fval \<Rightarrow> json" where
  "val_json v =
     (case v of
        VStr s \<Rightarrow> JStr s
      | VInt b i \<Rightarrow> JNum (show_int i)
      | VBool b \<Rightarrow> JBool b
      | VStrs xs spare \<Rightarrow> JArr (map JStr xs)
      | VMap m \<Rightarrow> JObj (map (\<lambda>(k, x). (k, quote x, JStr x)) (sort_key fst m))
      | VData t \<Rightarrow> (case t of None \<Rightarrow> JNull | Some t \<Rightarrow> the (parse t))
      | VBody b \<Rightarrow> JNull)"

text \<open>Values that survive: strings are valid UTF-8, integers have the width of the field, keys differ.\<close>
definition sendable :: "fval \<Rightarrow> bool" where
  "sendable v =
     (case v of
        VStr s \<Rightarrow> valid_utf8 s
      | VInt b i \<Rightarrow> b \<in> {1..64} \<and> in_width b i
      | VBool b \<Rightarrow> True
      | VStrs xs spare \<Rightarrow> (\<forall>x \<in> set xs. valid_utf8 x) \<and> spare = []
      | VMap m \<Rightarrow> distinct (map fst m) \<and> (\<forall>(k, x) \<in> set m. valid_utf8 k \<and> valid_utf8 x)
      | VData t \<Rightarrow> True
      | VBody b \<Rightarrow> False)"

text \<open>The text of a \<^verbatim>\<open>Data\<close> is a value with a nesting of \<open>d\<close>; \<^verbatim>\<open>null\<close> is received as a nil pointer.\<close>
definition data_ok :: "nat \<Rightarrow> fval \<Rightarrow> bool" where
  "data_ok d v = (\<forall>t. v = VData (Some t) \<longrightarrow> (\<exists>j. (j = JNull \<longrightarrow> t = ''null'') \<and> prints t j d))"

definition received :: "fval \<Rightarrow> fval" where
  "received v =
     (case v of
        VMap m \<Rightarrow> VMap (sort_key fst m)
      | VData t \<Rightarrow> VData (if t = Some ''null'' then None else t)
      | _ \<Rightarrow> v)"

fun same_kind :: "fval \<Rightarrow> fval \<Rightarrow> bool" where
  "same_kind (VStr s) (VStr s') = True"
| "same_kind (VInt b i) (VInt b' i') = (b = b')"
| "same_kind (VBool b) (VBool b') = True"
| "same_kind (VStrs xs spare) (VStrs xs' spare') = (xs = [] \<and> spare = [])"
| "same_kind (VMap m) (VMap m') = (m = [])"
| "same_kind (VData t) (VData t') = True"
| "same_kind _ _ = False"

lemma prints_strs: "(\<forall>x \<in> set xs. valid_utf8 x) \<Longrightarrow> prints (array_text (map quote xs)) (JArr (map JStr xs)) 1"
  using prints_array [of 0 "map quote xs" "map JStr xs"] prints_str by (auto simp: list_all2_conv_all_nth)

lemma prints_map:
  assumes "\<forall>(k, x) \<in> set m. valid_utf8 k \<and> valid_utf8 x"
  shows "prints (object_text (map (\<lambda>(k, x). (k, quote x)) m)) (JObj (map (\<lambda>(k, x). (k, quote x, JStr x)) m)) 1"
proof -
  let ?ms = "map (\<lambda>(k, x). (k, quote x, JStr x)) m"
  have "\<forall>(k, t, j) \<in> set ?ms. valid_utf8 k \<and> prints t j 0" using assms prints_str by auto
  from prints_object [OF this] show ?thesis by (simp add: comp_def case_prod_unfold)
qed

lemma prints_val:
  assumes "sendable v" "data_ok d v" "1 \<le> d" "d \<le> maxNestingDepth"
  shows "prints (val_text v) (val_json v) d"
proof (cases v)
  case (VStrs xs spare)
  then show ?thesis using assms prints_mono [OF prints_strs [of xs]] by (simp add: sendable_def val_text_def val_json_def)
next
  case (VMap m)
  then show ?thesis using assms prints_mono [OF prints_map [of "sort_key fst m"]]
    by (auto simp: sendable_def val_text_def val_json_def)
next
  case (VData t)
  show ?thesis
  proof (cases t)
    case None
    then show ?thesis using VData prints_mono [OF prints_null] by (simp add: val_text_def val_json_def)
  next
    case (Some u)
    then obtain j where j: "prints u j d" using assms VData by (auto simp: data_ok_def)
    then have "parse u = Some j" using parse_prints assms(4) by blast
    then show ?thesis using j VData Some by (simp add: val_text_def val_json_def)
  qed
qed (use assms prints_mono [OF prints_str] prints_mono [OF prints_int] prints_mono [OF prints_bool] in
    \<open>auto simp: sendable_def val_text_def val_json_def\<close>)

lemma set_strs_JStr: "set_strs mem (map JStr xs) = Some xs"
  by (induction xs arbitrary: mem) simp_all

lemma update_fresh: "k \<notin> fst ` set m \<Longrightarrow> AList.update k x m = m @ [(k, x)]"
  by (induction m) auto

lemma set_map_JStr:
  "distinct (map fst (m @ m')) \<Longrightarrow> set_map m (map (\<lambda>(k, x). (k, quote x, JStr x)) m') = Some (m @ m')"
proof (induction m' arbitrary: m)
  case (Cons p m')
  obtain k x where p: "p = (k, x)" by (cases p)
  then have "k \<notin> fst ` set m" using Cons.prems by auto
  then show ?case using Cons.IH [of "m @ [(k, x)]"] Cons.prems by (simp add: p update_fresh)
qed simp

lemma ParseInt_in_width: "b \<in> {1..64} \<Longrightarrow> in_width b i \<Longrightarrow> ParseInt (show_int i) = Inr i"
proof -
  assume b: "b \<in> {1..64}" "in_width b i"
  then have "(2::int) ^ (b - 1) \<le> 2 ^ 63" by (intro power_increasing) auto
  then show ?thesis using b(2) by (intro ParseInt_show_int) (auto simp: in_width_def)
qed

lemma set_val_received:
  assumes "sendable v" "data_ok d v" "d \<le> maxNestingDepth" "same_kind z v" "\<not> is_empty v \<or> \<not> (\<exists>d. v = VData d)"
  shows "set_val z (val_text v) (val_json v) = Some (received v)"
proof (cases "(z, v)" rule: same_kind.cases)
  case (5 m m')
  have "distinct (map fst (sort_key fst m'))" if "distinct (map fst m')"
    using that by (simp add: distinct_map inj_on_def)
  then show ?thesis using assms 5 set_map_JStr [of "[]" "sort_key fst m'"]
    by (simp add: set_val_def val_json_def received_def sendable_def)
next
  case (6 t t')
  then obtain u j where u: "t' = Some u" "j = JNull \<longrightarrow> u = ''null''" "prints u j d"
    using assms by (cases t') (auto simp: is_empty_def data_ok_def)
  then have "parse u = Some j" using parse_prints assms(3) by blast
  moreover have "j = JNull" if "u = ''null''" using that calculation parse_prints [OF prints_null] by simp
  ultimately show ?thesis using 6 u by (auto simp: set_val_def val_json_def val_text_def received_def)
qed (use assms in \<open>auto simp: set_val_def val_json_def val_text_def received_def sendable_def set_strs_JStr ParseInt_in_width\<close>)

lemma received_empty: "is_empty v \<Longrightarrow> received v = v"
  by (auto simp: is_empty_def received_def split: fval.splits)

text \<open>The values in a structure and in a message, which has the structure in it.\<close>
definition val_ok :: "nat \<Rightarrow> fval \<Rightarrow> fval \<Rightarrow> bool" where
  "val_ok d z v = (sendable v \<and> data_ok d v \<and> same_kind z v)"

definition not_data :: "fval \<Rightarrow> bool" where
  "not_data v = (case v of VData t \<Rightarrow> False | _ \<Rightarrow> True)"

lemma depth_ok: "1 < maxNestingDepth" "2 < maxNestingDepth" "3 < maxNestingDepth" "4 < maxNestingDepth"
  by (simp_all add: maxNestingDepth_def)

lemma value_codec_vals:
  assumes "1 \<le> d" "d < maxNestingDepth"
  shows "value_codec set_val val_text val_json is_empty not_data (val_ok d) received d"
  by unfold_locales
    (use assms prints_val set_val_received received_empty in \<open>auto simp: val_ok_def not_data_def split: fval.splits\<close>)

interpretation in_struct: value_codec set_val val_text val_json is_empty not_data "val_ok 1" received 1
  by (rule value_codec_vals) (simp_all add: depth_ok [simplified])

interpretation in_message: value_codec set_val val_text val_json is_empty not_data "val_ok 2" received 2
  by (rule value_codec_vals) (simp_all add: depth_ok [simplified])

text \<open>What is printed is compact.\<close>
lemma squeezed_null: "squeezed ''null''"
  by (auto intro!: squeezed_Cons)

lemma squeezed_val: "\<forall>d. v \<noteq> VData d \<Longrightarrow> squeezed (val_text v)"
  by (auto simp: val_text_def body_text_def squeezed_int squeezed_bool squeezed_quote
      intro!: squeezed_array squeezed_object squeezed_Cons split: fval.split notify_body.split)

section \<open>Names\<close>

definition tag_names :: "gotype \<Rightarrow> string list" where
  "tag_names t = map fst (struct_fields (zero_struct t))"

lemma struct_names: "map fst (struct_fields x) = tag_names (type_of_struct x)"
  by (cases x) (simp_all add: tag_names_def fields_defs)

lemma tag_names_ok: "distinct (map fold_name (tag_names t)) \<and> list_all valid_utf8 (tag_names t)"
  by (cases t; hypsubst; code_simp)

lemma message_names:
  "distinct (map fold_name (map fst (fields_GlideMessage d m))) \<and> list_all valid_utf8 (map fst (fields_GlideMessage d m))"
proof -
  have "distinct (map fold_name [''ver'', ''seq'', ''action'', ''from'', ''to'', ''data'', ''msg'', ''ticket'', ''sign'', ''extra''])"
    by code_simp
  moreover have "list_all valid_utf8 [''ver'', ''seq'', ''action'', ''from'', ''to'', ''data'', ''msg'', ''ticket'', ''sign'', ''extra'']"
    by code_simp
  ultimately show ?thesis by (simp add: fields_GlideMessage_def)
qed

section \<open>Round trip\<close>

definition sendable_struct :: "gostruct \<Rightarrow> bool" where
  "sendable_struct x = list_all (\<lambda>(n, e, v). sendable v) (struct_fields x)"

text \<open>The structure in a \<^verbatim>\<open>Data\<close>, behind whatever pointers.\<close>
definition data_struct :: "iface \<Rightarrow> gostruct option" where
  "data_struct d = (case d of Val x \<Rightarrow> Some x | Ptr x \<Rightarrow> Some x | PtrPtr x \<Rightarrow> Some x | _ \<Rightarrow> None)"

definition sendable_data :: "iface \<Rightarrow> bool" where
  "sendable_data d =
     (case d of
        INil \<Rightarrow> True
      | IBytes b \<Rightarrow> False
      | IString s \<Rightarrow> valid_utf8 s
      | IID s \<Rightarrow> valid_utf8 s
      | IAction s \<Rightarrow> valid_utf8 s
      | Val x \<Rightarrow> sendable_struct x
      | Ptr x \<Rightarrow> sendable_struct x
      | PtrPtr x \<Rightarrow> sendable_struct x)"

text \<open>A version of 0 would be left out and be taken for the current one.\<close>
definition sendable_message :: "GlideMessage \<Rightarrow> bool" where
  "sendable_message m =
     (Ver m \<noteq> 0 \<and> list_all (\<lambda>(n, e, v). sendable v) (fields_GlideMessage None m) \<and>
      (case Data m of None \<Rightarrow> True | Some d \<Rightarrow> sendable_data d))"

text \<open>What a message is after the way over the wire: its data is the text; nil has become no data.\<close>
definition received_data :: "iface option \<Rightarrow> iface option" where
  "received_data d =
     (case d of
        None \<Rightarrow> None
      | Some d \<Rightarrow> if d = INil then None else Some (IBytes (bytes_of_string (iface_text d))))"

definition received_message :: "GlideMessage \<Rightarrow> GlideMessage" where
  "received_message m = m\<lparr>Data := received_data (Data m), Extra := sort_key fst (Extra m)\<rparr>"

lemma struct_fits:
  assumes "sendable_struct x"
  shows "list_all2 (fits (val_ok 1) is_empty not_data) (struct_fields (zero_struct (type_of_struct x))) (struct_fields x)"
proof -
  have "list_all valid_utf8 (map fst (struct_fields x))" using tag_names_ok struct_names by metis
  then show ?thesis using assms
    by (cases x) (auto simp: fields_defs fits_def val_ok_def not_data_def sendable_struct_def is_empty_def data_ok_def sendable_def [of "VBody _"] sendable_def [of "VStrs _ _"])
qed

lemma struct_of_receive: "sendable_struct x \<Longrightarrow> struct_of (type_of_struct x) (map (receive received) (struct_fields x)) = x"
  by (cases x) (simp_all add: fields_defs field_access received_def)

lemma message_fits:
  assumes "sendable_message m" "data_ok 2 (VData d)"
  shows "list_all2 (fits (val_ok 2) is_empty not_data) (fields_GlideMessage None NewEmptyMessage) (fields_GlideMessage d m)"
proof -
  have "list_all valid_utf8 (map fst (fields_GlideMessage d m))" using message_names by blast
  moreover have "sendable (VData d)" by (simp add: sendable_def)
  ultimately show ?thesis using assms
    by (auto simp: fields_GlideMessage_def fits_def val_ok_def not_data_def sendable_message_def is_empty_def data_ok_def
        NewEmptyMessage_def)
qed

lemma message_of_receive:
  "message_of (map (receive received) (fields_GlideMessage d m)) =
     m\<lparr>Data := map_option (\<lambda>t. IBytes (bytes_of_string t)) (if d = Some ''null'' then None else d), Extra := sort_key fst (Extra m)\<rparr>"
  by (simp add: message_of_def fields_GlideMessage_def field_access received_def Data_UnmarshalJSON_def)

lemma no_data: "(n, e, v) \<in> set (struct_fields x) \<Longrightarrow> squeezed (val_text v)"
proof -
  assume "(n, e, v) \<in> set (struct_fields x)"
  then have "\<forall>d. v \<noteq> VData d" by (cases x) (auto simp: fields_defs)
  then show ?thesis by (rule squeezed_val)
qed

lemma unmarshal_struct_text:
  assumes "sendable_struct x"
  shows "unmarshal_struct other mtext (type_of_struct x) (bytes_of_string (fields_text is_empty val_text (struct_fields x))) = Inr x"
proof -
  have "type_of_struct x \<noteq> TNotify" using assms
    by (cases x) (auto simp: sendable_struct_def fields_NotifyMessage_def sendable_def)
  moreover have "distinct (map fold_name (map fst (struct_fields x)))" unfolding struct_names using tag_names_ok by blast
  ultimately show ?thesis
    using in_struct.read_fields_text [OF struct_fits [OF assms]] struct_of_receive [OF assms]
    by (simp add: unmarshal_struct_def)
qed

lemma unmarshal_message_text:
  assumes "sendable_message m" "data_ok 2 (VData d)"
  shows "unmarshal_message mtext (bytes_of_string (fields_text is_empty val_text (fields_GlideMessage d m))) =
    Inr (m\<lparr>Data := map_option (\<lambda>t. IBytes (bytes_of_string t)) (if d = Some ''null'' then None else d), Extra := sort_key fst (Extra m)\<rparr>)"
  using in_message.read_fields_text [OF message_fits [OF assms]] message_names message_of_receive
  by (simp add: unmarshal_message_def)

lemma struct_text:
  assumes "sendable_struct x"
  shows "(\<exists>j. j \<noteq> JNull \<and> prints (fields_text is_empty val_text (struct_fields x)) j 2) \<and>
    squeezed (fields_text is_empty val_text (struct_fields x)) \<and> fields_text is_empty val_text (struct_fields x) \<noteq> ''null''"
proof -
  have "prints (fields_text is_empty val_text (struct_fields x))
      (JObj (map (member val_text val_json) (sent_fields is_empty (struct_fields x)))) 2"
    using in_struct.prints_fields [OF struct_fits [OF assms]] by (simp add: numeral_2_eq_2)
  moreover have "squeezed (fields_text is_empty val_text (struct_fields x))" using no_data by (rule squeezed_fields)
  ultimately show ?thesis by (auto simp: fields_text_def object_text_def)
qed

lemma data_text:
  assumes "sendable_data d"
  shows "data_ok 2 (VData (Some (iface_text d)))" "squeezed (iface_text d)" "iface_text d = ''null'' \<longleftrightarrow> d = INil"
  using assms struct_text prints_mono [OF prints_str, of _ 2] prints_mono [OF prints_null, of 2] squeezed_quote squeezed_null
  by (cases d; fastforce simp: sendable_data_def iface_text_def data_ok_def quote_def)+

lemma marshal_message_text:
  assumes "sendable_message m"
  shows "marshal_message mtext m =
    Inr (bytes_of_string (fields_text is_empty val_text (fields_GlideMessage (map_option iface_text (Data m)) m)))"
proof (cases "Data m")
  case (Some d)
  then have d: "sendable_data d" using assms by (simp add: sendable_message_def)
  then obtain j where "prints (iface_text d) j 2" using data_text(1) by (auto simp: data_ok_def)
  then have "compact (iface_text d) = Some (iface_text d)"
    using compact_prints data_text(2) [OF d] depth_ok(2) less_imp_le by blast
  moreover have "\<forall>b. d \<noteq> IBytes b" using d by (auto simp: sendable_data_def)
  then have "Data_MarshalJSON marshal_iface d = Inr (bytes_of_string (iface_text d))"
    by (simp add: Data_MarshalJSON_def JsonCodec_Encode_def marshal_iface_def split: iface.split)
  ultimately show ?thesis using Some by (simp add: marshal_message_def)
qed (simp add: marshal_message_def)

lemma unmarshal_marshal:
  assumes "sendable_message m" "marshal_message mtext m = Inr b"
  shows "unmarshal_message etext b = Inr (received_message m)"
proof (cases "Data m")
  case None
  then show ?thesis
    using unmarshal_message_text [OF assms(1), of None] marshal_message_text [OF assms(1), of mtext] assms(2)
    by (auto simp: received_message_def received_data_def data_ok_def)
next
  case (Some d)
  then have d: "sendable_data d" using assms by (simp add: sendable_message_def)
  show ?thesis
    using unmarshal_message_text [OF assms(1) data_text(1) [OF d]] marshal_message_text [OF assms(1), of mtext] assms(2)
      data_text(3) [OF d] Some
    by (auto simp: received_message_def received_data_def)
qed

section \<open>A connection with a codec\<close>

text \<open>
  \<^verbatim>\<open>Codec\<close> of \<^verbatim>\<open>pkg/messages/codec.go\<close>, as the two ends of a connection rely on it: what one end encodes, the other one decodes.
\<close>
locale codec =
  fixes enc :: "GlideMessage \<Rightarrow> string + bytes"
    and dec :: "bytes \<Rightarrow> string + GlideMessage"
    and ok :: "GlideMessage \<Rightarrow> bool"
    and norm :: "GlideMessage \<Rightarrow> GlideMessage"
  assumes enc_total: "ok m \<Longrightarrow> \<exists>b. enc m = Inr b"
    and dec_enc: "ok m \<Longrightarrow> enc m = Inr b \<Longrightarrow> dec b = Inr (norm m)"
begin

lemma reader_round_enc: "ok m \<Longrightarrow> enc m = Inr b \<Longrightarrow> reader_round dec (Inr b) = (\<lparr>rr_err = nil, rr_m = Some (norm m)\<rparr>, True)"
  using dec_enc by (simp add: reader_round_def reader_Read_def JsonCodec_Decode_def)

lemma reader_loop_enc:
  "(\<And>m. m \<in> set ms \<Longrightarrow> ok m) \<Longrightarrow>
   \<exists>bs. map enc ms = map Inr bs \<and> reader_loop dec (map Inr bs) = (map (\<lambda>m. \<lparr>rr_err = nil, rr_m = Some (norm m)\<rparr>) ms, False)"
proof (induction ms)
  case (Cons m ms)
  then obtain b bs where b: "enc m = Inr b" "map enc ms = map Inr bs"
      "reader_loop dec (map Inr bs) = (map (\<lambda>m. \<lparr>rr_err = nil, rr_m = Some (norm m)\<rparr>) ms, False)"
    using enc_total [of m] by auto
  then show ?case using reader_round_enc [of m b] Cons.prems by (intro exI [of _ "b # bs"]) simp
qed simp

end

interpretation json_codec: codec "JsonCodec_Encode (marshal_message mtext)" "unmarshal_message etext" sendable_message received_message
  for mtext etext
  by unfold_locales (use marshal_message_text unmarshal_marshal in \<open>auto simp: JsonCodec_Encode_def\<close>)

text \<open>What the other end makes of the data.\<close>
lemma Deserialize_received:
  assumes "sendable_message m" "Data m = Some d" "data_struct d = Some x"
  shows "Deserialize (unmarshal_struct other stext) (type_of_struct x) (Data (received_message m)) = Inr x"
proof -
  have "sendable_struct x" "iface_text d = fields_text is_empty val_text (struct_fields x)" "d \<noteq> INil"
    using assms by (cases d; simp add: sendable_message_def sendable_data_def data_struct_def iface_text_def)+
  then show ?thesis using unmarshal_struct_text assms(2)
    by (simp add: received_message_def received_data_def Deserialize_def JsonCodec_Decode_def)
qed

text \<open>
  C36: messages arrive as they were sent, in their JSON text. Take any sequence of messages whose strings are valid UTF-8, whose
  integers have the width of their fields, whose version is not 0 and whose data is nil, a string or one of the structures above (by value or behind
  pointers; not a notification). Every one of them is encoded without an error, and the reader at the other end that gets these
  texts, one after the other, passes on the same messages in the same order and does not close its channel: the
  fields are equal, also the ones left out because they are empty, the extra map has the same members, and the
  data is the raw text of the data that was sent (none if that was nil). \<open>Deserialize\<close> with the type of the structure that was sent makes of that text the same structure.
\<close>
theorem wire_roundtrip:
  assumes "\<And>m. m \<in> set ms \<Longrightarrow> sendable_message m"
  shows "\<exists>bs. map (JsonCodec_Encode (marshal_message mtext)) ms = map Inr bs \<and>
    reader_loop (unmarshal_message etext) (map Inr bs) = (map (\<lambda>m. \<lparr>rr_err = nil, rr_m = Some (received_message m)\<rparr>) ms, False) \<and>
    (\<forall>m \<in> set ms. \<forall>d x. Data m = Some d \<longrightarrow> data_struct d = Some x \<longrightarrow>
       Deserialize (unmarshal_struct other stext) (type_of_struct x) (Data (received_message m)) = Inr x)"
  using json_codec.reader_loop_enc [OF assms, of ms mtext etext] Deserialize_received assms by blast

theorem wire_roundtrip_witness:
  "let x = SChat \<lparr>cm_CliMid = ''a<b'', cm_Mid = 0, cm_Seq = -1, cm_From = ''1'', cm_To = '''', cm_Type = 1,
          cm_Content = [CHR 0xC3, CHR 0xA4, DQ], cm_SendAt = 2 ^ 62\<rparr>;
       m = (NewMessage 3 ActionChatMessage (Ptr x))\<lparr>To := ''2'', Extra := [(''k'', ''v''), (''a'', '''')]\<rparr>;
       h = NewMessage 0 ActionHeartbeat INil
   in \<exists>b c d. JsonCodec_Encode (marshal_message (\<lambda>_. '''')) m = Inr b \<and> JsonCodec_Encode (marshal_message (\<lambda>_. '''')) h = Inr c \<and>
        reader_loop (unmarshal_message (\<lambda>_. '''')) [Inr b, Inr c] =
          ([\<lparr>rr_err = nil, rr_m = Some (m\<lparr>Data := Some (IBytes d), Extra := [(''a'', ''''), (''k'', ''v'')]\<rparr>)\<rparr>,
            \<lparr>rr_err = nil, rr_m = Some (h\<lparr>Data := None\<rparr>)\<rparr>], False) \<and>
        Deserialize (unmarshal_struct (\<lambda>_. Inl '''') (\<lambda>_ _. '''')) TChat (Some (IBytes d)) = Inr x"
proof -
  let ?x = "SChat \<lparr>cm_CliMid = ''a<b'', cm_Mid = 0, cm_Seq = -1, cm_From = ''1'', cm_To = '''', cm_Type = 1,
    cm_Content = [CHR 0xC3, CHR 0xA4, DQ], cm_SendAt = 2 ^ 62\<rparr>"
  let ?m = "(NewMessage 3 ActionChatMessage (Ptr ?x))\<lparr>To := ''2'', Extra := [(''k'', ''v''), (''a'', '''')]\<rparr>"
  let ?h = "NewMessage 0 ActionHeartbeat INil"
  let ?d = "bytes_of_string (iface_text (Ptr ?x))"
  have "sendable_message ?m" "sendable_message ?h" by code_simp+
  then have ok: "\<And>m. m \<in> set [?m, ?h] \<Longrightarrow> sendable_message m" by auto
  have "received_message ?m = ?m\<lparr>Data := Some (IBytes ?d), Extra := [(''a'', ''''), (''k'', ''v'')]\<rparr>"
  proof -
    have "sort_key fst (Extra ?m) = [(''a'', ''''), (''k'', ''v'')]" by code_simp
    then show ?thesis by (simp add: received_message_def received_data_def)
  qed
  moreover have "received_message ?h = ?h\<lparr>Data := None\<rparr>" by code_simp
  ultimately show ?thesis
    using wire_roundtrip [where ms = "[?m, ?h]" and mtext = "\<lambda>_. ''''" and etext = "\<lambda>_. ''''" and other = "\<lambda>_. Inl ''''"
        and stext = "\<lambda>_ _. ''''", OF ok]
    unfolding Let_def by (auto simp: data_struct_def map_eq_Cons_conv Cons_eq_map_conv)
qed

end
