(* ===== verification/Token.thy ===== *)
theory Token
  imports Wire Gateway
begin

text \<open>
  Credentials as the business service hands them to a client (\<^verbatim>\<open>ClientAuthCredentials\<close> of \<^verbatim>\<open>pkg/gate/client.go\<close>): their JSON text, the
  token made of it, and the authentication with a token that arrives in a message.

  The nested structures are pointers; a pointer is written as \<^verbatim>\<open>null\<close> or as the structure, and decoding an object into a nil pointer allocates a
  zero value.
\<close>

section \<open>The JSON text of credentials\<close>

text \<open>A value, or a pointer to a structure with its zero value.\<close>
datatype cval = CVal fval | CPtr "fval field list" "fval field list option"

fun cval_empty :: "cval \<Rightarrow> bool" where
  "cval_empty (CVal v) = is_empty v"
| "cval_empty (CPtr z p) = (p = None)"

fun cval_text :: "cval \<Rightarrow> string" where
  "cval_text (CVal v) = val_text v"
| "cval_text (CPtr z None) = ''null''"
| "cval_text (CPtr z (Some fs)) = fields_text is_empty val_text fs"

fun set_cval :: "cval \<Rightarrow> string \<Rightarrow> json \<Rightarrow> cval option" where
  "set_cval (CVal v) t j = map_option CVal (set_val v t j)"
| "set_cval (CPtr z p) t j =
     (case j of
        JNull \<Rightarrow> Some (CPtr z None)
      | JObj ms \<Rightarrow> map_option (\<lambda>fs. CPtr z (Some fs)) (set_fields set_val (case p of None \<Rightarrow> z | Some fs \<Rightarrow> fs) ms)
      | _ \<Rightarrow> None)"

definition fields_ClientSecrets :: "ClientSecrets \<Rightarrow> fval field list" where
  "fields_ClientSecrets x =
     [(''message_deliver_secret'', False, VStr (MessageDeliverSecret x)), (''online_state_secret'', False, VStr (OnlineStateSecret x))]"

definition fields_ConnectionConfig :: "ConnectionConfig \<Rightarrow> fval field list" where
  "fields_ConnectionConfig x =
     [(''AllowMaxHeartbeatLost'', False, VInt 64 (AllowMaxHeartbeatLost x)), (''HeartbeatDuration'', False, VInt 64 (HeartbeatDuration x)),
      (''CloseImmediately'', False, VBool (cc_CloseImmediately x))]"

definition fields_RiskControl :: "RiskControl \<Rightarrow> fval field list" where
  "fields_RiskControl x = [(''MaxMessagesPeerSecond'', False, VInt 64 (MaxMessagesPeerSecond x))]"

definition zero_ClientSecrets :: ClientSecrets where
  "zero_ClientSecrets = \<lparr>MessageDeliverSecret = '''', OnlineStateSecret = ''''\<rparr>"

definition zero_ConnectionConfig :: ConnectionConfig where
  "zero_ConnectionConfig = \<lparr>AllowMaxHeartbeatLost = 0, HeartbeatDuration = 0, cc_CloseImmediately = False\<rparr>"

definition zero_RiskControl :: RiskControl where
  "zero_RiskControl = \<lparr>MaxMessagesPeerSecond = 0\<rparr>"

definition zero_ClientAuthCredentials :: ClientAuthCredentials where
  "zero_ClientAuthCredentials =
     \<lparr>ca_Type = 0, UserID = '''', DeviceID = '''', DeviceName = '''', Secrets = None, ca_RiskControl = None,
      ca_ConnectionConfig = None, ConnectionID = '''', Timestamp = 0\<rparr>"

definition fields_ClientAuthCredentials :: "ClientAuthCredentials \<Rightarrow> cval field list" where
  "fields_ClientAuthCredentials x =
     [(''type'', False, CVal (VInt 64 (ca_Type x))), (''user_id'', False, CVal (VStr (UserID x))),
      (''device_id'', False, CVal (VStr (DeviceID x))), (''device_name'', False, CVal (VStr (DeviceName x))),
      (''secrets'', False, CPtr (fields_ClientSecrets zero_ClientSecrets) (map_option fields_ClientSecrets (Secrets x))),
      (''risk_control'', False, CPtr (fields_RiskControl zero_RiskControl) (map_option fields_RiskControl (ca_RiskControl x))),
      (''connection_config'', False,
        CPtr (fields_ConnectionConfig zero_ConnectionConfig) (map_option fields_ConnectionConfig (ca_ConnectionConfig x))),
      (''connection_id'', False, CVal (VStr (ConnectionID x))), (''timestamp'', False, CVal (VInt 64 (Timestamp x)))]"

text \<open>The values of the fields.\<close>
definition cvals :: "cval field list \<Rightarrow> fval field list" where
  "cvals fs = concat (map (\<lambda>(n, e, v). case v of CVal x \<Rightarrow> [(n, e, x)] | _ \<Rightarrow> []) fs)"

definition cptr :: "cval field list \<Rightarrow> string \<Rightarrow> fval field list option" where
  "cptr fs n = (case field_val fs n of Some (CPtr z p) \<Rightarrow> p | _ \<Rightarrow> None)"

definition secrets_of :: "fval field list \<Rightarrow> ClientSecrets" where
  "secrets_of fs = \<lparr>MessageDeliverSecret = fstr fs ''message_deliver_secret'', OnlineStateSecret = fstr fs ''online_state_secret''\<rparr>"

definition config_of :: "fval field list \<Rightarrow> ConnectionConfig" where
  "config_of fs = \<lparr>AllowMaxHeartbeatLost = fint fs ''AllowMaxHeartbeatLost'', HeartbeatDuration = fint fs ''HeartbeatDuration'',
     cc_CloseImmediately = fbool fs ''CloseImmediately''\<rparr>"

definition risk_of :: "fval field list \<Rightarrow> RiskControl" where
  "risk_of fs = \<lparr>MaxMessagesPeerSecond = fint fs ''MaxMessagesPeerSecond''\<rparr>"

definition credentials_of :: "cval field list \<Rightarrow> ClientAuthCredentials" where
  "credentials_of fs =
     (let vs = cvals fs in
      \<lparr>ca_Type = fint vs ''type'', UserID = fstr vs ''user_id'', DeviceID = fstr vs ''device_id'', DeviceName = fstr vs ''device_name'',
       Secrets = map_option secrets_of (cptr fs ''secrets''), ca_RiskControl = map_option risk_of (cptr fs ''risk_control''),
       ca_ConnectionConfig = map_option config_of (cptr fs ''connection_config''), ConnectionID = fstr vs ''connection_id'',
       Timestamp = fint vs ''timestamp''\<rparr>)"

text \<open>\<^verbatim>\<open>json.Marshal\<close> and \<^verbatim>\<open>json.Unmarshal\<close> of credentials.\<close>
definition marshal_credentials :: "ClientAuthCredentials \<Rightarrow> string + bytes" where
  "marshal_credentials c = Inr (bytes_of_string (fields_text cval_empty cval_text (fields_ClientAuthCredentials c)))"

definition unmarshal_credentials :: "(bytes \<Rightarrow> string) \<Rightarrow> bytes \<Rightarrow> string + ClientAuthCredentials" where
  "unmarshal_credentials etext b =
     (case read_fields set_cval (fields_ClientAuthCredentials zero_ClientAuthCredentials) (string_of_bytes b) of
        None \<Rightarrow> Inl (etext b)
      | Some fs \<Rightarrow> Inr (credentials_of fs))"


section \<open>Round trip\<close>

text \<open>The value that the text of a field is read as.\<close>
fun cval_json :: "cval \<Rightarrow> json" where
  "cval_json (CVal v) = val_json v"
| "cval_json (CPtr z None) = JNull"
| "cval_json (CPtr z (Some fs)) = JObj (map (member val_text val_json) (sent_fields is_empty fs))"

text \<open>Strings and numbers go through; maps and raw data do not appear in credentials.\<close>
definition simple_val :: "fval \<Rightarrow> bool" where
  "simple_val v = (sendable v \<and> (case v of VStr s \<Rightarrow> True | VInt b i \<Rightarrow> True | VBool b \<Rightarrow> True | _ \<Rightarrow> False))"

lemma simple_val: "simple_val v \<Longrightarrow> sendable v \<and> data_ok d v \<and> not_data v \<and> received v = v"
  by (auto simp: simple_val_def data_ok_def not_data_def received_def split: fval.splits)

definition simple_fields :: "fval field list \<Rightarrow> fval field list \<Rightarrow> bool" where
  "simple_fields z fs =
     (list_all2 (\<lambda>(n, e, a) (n', e', b). n = n' \<and> \<not> e \<and> \<not> e' \<and> valid_utf8 n \<and> simple_val b \<and> same_kind a b) z fs \<and>
      distinct (map fold_name (map fst fs)))"

fun cval_ok :: "cval \<Rightarrow> cval \<Rightarrow> bool" where
  "cval_ok (CVal a) (CVal b) = (simple_val b \<and> same_kind a b)"
| "cval_ok (CPtr z p) (CPtr z' p') = (z = z' \<and> p = None \<and> (case p' of None \<Rightarrow> True | Some fs \<Rightarrow> simple_fields z fs))"
| "cval_ok _ _ = False"

lemma simple_fields_fits:
  assumes "simple_fields z fs"
  shows "list_all2 (fits (val_ok 1) is_empty not_data) z fs" "map (receive received) fs = fs"
proof -
  have "list_all2 (\<lambda>(n, e, a) (n', e', b). n = n' \<and> \<not> e \<and> \<not> e' \<and> valid_utf8 n \<and> simple_val b \<and> same_kind a b) z fs"
    using assms by (simp add: simple_fields_def)
  then show "list_all2 (fits (val_ok 1) is_empty not_data) z fs" "map (receive received) fs = fs"
    by (induction rule: list_all2_induct) (auto simp: fits_def val_ok_def dest: simple_val)
qed

interpretation in_credentials: value_codec set_cval cval_text cval_json cval_empty "\<lambda>_. True" cval_ok "\<lambda>v. v" 2
proof
  fix z v assume ok: "cval_ok z v"
  show "prints (cval_text v) (cval_json v) 2"
  proof (cases "(z, v)" rule: cval_ok.cases)
    case (1 a b)
    then show ?thesis using ok prints_val [of b 2] simple_val [of b 2] depth_ok(2) by simp
  next
    case (2 z' p z'' p')
    then show ?thesis
      using ok prints_mono [OF prints_null, of 2] in_struct.prints_fields [OF simple_fields_fits(1)]
      by (cases p') (auto simp: numeral_2_eq_2)
  qed (use ok in auto)
  show "set_cval z (cval_text v) (cval_json v) = Some v"
  proof (cases "(z, v)" rule: cval_ok.cases)
    case (1 a b)
    then have "set_val a (val_text b) (val_json b) = Some (received b)"
      using ok set_val_received [of b 2 a] simple_val [of b 2] depth_ok(2) by (auto simp: not_data_def split: fval.splits)
    then show ?thesis using ok 1 simple_val [of b 2] by simp
  next
    case (2 z' p z'' p')
    show ?thesis
    proof (cases p')
      case (Some fs)
      then have f: "simple_fields z' fs" using ok 2 by auto
      then have "distinct (map (\<lambda>f. fold_name (fst f)) fs)" by (simp add: simple_fields_def comp_def)
      then have "set_fields set_val z' (map (member val_text val_json) (sent_fields is_empty fs)) = Some fs"
        using in_struct.set_fields_member [of z' fs "[]"] simple_fields_fits [OF f] by simp
      then show ?thesis using ok 2 Some by simp
    qed (use ok 2 in simp)
  qed (use ok in auto)
qed (simp_all add: depth_ok)

definition sendable_credentials :: "ClientAuthCredentials \<Rightarrow> bool" where
  "sendable_credentials c =
     list_all (\<lambda>(n, e, v). case v of
         CVal x \<Rightarrow> sendable x
       | CPtr z p \<Rightarrow> (case p of None \<Rightarrow> True | Some fs \<Rightarrow> list_all (\<lambda>(n, e, x). sendable x) fs))
       (fields_ClientAuthCredentials c)"

lemmas credential_fields = fields_ClientSecrets_def fields_ConnectionConfig_def fields_RiskControl_def zero_ClientSecrets_def
  zero_ConnectionConfig_def zero_RiskControl_def zero_ClientAuthCredentials_def fields_ClientAuthCredentials_def

definition credential_names :: "string list list" where
  "credential_names =
     [map fst (fields_ClientAuthCredentials zero_ClientAuthCredentials), map fst (fields_ClientSecrets zero_ClientSecrets),
      map fst (fields_ConnectionConfig zero_ConnectionConfig), map fst (fields_RiskControl zero_RiskControl)]"

lemma credential_names_ok: "list_all (\<lambda>ns. distinct (map fold_name ns) \<and> list_all valid_utf8 ns) credential_names"
  by code_simp

lemma credential_names_eq:
  "map fst (fields_ClientAuthCredentials c) \<in> set credential_names" "map fst (fields_ClientSecrets s) \<in> set credential_names"
  "map fst (fields_ConnectionConfig k) \<in> set credential_names" "map fst (fields_RiskControl r) \<in> set credential_names"
  by (simp_all add: credential_names_def fields_ClientSecrets_def fields_ConnectionConfig_def fields_RiskControl_def
      fields_ClientAuthCredentials_def)

lemma credential_names_good:
  assumes "map fst fs \<in> set credential_names"
  shows "distinct (map fold_name (map fst fs)) \<and> list_all valid_utf8 (map fst fs)"
  using assms credential_names_ok by (metis list.pred_set)

lemma nested_simple:
  "list_all (\<lambda>(n, e, x). sendable x) (fields_ClientSecrets s) \<Longrightarrow> simple_fields (fields_ClientSecrets zero_ClientSecrets) (fields_ClientSecrets s)"
  "list_all (\<lambda>(n, e, x). sendable x) (fields_ConnectionConfig k) \<Longrightarrow>
     simple_fields (fields_ConnectionConfig zero_ConnectionConfig) (fields_ConnectionConfig k)"
  "list_all (\<lambda>(n, e, x). sendable x) (fields_RiskControl r) \<Longrightarrow> simple_fields (fields_RiskControl zero_RiskControl) (fields_RiskControl r)"
  using credential_names_good [OF credential_names_eq(2), of s] credential_names_good [OF credential_names_eq(3), of k]
    credential_names_good [OF credential_names_eq(4), of r]
  by (simp_all add: simple_fields_def simple_val_def fields_ClientSecrets_def fields_ConnectionConfig_def fields_RiskControl_def)

lemma credentials_fit:
  assumes "sendable_credentials c"
  shows "list_all2 (fits cval_ok cval_empty (\<lambda>_. True)) (fields_ClientAuthCredentials zero_ClientAuthCredentials)
    (fields_ClientAuthCredentials c)"
proof -
  have "list_all valid_utf8 (map fst (fields_ClientAuthCredentials c))"
    using credential_names_good [OF credential_names_eq(1)] by blast
  then show ?thesis using assms nested_simple
    by (auto simp: sendable_credentials_def fields_ClientAuthCredentials_def zero_ClientAuthCredentials_def fits_def simple_val_def
        split: option.split)
qed

lemma nested_of:
  "secrets_of (fields_ClientSecrets s) = s" "config_of (fields_ConnectionConfig k) = k" "risk_of (fields_RiskControl r) = r"
  by (simp_all add: secrets_of_def config_of_def risk_of_def fields_ClientSecrets_def fields_ConnectionConfig_def fields_RiskControl_def
      field_access)

lemma credentials_of_fields: "credentials_of (fields_ClientAuthCredentials c) = c"
  by (simp add: credentials_of_def fields_ClientAuthCredentials_def cvals_def cptr_def field_access Let_def option.map_comp comp_def
      nested_of option.map_ident)

lemma receive_id: "map (receive (\<lambda>v. v)) fs = fs"
  by (induction fs) auto

lemma unmarshal_marshal_credentials:
  assumes "sendable_credentials c" "marshal_credentials c = Inr b"
  shows "unmarshal_credentials etext b = Inr c"
  using in_credentials.read_fields_text [OF credentials_fit [OF assms(1)]] credential_names_good [OF credential_names_eq(1)] assms(2)
  by (auto simp: unmarshal_credentials_def marshal_credentials_def receive_id credentials_of_fields)


section \<open>Tokens\<close>

text \<open>A token is a text of base64 characters.\<close>
lemma valid_utf8_ascii: "(\<forall>c \<in> set s. code c < 0x80) \<Longrightarrow> valid_utf8 s"
proof (induction s)
  case (Cons c s)
  then show ?case by (subst valid_utf8_Cons) (simp_all add: rune_len_ascii)
qed simp

lemma b64_char_ascii: "n < 64 \<Longrightarrow> unat (b64_char n) mod 256 < 0x80"
proof -
  assume "n < 64"
  then have "b64_alphabet ! n \<in> set b64_alphabet" by (intro nth_mem) simp
  moreover have "\<forall>c \<in> set b64_alphabet. code c < 0x80" by (simp add: b64_alphabet_def)
  ultimately show ?thesis by (simp add: b64_char_def unat_of_char)
qed

lemma token_ascii: "valid_utf8 (string_of_bytes (b64_encode b))"
  by (rule valid_utf8_ascii)
    (use b64_char_ascii in \<open>auto simp: string_of_bytes_def b64_encode_sextets dest!: b64_sextets_lt\<close>)

lemma length_string_of_bytes: "length (string_of_bytes b) = length b"
  by (simp add: string_of_bytes_def)

lemma bytes_of_string_of_bytes: "bytes_of_string (string_of_bytes b) = b"
  using byte_lt by (induction b) (simp_all add: string_of_bytes_def bytes_of_string_def)

text \<open>
  A token is made of the credentials and gives them back, whatever the secret key and the initialisation vector.
\<close>
lemma token_roundtrip:
  assumes "block_inverse (enc (Key a)) (dec (Key a))" "a = NewAesCBCCrypto k" "length iv = BlockSize" "sendable_credentials c"
  obtains token where "EncryptCredentials marshal_credentials enc (iv, nil) a c = Ret (Inr token)"
    "DecryptCredentials (unmarshal_credentials etext) dec a token = Ret (Inr c)" "valid_utf8 (string_of_bytes token)" "5 \<le> length token"
proof -
  obtain j where j: "marshal_credentials c = Inr j" by (simp add: marshal_credentials_def)
  from Credentials_roundtrip [where enc = enc and dec = dec and marshal = marshal_credentials and unmarshal = "unmarshal_credentials etext", OF assms(1,2) j unmarshal_marshal_credentials [OF assms(4) j, of etext] assms(3)]
  obtain token where t: "EncryptCredentials marshal_credentials enc (iv, nil) a c = Ret (Inr token)"
      "DecryptCredentials (unmarshal_credentials etext) dec a token = Ret (Inr c)"
      "length token = EncodedLen (BlockSize + length j + (BlockSize - length j mod BlockSize))" by blast
  have "valid_utf8 (string_of_bytes token)"
    using t(1) token_ascii by (auto simp: EncryptCredentials_def bind_outcome_eq_Ret split: sum.splits) (metis sum.exhaust)
  moreover have "5 \<le> length token" using t(3) by (simp add: EncodedLen_def BlockSize_def)
  ultimately show ?thesis using that t by blast
qed


section \<open>Authentication over the wire\<close>

text \<open>The environment of the authenticator of a gateway with a secret key: JSON and the decryption as above.\<close>
definition wire_env :: "(bytes \<Rightarrow> string + gostruct) \<Rightarrow> (gotype \<Rightarrow> bytes \<Rightarrow> string) \<Rightarrow> (bytes \<Rightarrow> string) \<Rightarrow>
    (bytes \<Rightarrow> bytes \<Rightarrow> bytes) \<Rightarrow> AesCBCCrypto \<Rightarrow> auth_env \<Rightarrow> auth_env" where
  "wire_env other stext ctext dec a env =
     env\<lparr>ae_json := unmarshal_struct other stext, ae_decrypt := DecryptCredentials (unmarshal_credentials ctext) dec a\<rparr>"

definition auth_message :: "int \<Rightarrow> bytes \<Rightarrow> GlideMessage" where
  "auth_message seq token =
     NewMessage seq ActionAuthenticate (Ptr (SCredential \<lparr>ec_Version = 1, ec_Credential = string_of_bytes token\<rparr>))"

lemma auth_message_sendable:
  assumes "valid_utf8 (string_of_bytes token)" "in_width 64 seq"
  shows "sendable_message (auth_message seq token)"
proof -
  have "valid_utf8 ActionAuthenticate" by code_simp
  then show ?thesis using assms
    by (simp add: auth_message_def sendable_message_def fields_GlideMessage_def sendable_def sendable_data_def sendable_struct_def
        fields_EncryptedCredential_def NewMessage_def NewData_def messageVersion_def in_width_def)
qed

text \<open>The user authenticated as is not connected, or connected as another client, which is moved to a temporary identifier.\<close>
definition can_take :: "auth_env \<Rightarrow> gateway \<Rightarrow> nat \<Rightarrow> string \<Rightarrow> bool" where
  "can_take env g r uid =
     (case clients g (keyOf g (NewID2 uid)) of
        None \<Rightarrow> True
      | Some r0 \<Rightarrow>
          r0 \<noteq> r \<and> IsRunning (heap g r0) \<and> \<not> Equals (NewID2 uid) (info_ID (info (heap g r))) \<and>
          clients g (keyOf g (fst (GenTempID (ae_random env) ''''))) = None)"

definition kicked :: "gateway \<Rightarrow> ClientAuthCredentials \<Rightarrow> (nat \<times> GlideMessage) list" where
  "kicked g c = (case clients g (keyOf g (NewID2 (UserID c))) of None \<Rightarrow> [] | Some r0 \<Rightarrow> [(r0, kick_message c)])"

lemma updateClient_takes:
  assumes "good g" "clients g (keyOf g (info_ID (info (heap g r)))) = Some r" "can_take env g r (UserID c)"
    "length (pool g) < pool_cap g"
  shows "\<exists>g'. updateClient env r c g = Ret (NewID2 (UserID c), nil, g') \<and>
    clients g' (keyOf g (NewID2 (UserID c))) = Some r \<and>
    heap g' r = SetID (keyOf g (NewID2 (UserID c))) (SetCredentials c (heap g r)) \<and>
    clients g' (keyOf g (info_ID (info (heap g r)))) = None \<and> pool g' = pool g @ kicked g c \<and>
    \<not> mu g' \<and> gw_id g' = gw_id g \<and> pool_cap g' = pool_cap g \<and> authenticator g' = authenticator g"
proof (cases "clients g (keyOf g (NewID2 (UserID c)))")
  case None
  then show ?thesis using updateClient_free [of g r c env] assms(1,2) by (auto simp: kicked_def good_def)
next
  case (Some r0)
  then show ?thesis
    using updateClient_takeover [OF assms(1,2) Some, of env] assms(3,4) by (auto simp: can_take_def kicked_def)
qed


lemma interceptor_authenticates:
  assumes g: "good g" "authenticator g" "length (pool g) + 2 \<le> pool_cap g"
    and r: "clients g (keyOf g (info_ID (info (heap g r)))) = Some r" "IsRunning (heap g r)" "can_take env g r (UserID c)"
    and m: "Action m = ActionAuthenticate" "Deserialize_Credential (ae_json env) (Data m) = Inr x" "5 \<le> length (ec_Credential x)"
      "ae_decrypt env (bytes_of_string (ec_Credential x)) = Ret (Inr c)"
      "sint (of_int (ae_now env - Timestamp c) :: i64) \<le> 1500 * 1000"
  shows "\<exists>g'. ClientAuthMessageInterceptor env r m g = Ret (True, g') \<and>
    clients g' (keyOf g (NewID2 (UserID c))) = Some r \<and>
    heap g' r = SetID (keyOf g (NewID2 (UserID c))) (SetCredentials c (heap g r)) \<and>
    clients g' (keyOf g (info_ID (info (heap g r)))) = None \<and>
    pool g' = pool g @ kicked g c @ [(r, NewMessage (GetSeq m) ActionNotifySuccess INil)]"
proof -
  obtain g1 where u: "updateClient env r c g = Ret (NewID2 (UserID c), nil, g1)"
      "clients g1 (keyOf g (NewID2 (UserID c))) = Some r"
      "heap g1 r = SetID (keyOf g (NewID2 (UserID c))) (SetCredentials c (heap g r))"
      "clients g1 (keyOf g (info_ID (info (heap g r)))) = None" "pool g1 = pool g @ kicked g c"
      "\<not> mu g1" "gw_id g1 = gw_id g" "pool_cap g1 = pool_cap g" "authenticator g1"
    using updateClient_takes [OF g(1) r(1,3)] g(2,3) by auto
  have run: "IsRunning (heap g1 r)" using r(2) by (simp add: u(3) IsRunning_def)
  have "length (kicked g c) \<le> 1" by (simp add: kicked_def split: option.split)
  then have p: "length (pool g1) < pool_cap g1" using g(3) u(5,8) by simp
  have "Impl_EnqueueMessage (NewID2 (UserID c)) (NewMessage (GetSeq m) ActionNotifySuccess INil) g1 =
      Ret (nil, g1\<lparr>pool := pool g1 @ [(r, NewMessage (GetSeq m) ActionNotifySuccess INil)]\<rparr>)"
    by (rule enqueue_running) (use u run p in simp_all)
  then have "ClientAuthMessageInterceptor env r m g =
      Ret (True, g1\<lparr>pool := pool g1 @ [(r, NewMessage (GetSeq m) ActionNotifySuccess INil)]\<rparr>)"
    using m u(1,9) by (simp add: ClientAuthMessageInterceptor_def auth_done_def auth_gateway_enqueue_def)
  then show ?thesis using u by auto
qed

text \<open>
  C12: a client authenticates with a token, from the business service to the gateway. The business service encrypts the
  credentials of a user with the key of the gateway; the client sends the token in a message, which is encoded to JSON, read
  from the connection, decoded, decrypted and decoded again. Whatever the credentials (with valid strings and 64-bit
  integers), the key and the initialisation vector: as long as the token has not expired, the client is then
  registered under the identifier of that user and no longer under its old one, it has exactly the credentials that were
  encrypted, and it is sent the success notification with the sequence number of its message. A client that held the identifier is moved to a
  temporary one and is sent the kick-out notification first. The block cipher is assumed to decrypt what it encrypts.
\<close>
theorem authentication_over_the_wire:
  fixes g :: gateway
  assumes cipher: "block_inverse (enc (Key a)) (dec (Key a))" "a = NewAesCBCCrypto k" "length iv = BlockSize"
    and c: "sendable_credentials c" "sint (of_int (ae_now env - Timestamp c) :: i64) \<le> 1500 * 1000"
    and g: "good g" "authenticator g" "length (pool g) + 2 \<le> pool_cap g"
    and r: "clients g (keyOf g (info_ID (info (heap g r)))) = Some r" "IsRunning (heap g r)"
      "msgHandler (heap g r) = Intercepted BaseHandler" "can_take env g r (UserID c)"
    and seq: "in_width 64 seq"
  shows "\<exists>token b g'. EncryptCredentials marshal_credentials enc (iv, nil) a c = Ret (Inr token) \<and>
    JsonCodec_Encode (marshal_message mtext) (auth_message seq token) = Inr b \<and>
    runRead_message (wire_env other stext ctext dec a env) r (Some (fst (reader_round (unmarshal_message etext) (Inr b)))) g = Ret (False, g') \<and>
    clients g' (keyOf g (NewID2 (UserID c))) = Some r \<and> info_ID (info (heap g' r)) = keyOf g (NewID2 (UserID c)) \<and>
    clients g' (keyOf g (info_ID (info (heap g r)))) = None \<and> GetCredentials (heap g' r) = Some c \<and>
    pool g' = pool g @ kicked g c @ [(r, NewMessage seq ActionNotifySuccess INil)]"
proof -
  let ?env = "wire_env other stext ctext dec a env"
  obtain token where t: "EncryptCredentials marshal_credentials enc (iv, nil) a c = Ret (Inr token)"
      "DecryptCredentials (unmarshal_credentials ctext) dec a token = Ret (Inr c)" "valid_utf8 (string_of_bytes token)" "5 \<le> length token"
    using token_roundtrip [where enc = enc and dec = dec and etext = ctext, OF cipher c(1)] by metis
  let ?m = "auth_message seq token"
  have m: "sendable_message ?m" using auth_message_sendable t(3) seq by blast
  then obtain b where b: "JsonCodec_Encode (marshal_message mtext) ?m = Inr b" using json_codec.enc_total by blast
  have rd: "fst (reader_round (unmarshal_message etext) (Inr b)) = \<lparr>rr_err = nil, rr_m = Some (received_message ?m)\<rparr>"
    using json_codec.reader_round_enc [OF m b] by simp
  let ?g1 = "rearm_hbC r (upd r (\<lambda>c. c\<lparr>hbLost := 0\<rparr>) g)"
  have g1: "good ?g1" by (intro good_rearm good_upd' [OF g(1)]) simp_all
  have h1: "info (heap ?g1 r) = info (heap g r)" "clients ?g1 = clients g" "pool ?g1 = pool g" "pool_cap ?g1 = pool_cap g"
      "authenticator ?g1 = authenticator g" "IsRunning (heap ?g1 r)" "gw_id ?g1 = gw_id g" "\<And>q. q \<noteq> r \<Longrightarrow> heap ?g1 q = heap g q"
      "msgHandler (heap ?g1 r) = Intercepted BaseHandler"
    using r(2,3) by (simp_all add: rearm_hbC_def IsRunning_def)
  have take: "can_take ?env ?g1 r (UserID c)" "kicked ?g1 c = kicked g c"
    using r(4) h1 by (auto simp: can_take_def kicked_def wire_env_def split: option.splits)
  let ?x = "\<lparr>ec_Version = 1, ec_Credential = string_of_bytes token\<rparr>"
  have "Deserialize (ae_json ?env) TCredential (Data (received_message ?m)) = Inr (SCredential ?x)"
    using Deserialize_received [OF m, of "Ptr (SCredential ?x)" "SCredential ?x"] by (simp add: auth_message_def data_struct_def wire_env_def)
  then have x: "Deserialize_Credential (ae_json ?env) (Data (received_message ?m)) = Inr ?x" by (simp add: Deserialize_Credential_def)
  have act: "Action (received_message ?m) = ActionAuthenticate" "Seq (received_message ?m) = seq"
    by (simp_all add: received_message_def auth_message_def)
  obtain g' where g': "ClientAuthMessageInterceptor ?env r (received_message ?m) ?g1 = Ret (True, g')"
      "clients g' (keyOf g (NewID2 (UserID c))) = Some r"
      "heap g' r = SetID (keyOf g (NewID2 (UserID c))) (SetCredentials c (heap ?g1 r))"
      "clients g' (keyOf g (info_ID (info (heap g r)))) = None"
      "pool g' = pool g @ kicked g c @ [(r, NewMessage seq ActionNotifySuccess INil)]"
    using interceptor_authenticates [of ?g1 r ?env c "received_message ?m" ?x] g1 g h1 r(1) take act x t(2,4) c(2)
    by (auto simp: bytes_of_string_of_bytes length_string_of_bytes wire_env_def GetSeq_def)
  have "info_ID (info (heap g r)) \<noteq> ''''" using gw_invD(2) [of g] g(1) r(1) by (auto simp: good_def)
  then have "runRead_message ?env r (Some \<lparr>rr_err = nil, rr_m = Some (received_message ?m)\<rparr>) g = Ret (False, g')"
    using g'(1) act h1(9) h1(5) g(2)
    by (simp add: runRead_message_def GetAction_def interceptClientMessage_def action_defs)
  then show ?thesis using t(1) b rd g' by (auto simp: GetCredentials_def)
qed

definition token_check :: "gateway \<Rightarrow> bool" where
  "token_check g =
     (authenticator g \<and> pool g = [] \<and> pool_cap g = 10 \<and> IsRunning (heap g 1) \<and> msgHandler (heap g 1) = Intercepted BaseHandler \<and>
      can_take demo_env2 g 1 (UserID demo_creds) \<and> kicked g demo_creds = [(0, kick_message demo_creds)])"

lemma token_check_demo: "token_check demo_two"
  by code_simp

theorem authentication_over_the_wire_witness:
  "let xor = (\<lambda>k b. xor_bytes b (take BlockSize k)); a = NewAesCBCCrypto [1, 2, 3]
   in \<exists>token b g'. EncryptCredentials marshal_credentials xor (replicate 16 7, nil) a demo_creds = Ret (Inr token) \<and>
    JsonCodec_Encode (marshal_message (\<lambda>_. '''')) (auth_message 3 token) = Inr b \<and>
    runRead_message (wire_env (\<lambda>_. Inl '''') (\<lambda>_ _. '''') (\<lambda>_. '''') xor a demo_env2) 1
      (Some (fst (reader_round (unmarshal_message (\<lambda>_. '''')) (Inr b)))) demo_two = Ret (False, g') \<and>
    clients g' (keyOf demo_two (NewID2 (UserID demo_creds))) = Some 1 \<and> GetCredentials (heap g' 1) = Some demo_creds \<and>
    pool g' = [(0, kick_message demo_creds), (1, NewMessage 3 ActionNotifySuccess INil)]"
proof -
  have c: "authenticator demo_two" "length (pool demo_two) + 2 \<le> pool_cap demo_two" "pool demo_two = []" "IsRunning (heap demo_two 1)"
      "msgHandler (heap demo_two 1) = Intercepted BaseHandler" "can_take demo_env2 demo_two 1 (UserID demo_creds)"
      "kicked demo_two demo_creds = [(0, kick_message demo_creds)]"
    using token_check_demo by (simp_all add: token_check_def)
  have "length (Key (NewAesCBCCrypto [1, 2, 3])) \<ge> BlockSize"
    using length_Key_NewAesCBCCrypto [of "[1, 2, 3]"] by (auto simp: BlockSize_def)
  note inv = block_inverse_xor [OF this]
  have s: "sendable_credentials demo_creds" "sint (of_int (ae_now demo_env2 - Timestamp demo_creds) :: i64) \<le> 1500 * 1000"
    by code_simp+
  have "length (replicate 16 7 :: bytes) = BlockSize" "in_width 64 3" by (simp_all add: BlockSize_def in_width_def)
  from authentication_over_the_wire [where enc = "\<lambda>k b. xor_bytes b (take BlockSize k)" and dec = "\<lambda>k b. xor_bytes b (take BlockSize k)",
      OF inv refl this(1) s good_demo_two c(1,2) demo_two_facts(1) c(4,5,6) this(2),
      of "\<lambda>_. ''''" "\<lambda>_. Inl ''''" "\<lambda>_ _. ''''" "\<lambda>_. ''''" "\<lambda>_. ''''"]
  show ?thesis unfolding Let_def c(3,7) append.simps by blast
qed

end
