(* ===== verification/Spec2Isabelle.thy ===== *)
theory Spec2Isabelle
  imports Float64 ConsistentHash TimingWheelCorrect Server Examples Logger Token
begin

text \<open>
  A verification development for the glide instant messaging server.

  \<^bold>\<open>The program.\<close> Clients connect over WebSocket (\<^verbatim>\<open>pkg/conn\<close>). The gateway (\<^verbatim>\<open>pkg/gate\<close>) keeps a map from
  identifiers to clients; each client has a bounded queue, a read loop and a write loop, and
  heartbeats on a timing wheel (\<^verbatim>\<open>pkg/timingwheel\<close>). Messages pass the interceptors of the
  authenticator and reach the messaging service (\<^verbatim>\<open>pkg/messaging\<close>), a chain of handlers behind a pool, which stores
  (\<^verbatim>\<open>internal/message_store_db\<close>, \<^verbatim>\<open>pkg/store\<close>) and dispatches them back through the gateway or publishes
  them to channels (\<^verbatim>\<open>pkg/subscription\<close>). Other services reach the gateway and the channels over RPC
  (\<^verbatim>\<open>im_service\<close>, \<^verbatim>\<open>pkg/rpc\<close>). \<^verbatim>\<open>cmd/im_service/main.go\<close> puts the parts together.

  \<^bold>\<open>Conventions.\<close> Structures are records with the fields of the source, methods are functions named
  after them, with a prefix where the name is taken. A Go error is a \<^typ>\<open>string option\<close>. Code that can
  panic returns an \<open>outcome\<close>; taking a lock the goroutine already holds, which never returns, is the
  outcome \<open>deadlock\<close>. Goroutines are step relations (\<open>cstep\<close> for a client, \<open>rstep\<close> for the readers of all
  connections, \<open>qstep\<close> for a channel, \<open>kstep\<close> for the Kafka consumer, \<open>gw_run\<close> over events for the gateway), and the theorems about them
  quantify over all reachable states. Integers that wrap are words (hashes, sequence
  numbers, permissions). Libraries that are not part of the repository (AES and the digests, rpcx,
  sarama, MySQL and Redis, gorilla/websocket, viper) are arguments, and what is assumed of them is a
  hypothesis of the theorem that needs it. The JSON functions are arguments as well; the theory \<open>Wire\<close> defines them for
  messages and their bodies, the theory \<open>Token\<close> for credentials.

  \<^bold>\<open>Theories.\<close>
  \<^item> \<open>Prelude\<close>: outcomes, strings, decimal and hexadecimal printing, Go channels.
  \<^item> \<open>GateId\<close>: identifiers (\<^verbatim>\<open>pkg/gate/client.go\<close>, \<^verbatim>\<open>id.go\<close>): round trip of the parts, temporary identifiers, and what
    \<open>SetGateway\<close> does and does not do.
  \<^item> \<open>MurmurHash\<close>, \<open>ConsistentHash\<close> (\<^verbatim>\<open>pkg/hash\<close>): the hash on 32-bit words; the ring with its invariant,
    correctness of the binary search, minimal disruption, and removal as the inverse of addition.
  \<^item> \<open>Messages\<close> (\<^verbatim>\<open>pkg/messages\<close>): envelope, bodies, codecs; exactness of the errors of \<open>Deserialize\<close>.
  \<^item> \<open>Decimal\<close>, \<open>Json\<close>: \<^verbatim>\<open>strconv.ParseInt\<close> and the texts of \<^verbatim>\<open>encoding/json\<close>: UTF-8, string literals, numbers, values; what is
    printed is parsed as the same value.
  \<^item> \<open>JsonFields\<close>: how JSON writes and reads a structure, over the locale \<open>value_codec\<close> of the values of its fields.
  \<^item> \<open>Wire\<close> (\<^verbatim>\<open>pkg/messages\<close>): the structures with their JSON tags; messages arrive as they were sent. The locale \<open>codec\<close> is what the two
    ends of a connection rely on, interpreted on the JSON codec.
  \<^item> \<open>Token\<close> (\<^verbatim>\<open>pkg/gate/client.go\<close>, \<^verbatim>\<open>authenticator.go\<close>): the JSON text of credentials, and the authentication with a token that
    arrives in a message.
  \<^item> \<open>Credentials\<close> (\<^verbatim>\<open>pkg/gate/authenticator.go\<close>): base64, padding and CBC written out; round trip of tokens, and
    exactly which tokens make the decryption panic.
  \<^item> \<open>Client\<close> (\<^verbatim>\<open>client_impl.go\<close>, \<^verbatim>\<open>reader.go\<close>): the queue and the goroutines of one client; nothing is lost, duplicated or
    reordered, and what happens when calls of \<open>Exit\<close> overlap.
  \<^item> \<open>Reader\<close> (\<^verbatim>\<open>reader.go\<close>): the goroutine that reads from a connection, for any number of connections that share the pool of
    result objects; every read loop gets its own results, in order and unmixed.
  \<^item> \<open>Gateway\<close> (\<^verbatim>\<open>gateway.go\<close>, \<^verbatim>\<open>authenticator.go\<close>): all entry points over a heap of clients; the one-to-one
    correspondence of identifiers and clients, the shape of every client, absence of deadlock, the ticket check, the
    takeover of an identifier, heartbeats. The locale \<open>gateway_port\<close> is the interface that channels, presence and
    handlers use, interpreted on the gateway here and on the state of the handlers in \<open>Messaging\<close>.
  \<^item> \<open>Loops\<close> (\<^verbatim>\<open>client_impl.go\<close>): the read and the write loop as wholes; they never fail, and end.
  \<^item> \<open>Conn\<close> (\<^verbatim>\<open>pkg/conn\<close>, the server in \<^verbatim>\<open>gateway.go\<close>): connections and their errors, with the locale \<open>connection\<close> as their contract,
    interpreted on WebSocket, TCP and proxied connections; the TCP and WebSocket servers and the server of the gateway;
    a failing connection ends its client.
  \<^item> \<open>Channel\<close>, \<open>Subscription\<close> (\<^verbatim>\<open>pkg/subscription\<close>, \<^verbatim>\<open>internal/world_channel\<close>): permissions, tickets, sequence
    numbers, the queue of a channel and its goroutine; the service and its wrapper, for which the
    locale \<open>subscribe_wrap\<close> states the contract, interpreted on both; the members of the world channel.
  \<^item> \<open>Messaging\<close> (\<^verbatim>\<open>pkg/messaging\<close>): the chain of handlers, chat delivery, dispatch independent of the order of
    registration, presence.
  \<^item> \<open>Stores\<close> (\<^verbatim>\<open>internal/message_store_db\<close>, \<^verbatim>\<open>pkg/store\<close>): the message stores; the locale \<open>message_store\<close> is what the chat
    handler relies on, interpreted on the idle, MySQL and Kafka stores; sessions of the database, delivery over Kafka.
  \<^item> \<open>Db\<close> (\<^verbatim>\<open>internal/pkg/db\<close>): the connections to MySQL and Redis, with the settings of their pools.
  \<^item> \<open>Server\<close> (\<^verbatim>\<open>config/viper.go\<close>, \<^verbatim>\<open>cmd/im_service/main.go\<close>): the configuration, the start of the server, its goroutine for
    connections and the RPC service.
  \<^item> \<open>TimingWheel\<close>, \<open>TimingWheelCorrect\<close>: the wheels as linked slots, and their refinement of a map from pending
    tasks to due ticks; a task runs exactly once at its tick. \<open>Float64\<close>: the floating-point arithmetic of the wheel, rounding as
    IEEE 754 does; its quotients are the integer ones of the model.
  \<^item> \<open>Rpc\<close>, \<open>RpcService\<close>: selectors, call metadata, server and client of the RPC interface; a client over a transport that
    returns what the handler returns behaves like a local call.
  \<^item> \<open>Examples\<close> (\<^verbatim>\<open>example\<close>): the example programs against the RPC service.
  \<^item> \<open>Logger\<close> (\<^verbatim>\<open>pkg/logger\<close>): what the logging functions give zap.
  \<^item> This theory: a chat message through all components, from the bytes on one connection to the bytes on another.

  \<^bold>\<open>Bounds.\<close> No recursion of the model is cut off: loops that Go runs to the end are total functions with
  a measure or structural recursion, loops that may run for ever are step relations. The exceptions are
  \<open>exit_drain\<close>, which is a partial function; that it returns is proved; and the JSON parser, which has fuel: twice the length of the text
  is enough (\<open>pv_fuel\<close>), so the fuel never decides the result.

  \<^bold>\<open>Not modelled.\<close> Calls of the logging functions (the functions themselves are); generated protocol code (the messages
  follow the \<^verbatim>\<open>.proto\<close> files); \<^verbatim>\<open>ExampleUserLogin\<close>, which calls a package that is not
  part of the repository. The goroutine of \<^verbatim>\<open>main\<close> that serves connections is a definition of its own: that a client
  connects before the world channel exists is not considered. Real time enters only as arguments (\<open>now\<close>) and as timer
  events that may happen at any moment.
\<close>

section \<open>A chat message from one connection to another\<close>

text \<open>What the ticket check asks of a chat message of the client \<open>c\<close>.\<close>
definition ticket_ok :: "auth_env \<Rightarrow> UserClient \<Rightarrow> GlideMessage \<Rightarrow> bool" where
  "ticket_ok env c m =
     (case credentials c of
        None \<Rightarrow> True
      | Some cr \<Rightarrow>
          (case Secrets cr of
             None \<Rightarrow> False
           | Some sec \<Rightarrow>
               MessageDeliverSecret sec \<noteq> '''' \<and> length (Ticket m) = 40 \<and>
               to_upper (Ticket m) = to_upper (expectTicket (ae_sha1 env) (MessageDeliverSecret sec)
                 (UID (info_ID (info c))) (To m))))"

lemma read_chat:
  assumes "msgHandler (heap g a) = Intercepted BaseHandler" "ticket_ok env (heap g a) m"
    and "info_ID (info (heap g a)) \<noteq> ''''" "Action m = ActionChatMessage"
  shows "runRead_message env a (Some \<lparr>rr_err = nil, rr_m = Some m\<rparr>) g =
    Ret (False, call_msgHandler (Live a) m (rearm_hbC a (upd a (\<lambda>c. c\<lparr>hbLost := 0\<rparr>) g)))"
proof -
  let ?g = "rearm_hbC a (upd a (\<lambda>c. c\<lparr>hbLost := 0\<rparr>) g)"
  have c: "credentials (heap ?g a) = credentials (heap g a)" "info (heap ?g a) = info (heap g a)"
    by (simp_all add: rearm_hbC_def)
  have "MessageInterceptor env a m ?g = Ret (False, ?g)"
  proof (cases "credentials (heap g a)")
    case None
    then show ?thesis using c by (simp add: MessageInterceptor_def GetCredentials_def)
  next
    case (Some cr)
    then obtain sec where "Secrets cr = Some sec" using assms(2) by (auto simp: ticket_ok_def split: option.splits)
    then show ?thesis using Some c assms(2)
      by (simp add: MessageInterceptor_def GetCredentials_def GetInfo_def ticket_ok_def)
  qed
  then show ?thesis using assms
    by (simp add: runRead_message_def rearm_hbC_def GetAction_def interceptClientMessage_def action_defs)
qed

text \<open>The client after a message was put into its queue.\<close>
definition queue_put :: "GlideMessage \<Rightarrow> UserClient \<Rightarrow> UserClient" where
  "queue_put m c = c\<lparr>messages := (messages c)\<lparr>buf := buf (messages c) @ [m]\<rparr>,
     queuedMessage := queuedMessage c + 1\<rparr>"

definition accepts :: "UserClient \<Rightarrow> bool" where
  "accepts c = (IsRunning c \<and> \<not> gochan.closed (messages c) \<and> length (buf (messages c)) < cap (messages c))"

lemma pool_run_put:
  assumes "pool g = (r, m) # ts" "accepts (heap g r)"
  shows "pool_run g = (upd r (queue_put m) g)\<lparr>pool := ts\<rparr>"
  using assms
  by (auto simp: pool_run_def accepts_def EnqueueMessage_def enqueue_send_def try_send_def isClosed_def
      IsRunning_def stateRunning_def stateClosed_def queue_put_def upd_def)

text \<open>Handlers change nothing of the gateway but the functions submitted to its pool.\<close>
lemma gate_enqueue_pool:
  "gate_enqueue i m w = Ret (e, w') \<Longrightarrow> (mw_gate w')\<lparr>pool := []\<rparr> = (mw_gate w)\<lparr>pool := []\<rparr>"
  by (cases "Impl_EnqueueMessage i m (mw_gate w)")
    (auto simp: gate_enqueue_def Impl_EnqueueMessage_def Impl_enqueueMessage_def deadlock_def split: if_splits option.splits)

lemma dispatch_pool:
  "dispatch_loop ds uid m w = Ret (ok, w') \<Longrightarrow> (mw_gate w')\<lparr>pool := []\<rparr> = (mw_gate w)\<lparr>pool := []\<rparr>"
proof (induction ds arbitrary: w ok)
  case (Cons d ds)
  then obtain e w1 ok1 where e: "gate_enqueue (NewID '''' uid d) m w = Ret (e, w1)"
    and l: "dispatch_loop ds uid m w1 = Ret (ok1, w')"
    by (auto simp: bind_outcome_eq_Ret)
  from gate_enqueue_pool [OF e] Cons.IH [OF l] show ?case by simp
qed simp

lemma handleChatMessage_pool:
  assumes "handleChatMessage env c m w = Ret (e, w')" "Deserialize_Chat (me_json env) (Data m) = Inr msg"
    "chat_accepted env c m msg = Inr acc"
  shows "(mw_gate w')\<lparr>pool := []\<rparr> = (mw_gate w)\<lparr>pool := []\<rparr>"
proof -
  let ?w = "if cm_Mid msg = 0 \<and> Action m \<noteq> ActionChatMessageResend then w\<lparr>mw_stored := mw_stored w @ [acc]\<rparr> else w"
  obtain e1 w1 ok w2 where 1: "ackChatMessage c acc ?w = Ret (e1, w1)"
      "dispatchAllDevice (cm_To acc) (chat_message acc) w1 = Ret (ok, w2)"
    and r: "(if ok then Ret (nil, w2) else bind_outcome (ackNotifyMessage c acc w2) (\<lambda>(_, w4).
        dispatchOffline env acc w4)) = Ret (e, w')"
    using assms by (auto simp: handleChatMessage_def chat_accepted_def chat_message_def Let_def bind_outcome_eq_Ret
        split: if_splits sum.splits)
  have "(mw_gate w')\<lparr>pool := []\<rparr> = (mw_gate w2)\<lparr>pool := []\<rparr>"
    using r by (auto simp: bind_outcome_eq_Ret ackNotifyMessage_def dispatchOffline_def
        dest!: gate_enqueue_pool split: if_splits)
  also have "\<dots> = (mw_gate w1)\<lparr>pool := []\<rparr>"
    using dispatch_pool [of devices "cm_To acc" "chat_message acc" w1 ok w2] 1(2)
    by (simp add: dispatchAllDevice_def)
  also have "\<dots> = (mw_gate ?w)\<lparr>pool := []\<rparr>"
    using gate_enqueue_pool 1(1) unfolding ackChatMessage_def by blast
  finally show ?thesis by (simp split: if_splits)
qed

lemma two_puts:
  assumes "pool g = [(a, x), (b, y)]" "a \<noteq> b" "accepts (heap g a)" "accepts (heap g b)"
  shows "(pool_run ^^ 2) g = (upd b (queue_put y) (upd a (queue_put x) g))\<lparr>pool := []\<rparr>"
proof -
  let ?g = "(upd a (queue_put x) g)\<lparr>pool := [(b, y)]\<rparr>"
  have "pool_run g = ?g" using pool_run_put [OF assms(1,3)] .
  moreover have "pool_run ?g = (upd b (queue_put y) ?g)\<lparr>pool := []\<rparr>"
    using assms(2,4) by (intro pool_run_put) simp_all
  ultimately show ?thesis by (simp add: numeral_2_eq_2 upd_def)
qed

lemma chat_task:
  assumes "mset order = mset default_actions" "Action m = ActionChatMessage"
    and "handleChatMessage menv c m w = Ret (nil, w')"
  shows "handle_task menv (NewHandlerWithOptions ne False order) c m w = Ret w'"
proof -
  have "map_of default_actions (GetAction m) = Some HChat"
    using assms(2) by (simp add: GetAction_def default_actions_def action_defs)
  then show ?thesis
    using assms(3) default_handles [OF assms(1), of menv _ ne c m w]
    by (simp add: handle_task_def run_fn_def)
qed

text \<open>The task of a chat message whose receiver has one device online, and the two functions it submits.\<close>
lemma chat_task_delivers:
  fixes g :: gateway
  assumes g: "\<not> mu g" "pool g = []" "5 \<le> pool_cap g"
    and a: "gw_online g (info_ID c)" "gw_target g (info_ID c) = a" "accepts (heap g a)"
    and b: "gw_online g (NewID '''' (To m) '''')" "gw_target g (NewID '''' (To m) '''') = b" "accepts (heap g b)"
      "a \<noteq> b" "\<And>d. d \<in> {''1'', ''2'', ''3''} \<Longrightarrow> \<not> gw_online g (NewID '''' (To m) d)"
    and m: "Deserialize_Chat (me_json menv) (Data m) = Inr msg" "chat_accepted menv c m msg = Inr acc" "cm_To acc = To m"
  shows "\<exists>w2. handleChatMessage menv c m (w\<lparr>mw_gate := g\<rparr>) = Ret (nil, w2) \<and>
    (pool_run ^^ 2) (mw_gate w2) =
      (upd b (queue_put (chat_message acc)) (upd a (queue_put (ack_message acc)) g))\<lparr>pool := []\<rparr>"
proof -
  let ?w = "w\<lparr>mw_gate := g\<rparr>"
  have "\<not> mu (mw_gate ?w)" "5 \<le> gw_room (mw_gate ?w)" using g by (simp_all add: gw_room_def)
  from chat_delivery [OF this m(1,2)] m(3)
  obtain w2 where w2: "pool (mw_gate w2) = pool g @ to_online g [info_ID c] (ack_message acc) @
        to_online g (map (NewID '''' (To m)) devices) (chat_message acc)"
      "handleChatMessage menv c m ?w = (if \<exists>i \<in> set (map (NewID '''' (To m)) devices). gw_online g i
        then Ret (nil, w2) else dispatchOffline menv acc w2)"
    by auto
  then have h: "handleChatMessage menv c m ?w = Ret (nil, w2)" using b(1) by (simp add: devices_def)
  have p: "pool (mw_gate w2) = [(a, ack_message acc), (b, chat_message acc)]"
    using w2(1) a b g(2) by (simp add: to_online_def devices_def)
  have "(mw_gate w2)\<lparr>pool := []\<rparr> = g\<lparr>pool := []\<rparr>" using handleChatMessage_pool [OF h m(1,2)] by simp
  then have f: "mw_gate w2 = g\<lparr>pool := pool (mw_gate w2)\<rparr>" by (cases "mw_gate w2", cases g) simp
  have "heap (mw_gate w2) = heap g" using arg_cong [OF f, of heap] by simp
  then have "accepts (heap (mw_gate w2) a)" "accepts (heap (mw_gate w2) b)" using a(3) b(3) by simp_all
  note two_puts [OF p b(4) this]
  also have "(upd b (queue_put (chat_message acc)) (upd a (queue_put (ack_message acc)) (mw_gate w2)))\<lparr>pool := []\<rparr> =
      (upd b (queue_put (chat_message acc)) (upd a (queue_put (ack_message acc)) g))\<lparr>pool := []\<rparr>"
    by (subst f) (simp add: upd_def)
  finally show ?thesis using h by blast
qed

text \<open>A chat message from the read loop of one client to the queue of another.\<close>
lemma chat_end_to_end:
  fixes g :: gateway
  assumes g: "good g" "pool g = []" "5 \<le> pool_cap g"
    and a: "clients g (keyOf g (info_ID (info (heap g a)))) = Some a" "accepts (heap g a)"
      "msgHandler (heap g a) = Intercepted BaseHandler" "ticket_ok env (heap g a) m"
    and b: "clients g (keyOf g (NewID '''' (To m) '''')) = Some b" "accepts (heap g b)" "a \<noteq> b"
      "\<And>d. d \<in> {''1'', ''2'', ''3''} \<Longrightarrow> \<not> gw_online g (NewID '''' (To m) d)"
    and m: "Action m = ActionChatMessage" "Deserialize_Chat (me_json menv) (Data m) = Inr msg"
      "chat_accepted menv (info (heap g a)) m msg = Inr acc"
    and s: "message_store (me_store menv)"
    and d: "d = NewHandlerWithOptions True False order" "mset order = mset default_actions"
  shows "\<exists>g1 m' w2 g3.
    runRead_message env a (Some \<lparr>rr_err = nil, rr_m = Some m\<rparr>) g = Ret (False, g1) \<and>
      events g1 = events g @ [(Live a, m)] \<and> info (heap g1 a) = info (heap g a) \<and>
    Handle (info (heap g1 a)) m d (w\<lparr>mw_gate := g1\<rparr>) =
      Ret (nil, d\<lparr>exec_pool := [(info (heap g1 a), m')]\<rparr>, w\<lparr>mw_gate := g1\<rparr>) \<and>
    handle_task menv d (info (heap g1 a)) m' (w\<lparr>mw_gate := g1\<rparr>) = Ret w2 \<and>
    (pool_run ^^ 2) (mw_gate w2) = g3 \<and> pool g3 = [] \<and> clients g3 = clients g \<and>
    buf (messages (heap g3 b)) = buf (messages (heap g b)) @ [chat_message acc] \<and>
    buf (messages (heap g3 a)) = buf (messages (heap g a)) @ [ack_message acc] \<and>
    cm_From acc = UID (info_ID (info (heap g a))) \<and> cm_To acc = To m \<and> cm_Content acc = cm_Content msg"
proof -
  let ?g1 = "call_msgHandler (Live a) m (rearm_hbC a (upd a (\<lambda>c. c\<lparr>hbLost := 0\<rparr>) g))"
  let ?c = "info (heap g a)" and ?m = "m\<lparr>From := UID (info_ID (info (heap g a)))\<rparr>"
  have inv: "gw_inv g" "\<not> mu g" using g(1) by (simp_all add: good_def)
  have g1: "info (heap ?g1 a) = ?c" "pool ?g1 = []" "pool_cap ?g1 = pool_cap g" "clients ?g1 = clients g"
    "\<not> mu ?g1" "heap ?g1 b = heap g b" "messages (heap ?g1 a) = messages (heap g a)" "accepts (heap ?g1 a)"
    "events ?g1 = events g @ [(Live a, m)]"
    using g(2) inv a(2) b(3) by (simp_all add: rearm_hbC_def accepts_def IsRunning_def call_msgHandler_def)
  have online: "gw_online ?g1 = gw_online g" "gw_target ?g1 = gw_target g"
    by (auto simp: gw_online_def gw_target_def fun_eq_iff rearm_hbC_def IsRunning_def split: option.split)
  have on: "gw_online g (NewID '''' (To m) '''')" "gw_target g (NewID '''' (To m) '''') = b"
    "gw_online g (info_ID ?c)" "gw_target g (info_ID ?c) = a"
    using a b by (simp_all add: gw_online_def gw_target_def accepts_def)
  have acc: "acc = msg\<lparr>cm_From := UID (info_ID ?c), cm_To := To m, cm_Mid := cm_Mid acc\<rparr>"
    using message_store.accepted [OF s refl m(3)] .
  have ends: "cm_From acc = UID (info_ID ?c)" "cm_To acc = To m" "cm_Content acc = cm_Content msg"
    by (subst acc, simp)+
  have acc': "chat_accepted menv ?c ?m msg = Inr acc" using m(3) by (simp add: chat_accepted_def)
  obtain w2 where w2: "handleChatMessage menv ?c ?m (w\<lparr>mw_gate := ?g1\<rparr>) = Ret (nil, w2)"
      "(pool_run ^^ 2) (mw_gate w2) =
        (upd b (queue_put (chat_message acc)) (upd a (queue_put (ack_message acc)) ?g1))\<lparr>pool := []\<rparr>"
    using chat_task_delivers [of ?g1 ?c a ?m b menv msg acc w] g(3) g1 on online b m(2) acc' ends by auto
  have "runRead_message env a (Some \<lparr>rr_err = nil, rr_m = Some m\<rparr>) g = Ret (False, ?g1)"
    using read_chat [OF a(3,4) gw_invD(2) [OF inv(1) a(1)] m(1)] .
  moreover have "handle_task menv d ?c ?m (w\<lparr>mw_gate := ?g1\<rparr>) = Ret w2"
    using chat_task [OF d(2) _ w2(1)] m(1) d(1) by simp
  moreover have "Handle ?c m d (w\<lparr>mw_gate := ?g1\<rparr>) = Ret (nil, d\<lparr>exec_pool := [(?c, ?m)]\<rparr>, w\<lparr>mw_gate := ?g1\<rparr>)"
    using m(1) d(1) by (simp add: Handle_def NewHandlerWithOptions_def NewDefaultImpl_def GetAction_def
        IsInternal_def action_defs has_prefix_def)
  moreover define g3 where "g3 = (pool_run ^^ 2) (mw_gate w2)"
  moreover have "pool g3 = []" "clients g3 = clients g"
      "buf (messages (heap g3 b)) = buf (messages (heap g b)) @ [chat_message acc]"
      "buf (messages (heap g3 a)) = buf (messages (heap g a)) @ [ack_message acc]"
    using g1 b(3) by (simp_all add: g3_def w2(2) queue_put_def)
  ultimately show ?thesis using ends g1(1,9)
    by (intro exI [of _ ?g1] exI [of _ ?m] exI [of _ w2] exI [of _ g3] conjI) (simp_all only:)
qed

text \<open>What the write loop of \<open>b\<close> puts on the connection, whenever it gets to the message.\<close>
lemma writes_encoded:
  assumes "\<And>x. io_encode io (Some x) = JsonCodec_Encode (marshal_message mtext) x" "JsonCodec_Encode (marshal_message mtext) x = Inr c"
    "io_write io c = nil"
  shows "\<exists>h'. runWrite_message io b (Some x) h = Ret (False, h') \<and> conn_out (heap h' b) = conn_out (heap h b) @ [c]"
  using assms by (simp add: runWrite_message_def write2Conn_def rearm_hbS_def)

lemma chat_message_sendable: "sendable_struct (SChat acc) \<Longrightarrow> sendable_message (chat_message acc)"
proof -
  have "valid_utf8 ActionChatMessage" by code_simp
  then show "sendable_struct (SChat acc) \<Longrightarrow> sendable_message (chat_message acc)"
    by (simp add: chat_message_def sendable_message_def fields_GlideMessage_def sendable_def sendable_data_def NewMessage_def NewData_def
        messageVersion_def in_width_def)
qed

lemma Deserialize_Chat_received:
  assumes "sendable_message m" "Data m = Some (Ptr (SChat x))"
  shows "Deserialize_Chat (unmarshal_struct other stext) (Data (received_message m)) = Inr x"
  using Deserialize_received [OF assms, of "SChat x"] by (simp add: Deserialize_Chat_def data_struct_def)

text \<open>
  C4: a chat message from one connection to another, through every component and down to the bytes on both connections. The sender's
  message is encoded to JSON; the reader of its connection decodes it, the read loop passes the message that
  the ticket check lets through to the message handler, the handler submits it to its pool under the sender's user, the
  task decodes the chat message, stores it, acknowledges it and hands it to the gateway, and the two functions the gateway
  submitted put it into the receiver's queue and the acknowledgement into the sender's. The write loop of the
  receiver puts one more text on its connection, which the receiver decodes to a chat message with the content that was
  sent, and with the user of the sender's connection as its sender, whatever the message said. The registrations are as before.
\<close>
theorem chat_over_the_wire:
  fixes g :: gateway
  assumes g: "good g" "pool g = []" "5 \<le> pool_cap g"
    and a: "clients g (keyOf g (info_ID (info (heap g a)))) = Some a" "accepts (heap g a)"
      "msgHandler (heap g a) = Intercepted BaseHandler" "ticket_ok env (heap g a) m"
    and b: "clients g (keyOf g (NewID '''' (To m) '''')) = Some b" "accepts (heap g b)" "a \<noteq> b"
      "\<And>d. d \<in> {''1'', ''2'', ''3''} \<Longrightarrow> \<not> gw_online g (NewID '''' (To m) d)"
    and m: "Action m = ActionChatMessage" "Data m = Some (Ptr (SChat msg))" "sendable_message m"
      "chat_accepted menv (info (heap g a)) m msg = Inr acc" "sendable_struct (SChat acc)"
    and s: "message_store (me_store menv)" "me_json menv = unmarshal_struct other stext"
    and d: "d = NewHandlerWithOptions True False order" "mset order = mset default_actions"
    and io: "\<And>x. io_encode io (Some x) = JsonCodec_Encode (marshal_message mtext) x" "\<And>c. io_write io c = nil"
  shows "\<exists>b1 m1 g1 m' w2 g3 b2 n.
    JsonCodec_Encode (marshal_message mtext) m = Inr b1 \<and>
    runRead_message env a (Some (fst (reader_round (unmarshal_message etext) (Inr b1)))) g = Ret (False, g1) \<and>
      events g1 = events g @ [(Live a, m1)] \<and>
    Handle (info (heap g1 a)) m1 d (w\<lparr>mw_gate := g1\<rparr>) =
      Ret (nil, d\<lparr>exec_pool := [(info (heap g1 a), m')]\<rparr>, w\<lparr>mw_gate := g1\<rparr>) \<and>
    handle_task menv d (info (heap g1 a)) m' (w\<lparr>mw_gate := g1\<rparr>) = Ret w2 \<and>
    (pool_run ^^ 2) (mw_gate w2) = g3 \<and> pool g3 = [] \<and> clients g3 = clients g \<and>
    buf (messages (heap g3 b)) = buf (messages (heap g b)) @ [chat_message acc] \<and>
    buf (messages (heap g3 a)) = buf (messages (heap g a)) @ [ack_message acc] \<and>
    (\<forall>h. \<exists>h'. runWrite_message io b (Some (chat_message acc)) h = Ret (False, h') \<and> conn_out (heap h' b) = conn_out (heap h b) @ [b2]) \<and>
    reader_round (unmarshal_message etext) (Inr b2) = (\<lparr>rr_err = nil, rr_m = Some n\<rparr>, True) \<and>
    Action n = ActionChatMessage \<and> Deserialize_Chat (unmarshal_struct other stext) (Data n) = Inr acc \<and>
    cm_From acc = UID (info_ID (info (heap g a))) \<and> cm_To acc = To m \<and> cm_Content acc = cm_Content msg"
proof -
  let ?m = "received_message m"
  obtain b1 where b1: "JsonCodec_Encode (marshal_message mtext) m = Inr b1" using json_codec.enc_total m(3) by blast
  have rd: "fst (reader_round (unmarshal_message etext) (Inr b1)) = \<lparr>rr_err = nil, rr_m = Some ?m\<rparr>"
    using json_codec.reader_round_enc [OF m(3) b1] by simp
  have keep: "To ?m = To m" "Action ?m = Action m" "Ticket ?m = Ticket m" by (simp_all add: received_message_def)
  have r: "ticket_ok env (heap g a) ?m" "chat_accepted menv (info (heap g a)) ?m msg = Inr acc"
    using a(4) m(4) unfolding ticket_ok_def chat_accepted_def keep by simp_all
  have x: "Deserialize_Chat (me_json menv) (Data ?m) = Inr msg" unfolding s(2) by (rule Deserialize_Chat_received [OF m(3,2)])
  have c: "sendable_message (chat_message acc)" using chat_message_sendable m(5) by blast
  then obtain b2 where b2: "JsonCodec_Encode (marshal_message mtext) (chat_message acc) = Inr b2" using json_codec.enc_total by blast
  let ?n = "received_message (chat_message acc)"
  have n: "reader_round (unmarshal_message etext) (Inr b2) = (\<lparr>rr_err = nil, rr_m = Some ?n\<rparr>, True)"
      "Action ?n = ActionChatMessage" "Deserialize_Chat (unmarshal_struct other stext) (Data ?n) = Inr acc"
    by (rule json_codec.reader_round_enc [OF c b2], simp add: received_message_def chat_message_def,
        rule Deserialize_Chat_received [OF c], simp add: chat_message_def)
  have out: "\<forall>h. \<exists>h'. runWrite_message io b (Some (chat_message acc)) h = Ret (False, h') \<and> conn_out (heap h' b) = conn_out (heap h b) @ [b2]"
    using writes_encoded [OF io(1) b2 io(2)] by blast
  obtain g1 m' w2 where e:
      "runRead_message env a (Some \<lparr>rr_err = nil, rr_m = Some ?m\<rparr>) g = Ret (False, g1)" "events g1 = events g @ [(Live a, ?m)]"
      "Handle (info (heap g1 a)) ?m d (w\<lparr>mw_gate := g1\<rparr>) =
        Ret (nil, d\<lparr>exec_pool := [(info (heap g1 a), m')]\<rparr>, w\<lparr>mw_gate := g1\<rparr>)"
      "handle_task menv d (info (heap g1 a)) m' (w\<lparr>mw_gate := g1\<rparr>) = Ret w2"
      "pool ((pool_run ^^ 2) (mw_gate w2)) = []" "clients ((pool_run ^^ 2) (mw_gate w2)) = clients g"
      "buf (messages (heap ((pool_run ^^ 2) (mw_gate w2)) b)) = buf (messages (heap g b)) @ [chat_message acc]"
      "buf (messages (heap ((pool_run ^^ 2) (mw_gate w2)) a)) = buf (messages (heap g a)) @ [ack_message acc]"
      "cm_From acc = UID (info_ID (info (heap g a)))" "cm_To acc = To m" "cm_Content acc = cm_Content msg"
    using chat_end_to_end [OF g a(1-3) r(1) _ b(2,3) _ _ x r(2) s(1) d, of w] b(1,4) m(1) unfolding keep by blast
  show ?thesis
    by (intro exI conjI, rule b1, (unfold rd), rule e(1), rule e(2), rule e(3), rule e(4), rule refl, rule e(5), rule e(6), rule e(7), rule e(8),
        rule out, rule n(1), rule n(2), rule n(3), rule e(9), rule e(10), rule e(11))
qed

definition end_check :: "gateway \<Rightarrow> bool" where
  "end_check g =
     (pool g = [] \<and> pool_cap g = 10 \<and> accepts (heap g 0) \<and> accepts (heap g 1) \<and>
      msgHandler (heap g 1) = Intercepted BaseHandler \<and> credentials (heap g 1) = None \<and>
      clients g (keyOf g (NewID '''' ''u1'' '''')) = Some 0 \<and>
      list_all (\<lambda>d. \<not> gw_online g (NewID '''' ''u1'' d)) [''1'', ''2'', ''3''] \<and>
      sendable_struct (SChat (demo_chat\<lparr>cm_From := UID (info_ID (info (heap g 1))), cm_To := ''u1'', cm_Mid := 7\<rparr>)))"

lemma end_check_demo: "end_check demo_two"
  by code_simp

theorem chat_over_the_wire_witness:
  "\<exists>b1 g1 b2 n acc. JsonCodec_Encode (marshal_message (\<lambda>_. '''')) (demo_envelope\<lparr>To := ''u1''\<rparr>) = Inr b1 \<and>
    runRead_message demo_env 1 (Some (fst (reader_round (unmarshal_message (\<lambda>_. '''')) (Inr b1)))) demo_two = Ret (False, g1) \<and>
    reader_round (unmarshal_message (\<lambda>_. '''')) (Inr b2) = (\<lparr>rr_err = nil, rr_m = Some n\<rparr>, True) \<and>
    Deserialize_Chat (unmarshal_struct (\<lambda>_. Inl '''') (\<lambda>_ _. '''')) (Data n) = Inr acc \<and>
    cm_From acc = UID (info_ID (info (heap demo_two 1))) \<and> cm_Mid acc = 7"
proof -
  let ?m = "demo_envelope\<lparr>To := ''u1''\<rparr>"
  let ?env = "demo_msg_env\<lparr>me_store := IdleChat_StoreMessage 7, me_json := unmarshal_struct (\<lambda>_. Inl '''') (\<lambda>_ _. '''')\<rparr>"
  let ?acc = "demo_chat\<lparr>cm_From := UID (info_ID (info (heap demo_two 1))), cm_To := ''u1'', cm_Mid := 7\<rparr>"
  let ?io = "\<lparr>io_encode = (\<lambda>x. case x of None \<Rightarrow> Inl '''' | Some x \<Rightarrow> JsonCodec_Encode (marshal_message (\<lambda>_. '''')) x), io_write = (\<lambda>_. nil)\<rparr>"
  have c: "pool demo_two = []" "5 \<le> pool_cap demo_two" "accepts (heap demo_two 0)" "accepts (heap demo_two 1)"
      "msgHandler (heap demo_two 1) = Intercepted BaseHandler" "ticket_ok demo_env (heap demo_two 1) ?m"
      "clients demo_two (keyOf demo_two (NewID '''' (To ?m) '''')) = Some 0" "sendable_struct (SChat ?acc)"
      "\<And>d. d \<in> {''1'', ''2'', ''3''} \<Longrightarrow> \<not> gw_online demo_two (NewID '''' (To ?m) d)"
    using end_check_demo by (auto simp: end_check_def ticket_ok_def)
  have m: "Action ?m = ActionChatMessage" "Data ?m = Some (Ptr (SChat demo_chat))"
      "chat_accepted ?env (info (heap demo_two 1)) ?m demo_chat = Inr ?acc"
    by (simp_all add: demo_envelope_def chat_accepted_def demo_chat_def IdleChat_StoreMessage_def action_defs)
  have k: "sendable_message ?m" by code_simp
  have s: "message_store (me_store ?env)" using idle_chat.message_store_axioms by simp
  have "me_json ?env = unmarshal_struct (\<lambda>_. Inl '''') (\<lambda>_ _. '''')" "\<And>x. io_encode ?io (Some x) = JsonCodec_Encode (marshal_message (\<lambda>_. '''')) x"
      "\<And>c. io_write ?io c = nil" "cm_Mid ?acc = 7" by simp_all
  with chat_over_the_wire [OF good_demo_two c(1,2) demo_two_facts(1) c(4,5,6,7,3) _ c(9) m(1,2) k m(3) c(8) s this(1) refl refl this(2,3),
      of "\<lambda>_. ''''" demo_msgw]
  show ?thesis by (metis (no_types, lifting) zero_neq_one)
qed

end
